(* ===== verification/Prelude.thy ===== *)
theory Prelude
  imports Main "HOL-Library.Word" "HOL-Library.Monad_Syntax"
begin

section \<open>Shared types, monadic lists and generic lemmas\<close>

text \<open>
  What every component of the development shares: the machine-integer and byte types, the
  option-valued traversal \<open>mapM\<close> that models iterating over a vector with a function that
  may panic or fail, and the generic facts on it.  The collections \<open>ty_simps\<close>,
  \<open>sat_simps\<close> and \<open>interp_simps\<close> gather the equations of the type rules, of the
  satisfier and of the interpreter, so that a proof names one of them instead of a list of
  definitions.
\<close>

named_theorems ty_simps \<open>equations of the typing rules\<close>
named_theorems sat_simps \<open>equations of the witness algebra of the satisfier\<close>
named_theorems interp_simps \<open>equations of the stack operations of the interpreter\<close>

type_synonym u8 = "8 word"
type_synonym u32 = "32 word"
type_synonym bytes = "u8 list"

text \<open>All the hash types of the code (\<open>sha256::Hash\<close>, \<open>hash160::Hash\<close>, \<open>TapLeafHash\<close>, ...)
  are byte arrays; the model keeps them as byte lists.\<close>

type_synonym hash = bytes

subsection \<open>Traversals that may fail\<close>

text \<open>\<open>mapM f xs\<close> is the loop \<open>xs.iter().map(f).collect()\<close> for a closure that can panic
  (\<open>None\<close>): the first failure is the result.\<close>

fun mapM :: "('a \<Rightarrow> 'b option) \<Rightarrow> 'a list \<Rightarrow> 'b list option" where
  "mapM f [] = Some []"
| "mapM f (x # xs) = do { y \<leftarrow> f x; ys \<leftarrow> mapM f xs; Some (y # ys) }"

lemma mapM_cong [fundef_cong]:
  "xs = ys \<Longrightarrow> (\<And>x. x \<in> set ys \<Longrightarrow> f x = g x) \<Longrightarrow> mapM f xs = mapM g ys"
  by (induction xs arbitrary: ys) auto

lemma mapM_Some_iff:
  "mapM f xs = Some ys \<longleftrightarrow> list_all2 (\<lambda>x y. f x = Some y) xs ys"
proof (induction xs arbitrary: ys)
  case Nil
  then show ?case by auto
next
  case (Cons x xs)
  then show ?case
    by (cases ys) (auto simp: bind_eq_Some_conv)
qed

lemma mapM_length: "mapM f xs = Some ys \<Longrightarrow> length ys = length xs"
  by (auto simp: mapM_Some_iff dest: list_all2_lengthD)

lemma mapM_nth: "mapM f xs = Some ys \<Longrightarrow> i < length xs \<Longrightarrow> f (xs ! i) = Some (ys ! i)"
  by (auto simp: mapM_Some_iff list_all2_conv_all_nth)

lemma mapM_total: "(\<And>x. x \<in> set xs \<Longrightarrow> \<exists>y. f x = Some y) \<Longrightarrow> \<exists>ys. mapM f xs = Some ys"
proof (induction xs)
  case Nil
  then show ?case by simp
next
  case (Cons x xs)
  then obtain y where "f x = Some y" by auto
  moreover from Cons have "\<exists>ys. mapM f xs = Some ys" by auto
  ultimately show ?case by auto
qed

lemma mapM_pure [simp]: "mapM (\<lambda>x. Some (f x)) xs = Some (map f xs)"
  by (induction xs) auto

lemma mapM_append:
  "mapM f (xs @ ys) = do { us \<leftarrow> mapM f xs; vs \<leftarrow> mapM f ys; Some (us @ vs) }"
  by (induction xs) (auto split: bind_split)

lemma mapM_concat: "mapM f (concat xss) = map_option concat (mapM (mapM f) xss)"
  by (induction xss) (auto simp: mapM_append split: bind_split)

lemma mapM_map: "mapM f (map g xs) = mapM (f \<circ> g) xs"
  by (induction xs) auto

text \<open>\<open>foldM\<close> is a loop that updates an accumulator and may panic.\<close>

fun foldM :: "('b \<Rightarrow> 'a \<Rightarrow> 'b option) \<Rightarrow> 'b \<Rightarrow> 'a list \<Rightarrow> 'b option" where
  "foldM f b [] = Some b"
| "foldM f b (x # xs) = do { b' \<leftarrow> f b x; foldM f b' xs }"

lemma foldM_cong [fundef_cong]:
  "b = b' \<Longrightarrow> xs = ys \<Longrightarrow> (\<And>b x. x \<in> set ys \<Longrightarrow> f b x = g b x) \<Longrightarrow> foldM f b xs = foldM g b' ys"
  by (induction xs arbitrary: b b' ys) (auto split: bind_split)

lemma foldM_invariant:
  assumes "P b" and "\<And>b x. x \<in> set xs \<Longrightarrow> P b \<Longrightarrow> \<exists>b'. f b x = Some b' \<and> P b'"
  shows "\<exists>b'. foldM f b xs = Some b' \<and> P b'"
  using assms
proof (induction xs arbitrary: b)
  case Nil
  then show ?case by simp
next
  case (Cons x xs)
  then obtain b' where "f b x = Some b'" "P b'" by fastforce
  with Cons show ?case by fastforce
qed

lemma foldM_sum:
  "foldM (\<lambda>n x. do { s \<leftarrow> f x; Some (n + s) }) a xs = map_option (\<lambda>l. a + sum_list l) (mapM f xs)"
  for a :: nat
  by (induction xs arbitrary: a) (auto simp: add.assoc split: bind_split)

fun is_ok :: "'e + 'a \<Rightarrow> bool" where
  "is_ok (Inr _) = True"
| "is_ok (Inl _) = False"

lemma is_ok_unit [simp]: "is_ok r \<longleftrightarrow> r = Inr ()" for r :: "'e + unit"
  by (cases r) auto

subsection \<open>Lists\<close>

lemma size_le_sum_list_size: "x \<in> set xs \<Longrightarrow> f x \<le> sum_list (map f xs)" for f :: "'a \<Rightarrow> nat"
  by (rule member_le_sum_list) auto

lemma length_filter_map_conv:
  "length (filter P (map f xs)) = length (filter (P \<circ> f) xs)"
  by (simp add: filter_map)

text \<open>The number of marks in a list of Booleans.\<close>

definition count_true :: "bool list \<Rightarrow> nat" where
  "count_true bs = length (filter id bs)"

lemma count_true_simps [simp]:
  "count_true [] = 0" "count_true (b # bs) = (if b then 1 else 0) + count_true bs"
  "count_true (xs @ ys) = count_true xs + count_true ys"
  by (simp_all add: count_true_def)

lemma list_all2_mem: "list_all2 R xs ys \<Longrightarrow> y \<in> set ys \<Longrightarrow> \<exists>x \<in> set xs. R x y"
  by (induction rule: list_all2_induct) auto

end
