(* ===== verification/Primitives.thy ===== *)
theory Primitives
  imports Prelude "HOL-Library.Option_ord"
begin

section \<open>Thresholds, locktimes and number sizes\<close>

text \<open>
  The module \<^verbatim>\<open>primitives\<close>: the k-of-n \<open>Threshold\<close> container with its
  validation, the absolute and relative locktimes that \<open>after\<close> and \<open>older\<close> may carry, and
  \<open>script_num_size\<close> of \<^verbatim>\<open>lib.rs\<close>.  The const generic \<open>MAX\<close> of a threshold
  is an argument of its constructors.

  The record \<open>btc\<close> holds the functions of the \<^verbatim>\<open>bitcoin\<close> crate (and of its
  hash and curve libraries) that the modelled code calls.  They are not part of the
  repository, so every definition that needs one takes the record as an argument.
\<close>

subsection \<open>The library the code calls\<close>

text \<open>\<open>absolute::LockTime\<close>: the interpreter matches on its two variants.  A
  \<open>relative::LockTime\<close> is opaque to the code; it is represented by the sequence number it was
  made from.  A \<open>bitcoin::PublicKey\<close> shows the code its \<open>compressed\<close> flag and an inner point,
  an x-only key is opaque.\<close>

datatype abs_lock = Blocks u32 | Seconds u32

datatype rel_lock = RelLock u32

datatype pubkey = PublicKey (compressed: bool) (inner: bytes)

datatype xonly = XOnly bytes

text \<open>A \<open>script::Builder\<close> is represented by the list of the calls made on it, in order.\<close>

datatype opcode =
    OP_FALSE | OP_DUP | OP_HASH160 | OP_EQUALVERIFY | OP_CLTV | OP_CSV | OP_SIZE
  | OP_SHA256 | OP_EQUAL | OP_HASH256 | OP_RIPEMD160 | OP_NOP4 | OP_DROP | OP_TOALTSTACK
  | OP_FROMALTSTACK | OP_SWAP | OP_CHECKSIG | OP_IF | OP_ENDIF | OP_0NOTEQUAL | OP_BOOLAND
  | OP_NOTIF | OP_ELSE | OP_BOOLOR | OP_IFDUP | OP_ADD | OP_CHECKMULTISIG | OP_CHECKSIGADD
  | OP_NUMEQUAL | OP_VERIFY | OP_NUMEQUALVERIFY | OP_CHECKSIGVERIFY | OP_CHECKMULTISIGVERIFY
  | OP_PUSHNUM_NEG1 | OP_PUSHNUM nat | OP_OTHER u8

text \<open>\<open>OP_PUSHNUM n\<close> stands for the sixteen opcodes \<open>OP_PUSHNUM_1\<close> to \<open>OP_PUSHNUM_16\<close>, of which
  \<open>OP_TRUE\<close> is the first, and \<open>OP_OTHER\<close> for the opcodes the code does not name.\<close>

abbreviation OP_TRUE :: opcode where
  "OP_TRUE \<equiv> OP_PUSHNUM 1"

datatype builder_call =
    PushOpcode opcode
  | PushSlice bytes
  | PushInt int
  | PushKey pubkey
  | PushVerify

type_synonym builder = "builder_call list"

record btc =
  builder_len :: "builder \<Rightarrow> nat"                  \<comment> \<open>\<open>Builder::len\<close>: the encoded size\<close>
  tap_leaf_hash :: "builder \<Rightarrow> hash"                \<comment> \<open>\<open>TapLeafHash::from_script\<close> of the built script\<close>
  abs_from_consensus :: "u32 \<Rightarrow> abs_lock"          \<comment> \<open>\<open>absolute::LockTime::from_consensus\<close>\<close>
  abs_is_implied_by :: "abs_lock \<Rightarrow> abs_lock \<Rightarrow> bool"
  seq_is_relative :: "u32 \<Rightarrow> bool"                  \<comment> \<open>\<open>Sequence::is_relative_lock_time\<close>\<close>
  seq_to_relative :: "u32 \<Rightarrow> rel_lock option"       \<comment> \<open>\<open>Sequence::to_relative_lock_time\<close>\<close>
  seq_is_height :: "u32 \<Rightarrow> bool"
  seq_is_time :: "u32 \<Rightarrow> bool"
  rel_is_implied_by :: "rel_lock \<Rightarrow> rel_lock \<Rightarrow> bool"
  varint_size :: "nat \<Rightarrow> nat"                      \<comment> \<open>\<open>VarInt(n).size()\<close>\<close>
  sha256_hash :: "bytes \<Rightarrow> hash"
  hash256_hash :: "bytes \<Rightarrow> hash"
  ripemd160_hash :: "bytes \<Rightarrow> hash"
  hash160_hash :: "bytes \<Rightarrow> hash"
  pubkey_to_bytes :: "pubkey \<Rightarrow> bytes"
  pubkey_to_xonly :: "pubkey \<Rightarrow> xonly"             \<comment> \<open>\<open>XOnlyPublicKey::from\<close>\<close>
  xonly_to_pubkey :: "xonly \<Rightarrow> pubkey"
  pubkey_from_slice :: "bytes \<Rightarrow> pubkey option"
  xonly_serialize :: "xonly \<Rightarrow> bytes"
  xonly_from_slice :: "bytes \<Rightarrow> xonly option"
  ecdsa_from_slice :: "bytes \<Rightarrow> bytes option"       \<comment> \<open>a signature is kept as its \<open>to_vec()\<close>\<close>
  schnorr_from_slice :: "bytes \<Rightarrow> bytes option"

subsection \<open>Thresholds\<close>

datatype 'a threshold = Threshold (thr_k: nat) (thr_data: "'a list")

record threshold_error =
  te_k :: nat
  te_n :: nat
  te_max :: "nat option"

definition thr_n :: "'a threshold \<Rightarrow> nat" where
  "thr_n t = length (thr_data t)"

text \<open>\<open>(MAX > 0).then_some(MAX)\<close>: the reported bound is present only when there is one.\<close>

definition validate_k_n :: "nat \<Rightarrow> nat \<Rightarrow> nat \<Rightarrow> threshold_error + unit" where
  "validate_k_n mx k n =
     (if k = 0 \<or> k > n \<or> (mx > 0 \<and> n > mx)
      then Inl \<lparr>te_k = k, te_n = n, te_max = (if mx > 0 then Some mx else None)\<rparr>
      else Inr ())"

definition threshold_new :: "nat \<Rightarrow> nat \<Rightarrow> 'a list \<Rightarrow> threshold_error + 'a threshold" where
  "threshold_new mx k xs =
     (case validate_k_n mx k (length xs) of Inl e \<Rightarrow> Inl e | Inr _ \<Rightarrow> Inr (Threshold k xs))"

text \<open>\<open>from_iter\<close>: \<open>hint\<close> is the lower bound of the iterator's \<open>size_hint\<close>; an early return
  skips collecting when the bound alone exceeds \<open>MAX\<close>.\<close>

definition threshold_from_iter ::
    "nat \<Rightarrow> nat \<Rightarrow> nat \<Rightarrow> 'a list \<Rightarrow> threshold_error + 'a threshold" where
  "threshold_from_iter mx hint k xs =
     (let min_size = max k hint in
      if mx > 0 \<and> min_size > mx
      then Inl \<lparr>te_k = k, te_n = length xs, te_max = (if mx > 0 then Some mx else None)\<rparr>
      else threshold_new mx k xs)"

definition threshold_or :: "'a \<Rightarrow> 'a \<Rightarrow> 'a threshold" where
  "threshold_or l r = Threshold 1 [l, r]"

definition threshold_and :: "'a \<Rightarrow> 'a \<Rightarrow> 'a threshold" where
  "threshold_and l r = Threshold 2 [l, r]"

definition is_or :: "'a threshold \<Rightarrow> bool" where
  "is_or t = (thr_k t = 1)"

definition is_and :: "'a threshold \<Rightarrow> bool" where
  "is_and t = (thr_k t = length (thr_data t))"

definition set_maximum :: "nat \<Rightarrow> 'a threshold \<Rightarrow> threshold_error + 'a threshold" where
  "set_maximum newmax t = threshold_new newmax (thr_k t) (thr_data t)"

text \<open>\<open>map\<close> / \<open>map_ref\<close>.\<close>

definition threshold_map :: "('a \<Rightarrow> 'b) \<Rightarrow> 'a threshold \<Rightarrow> 'b threshold" where
  "threshold_map f t = Threshold (thr_k t) (map f (thr_data t))"

text \<open>\<open>translate\<close> / \<open>translate_ref\<close>: collecting an iterator of results stops at the first
  error.\<close>

fun collect_results :: "('a \<Rightarrow> 'e + 'b) \<Rightarrow> 'a list \<Rightarrow> 'e + 'b list" where
  "collect_results f [] = Inr []"
| "collect_results f (x # xs) =
     (case f x of Inl e \<Rightarrow> Inl e
      | Inr y \<Rightarrow> (case collect_results f xs of Inl e \<Rightarrow> Inl e | Inr ys \<Rightarrow> Inr (y # ys)))"

definition threshold_translate :: "('a \<Rightarrow> 'e + 'b) \<Rightarrow> 'a threshold \<Rightarrow> 'e + 'b threshold" where
  "threshold_translate f t =
     (case collect_results f (thr_data t) of Inl e \<Rightarrow> Inl e
      | Inr ys \<Rightarrow> Inr (Threshold (thr_k t) ys))"

text \<open>\<open>translate_by_index\<close> runs over the indices of the data instead of the data.\<close>

definition threshold_translate_by_index ::
    "(nat \<Rightarrow> 'e + 'b) \<Rightarrow> 'a threshold \<Rightarrow> 'e + 'b threshold" where
  "threshold_translate_by_index f t =
     (case collect_results f [0..<length (thr_data t)] of Inl e \<Rightarrow> Inl e
      | Inr ys \<Rightarrow> Inr (Threshold (thr_k t) ys))"

text \<open>\<open>or_n\<close> and \<open>and_n\<close> assert that the vector is not empty (\<open>None\<close> is the panic).\<close>

definition threshold_or_n :: "'a list \<Rightarrow> 'a threshold option" where
  "threshold_or_n xs = (if length xs = 0 then None else Some (Threshold 1 xs))"

definition threshold_and_n :: "'a list \<Rightarrow> 'a threshold option" where
  "threshold_and_n xs = (if length xs = 0 then None else Some (Threshold (length xs) xs))"

text \<open>The invariant every constructor establishes.\<close>

definition wf_threshold :: "nat \<Rightarrow> 'a threshold \<Rightarrow> bool" where
  "wf_threshold mx t \<longleftrightarrow>
     0 < thr_k t \<and> thr_k t \<le> thr_n t \<and> (0 < mx \<longrightarrow> thr_n t \<le> mx)"

lemma validate_k_n_ok_iff:
  "validate_k_n mx k n = Inr () \<longleftrightarrow> 0 < k \<and> k \<le> n \<and> (0 < mx \<longrightarrow> n \<le> mx)"
  by (auto simp: validate_k_n_def)

lemma threshold_new_ok_iff:
  "threshold_new mx k xs = Inr t \<longleftrightarrow> t = Threshold k xs \<and> wf_threshold mx t"
  by (auto simp: threshold_new_def validate_k_n_def wf_threshold_def thr_n_def)

lemma wf_threshold_new: "threshold_new mx k xs = Inr t \<Longrightarrow> wf_threshold mx t"
  by (auto simp: threshold_new_ok_iff)

lemma wf_threshold_map: "wf_threshold mx (threshold_map f t) = wf_threshold mx t"
  by (simp add: wf_threshold_def threshold_map_def thr_n_def)

lemma collect_results_Inr_iff:
  "collect_results f xs = Inr ys \<longleftrightarrow> list_all2 (\<lambda>x y. f x = Inr y) xs ys"
proof (induction xs arbitrary: ys)
  case Nil
  then show ?case by auto
next
  case (Cons x xs)
  show ?case
  proof (cases "f x")
    case (Inl e)
    then show ?thesis by (cases ys) auto
  next
    case (Inr y)
    show ?thesis
      by (cases "collect_results f xs"; cases ys) (auto simp: Inr Cons.IH [symmetric])
  qed
qed

lemma wf_threshold_translate:
  "wf_threshold mx t \<Longrightarrow> threshold_translate f t = Inr t' \<Longrightarrow> wf_threshold mx t'"
  by (auto simp: threshold_translate_def wf_threshold_def thr_n_def collect_results_Inr_iff
        dest: list_all2_lengthD split: sum.splits)

text \<open>The early return of \<open>from_iter\<close> changes no verdict: whenever the hint is a lower bound
  of the length (the contract of \<open>size_hint\<close>), it rejects only what \<open>new\<close> rejects.\<close>

lemma threshold_from_iter_eq_new:
  assumes "hint \<le> length xs"
  shows "threshold_from_iter mx hint k xs = threshold_new mx k xs"
  using assms
  by (auto simp: threshold_from_iter_def threshold_new_def validate_k_n_def Let_def)

subsection \<open>Absolute and relative locktimes\<close>

definition MAX_ABSOLUTE_LOCKTIME :: u32 where
  "MAX_ABSOLUTE_LOCKTIME = 0x7FFFFFFF"

definition MIN_ABSOLUTE_LOCKTIME :: u32 where
  "MIN_ABSOLUTE_LOCKTIME = 1"

text \<open>\<open>AbsLockTime\<close> and \<open>RelLockTime\<close> wrap the library value made from a consensus integer;
  the model keeps that integer.\<close>

datatype abs_lock_time = AbsLockTime (abs_to_consensus_u32: u32)

datatype rel_lock_time = RelLockTime (rel_to_consensus_u32: u32)

definition abs_lock_time_from_consensus :: "u32 \<Rightarrow> u32 + abs_lock_time" where
  "abs_lock_time_from_consensus n =
     (if n \<ge> MIN_ABSOLUTE_LOCKTIME \<and> n \<le> MAX_ABSOLUTE_LOCKTIME
      then Inr (AbsLockTime n) else Inl n)"

text \<open>\<open>absolute::LockTime::from(lock_time)\<close>\<close>

definition abs_lock_of :: "btc \<Rightarrow> abs_lock_time \<Rightarrow> abs_lock" where
  "abs_lock_of L t = abs_from_consensus L (abs_to_consensus_u32 t)"

definition abs_is_block_height :: "btc \<Rightarrow> abs_lock_time \<Rightarrow> bool" where
  "abs_is_block_height L t = (case abs_lock_of L t of Blocks _ \<Rightarrow> True | Seconds _ \<Rightarrow> False)"

definition abs_is_block_time :: "btc \<Rightarrow> abs_lock_time \<Rightarrow> bool" where
  "abs_is_block_time L t = (case abs_lock_of L t of Blocks _ \<Rightarrow> False | Seconds _ \<Rightarrow> True)"

definition rel_lock_time_from_consensus :: "btc \<Rightarrow> u32 \<Rightarrow> u32 + rel_lock_time" where
  "rel_lock_time_from_consensus L n =
     (if seq_is_relative L n \<and> n \<noteq> 0 then Inr (RelLockTime n) else Inl n)"

text \<open>\<open>relative::LockTime::from(lock_time)\<close> unwraps \<open>to_relative_lock_time\<close>.\<close>

definition rel_lock_of :: "btc \<Rightarrow> rel_lock_time \<Rightarrow> rel_lock option" where
  "rel_lock_of L t = seq_to_relative L (rel_to_consensus_u32 t)"

definition rel_is_height_locked :: "btc \<Rightarrow> rel_lock_time \<Rightarrow> bool" where
  "rel_is_height_locked L t = seq_is_height L (rel_to_consensus_u32 t)"

definition rel_is_time_locked :: "btc \<Rightarrow> rel_lock_time \<Rightarrow> bool" where
  "rel_is_time_locked L t = seq_is_time L (rel_to_consensus_u32 t)"

text \<open>Both locktimes are ordered by their consensus integer (\<open>cmp::Ord\<close>).\<close>

definition abs_lock_time_le :: "abs_lock_time \<Rightarrow> abs_lock_time \<Rightarrow> bool" where
  "abs_lock_time_le a b \<longleftrightarrow> abs_to_consensus_u32 a \<le> abs_to_consensus_u32 b"

instantiation abs_lock_time :: linorder
begin

definition less_eq_abs_lock_time :: "abs_lock_time \<Rightarrow> abs_lock_time \<Rightarrow> bool" where
  "less_eq_abs_lock_time a b = abs_lock_time_le a b"

definition less_abs_lock_time :: "abs_lock_time \<Rightarrow> abs_lock_time \<Rightarrow> bool" where
  "less_abs_lock_time a b = (abs_to_consensus_u32 a < abs_to_consensus_u32 b)"

instance
  by standard (auto simp: less_eq_abs_lock_time_def abs_lock_time_le_def less_abs_lock_time_def intro: abs_lock_time.expand)

end

definition rel_lock_time_le :: "rel_lock_time \<Rightarrow> rel_lock_time \<Rightarrow> bool" where
  "rel_lock_time_le a b \<longleftrightarrow> rel_to_consensus_u32 a \<le> rel_to_consensus_u32 b"

instantiation rel_lock_time :: linorder
begin

definition less_eq_rel_lock_time :: "rel_lock_time \<Rightarrow> rel_lock_time \<Rightarrow> bool" where
  "less_eq_rel_lock_time a b = rel_lock_time_le a b"

definition less_rel_lock_time :: "rel_lock_time \<Rightarrow> rel_lock_time \<Rightarrow> bool" where
  "less_rel_lock_time a b = (rel_to_consensus_u32 a < rel_to_consensus_u32 b)"

instance
  by standard (auto simp: less_eq_rel_lock_time_def rel_lock_time_le_def less_rel_lock_time_def intro: rel_lock_time.expand)

end

lemma abs_lock_time_from_consensus_range:
  "abs_lock_time_from_consensus n = Inr t \<Longrightarrow>
     abs_to_consensus_u32 t = n \<and> 1 \<le> unat n \<and> unat n < 2 ^ 31"
  by (auto simp: abs_lock_time_from_consensus_def MIN_ABSOLUTE_LOCKTIME_def
        MAX_ABSOLUTE_LOCKTIME_def word_le_nat_alt split: if_splits)

subsection \<open>Sizes of pushed numbers\<close>

definition script_num_size :: "nat \<Rightarrow> nat" where
  "script_num_size n =
     (if n \<le> 0x10 then 1
      else if n < 0x80 then 2
      else if n < 0x8000 then 3
      else if n < 0x800000 then 4
      else if n < 0x80000000 then 5
      else 6)"

definition push_opcode_size :: "nat \<Rightarrow> nat" where
  "push_opcode_size n =
     (if n < 76 then 1 else if n < 0x100 then 2 else if n < 0x10000 then 3 else 5)"

lemma script_num_size_pos: "0 < script_num_size n"
  by (simp add: script_num_size_def)

lemma script_num_size_mono: "m \<le> n \<Longrightarrow> script_num_size m \<le> script_num_size n"
  by (simp add: script_num_size_def)

end
