(* ===== verification/Inscription.thy ===== *)
theory Inscription
  imports Primitives
begin

section \<open>Inscriptions\<close>

text \<open>
  The inscription record of \<^verbatim>\<open>ord/mod.rs\<close> and the field tags of
  \<^verbatim>\<open>ord/tag.rs\<close>: validation, and the envelope an inscription is encoded to, as the
  sequence of builder calls the code makes.  A byte vector longer than \<open>u32::MAX\<close>, on which the
  library's push would panic, is outside the model.
\<close>

definition MAX_SCRIPT_ELEMENT_SIZE :: nat where
  "MAX_SCRIPT_ELEMENT_SIZE = 520"

record inscription =
  ins_body :: "bytes option"
  content_encoding :: "bytes option"
  content_type :: "bytes option"
  delegate :: "bytes option"
  duplicate_field :: bool
  incomplete_field :: bool
  metadata :: "bytes option"
  metaprotocol :: "bytes option"
  parent :: "bytes option"
  pointer :: "bytes option"
  unrecognized_even_field :: bool

definition inscription_new :: "bytes option \<Rightarrow> bytes option \<Rightarrow> inscription" where
  "inscription_new ct b =
     \<lparr>ins_body = b, content_encoding = None, content_type = ct, delegate = None,
      duplicate_field = False, incomplete_field = False, metadata = None, metaprotocol = None,
      parent = None, pointer = None, unrecognized_even_field = False\<rparr>"

subsection \<open>Validation\<close>

text \<open>The error names the first field that is too long.\<close>

datatype ins_field = FContentType | FContentEncoding | FMetaprotocol | FParent | FDelegate | FPointer

definition unchunked_fields :: "inscription \<Rightarrow> (ins_field \<times> bytes option) list" where
  "unchunked_fields i =
     [(FContentType, content_type i), (FContentEncoding, content_encoding i),
      (FMetaprotocol, metaprotocol i), (FParent, parent i), (FDelegate, delegate i),
      (FPointer, pointer i)]"

fun validate_fields :: "(ins_field \<times> bytes option) list \<Rightarrow> ins_field + unit" where
  "validate_fields [] = Inr ()"
| "validate_fields ((name, field) # rest) =
     (if (case field of None \<Rightarrow> False | Some v \<Rightarrow> length v > MAX_SCRIPT_ELEMENT_SIZE)
      then Inl name else validate_fields rest)"

definition validate :: "inscription \<Rightarrow> ins_field + unit" where
  "validate i = validate_fields (unchunked_fields i)"

subsection \<open>Tags\<close>

datatype tag =
    Pointer | Unbound | ContentType | Parent | Metadata | Metaprotocol | ContentEncoding
  | Delegate | Nop

fun is_chunked :: "tag \<Rightarrow> bool" where
  "is_chunked t = (t = Metadata)"

fun tag_bytes :: "tag \<Rightarrow> bytes" where
  "tag_bytes Pointer = [2]"
| "tag_bytes Unbound = [66]"
| "tag_bytes ContentType = [1]"
| "tag_bytes Parent = [3]"
| "tag_bytes Metadata = [5]"
| "tag_bytes Metaprotocol = [7]"
| "tag_bytes ContentEncoding = [9]"
| "tag_bytes Delegate = [11]"
| "tag_bytes Nop = [255]"

text \<open>\<open>slice::chunks\<close> of the standard library, for a positive chunk size.\<close>

function chunks :: "nat \<Rightarrow> 'a list \<Rightarrow> 'a list list" where
  "chunks n xs = (if n = 0 \<or> xs = [] then [] else take n xs # chunks n (drop n xs))"
  by auto
termination by (relation "measure (length \<circ> snd)") auto

declare chunks.simps [simp del]

definition tag_encode :: "tag \<Rightarrow> bytes option \<Rightarrow> builder" where
  "tag_encode t v =
     (case v of
        None \<Rightarrow> []
      | Some value \<Rightarrow>
          if is_chunked t \<and> value \<noteq> []
          then concat (map (\<lambda>c. [PushSlice (tag_bytes t), PushSlice c])
                         (chunks MAX_SCRIPT_ELEMENT_SIZE value))
          else [PushSlice (tag_bytes t), PushSlice value])"

subsection \<open>The reveal script\<close>

definition PROTOCOL_ID :: bytes where
  "PROTOCOL_ID = [111, 114, 100]"

definition BODY_TAG :: bytes where
  "BODY_TAG = []"

definition append_reveal_script_to_builder :: "inscription \<Rightarrow> builder \<Rightarrow> builder" where
  "append_reveal_script_to_builder i b =
     b @ [PushOpcode OP_FALSE, PushOpcode OP_IF, PushSlice PROTOCOL_ID]
       @ tag_encode ContentType (content_type i)
       @ tag_encode ContentEncoding (content_encoding i)
       @ tag_encode Metaprotocol (metaprotocol i)
       @ tag_encode Parent (parent i)
       @ tag_encode Delegate (delegate i)
       @ tag_encode Pointer (pointer i)
       @ tag_encode Metadata (metadata i)
       @ (case ins_body i of
            None \<Rightarrow> []
          | Some body \<Rightarrow> PushSlice BODY_TAG # map PushSlice (chunks MAX_SCRIPT_ELEMENT_SIZE body))
       @ [PushOpcode OP_ENDIF]"

definition size_guess :: "btc \<Rightarrow> inscription \<Rightarrow> nat" where
  "size_guess L i = builder_len L (append_reveal_script_to_builder i [])"

subsection \<open>Every push respects the consensus limit\<close>

lemma chunks_le: "c \<in> set (chunks n xs) \<Longrightarrow> length c \<le> n \<and> c \<noteq> []"
  by (induction n xs rule: chunks.induct) (subst (asm) (2) chunks.simps, auto split: if_splits)

lemma concat_chunks: "0 < n \<Longrightarrow> concat (chunks n xs) = xs"
  by (induction n xs rule: chunks.induct) (subst chunks.simps, auto)

lemma validate_fields_ok_iff:
  "validate_fields fs = Inr () \<longleftrightarrow>
     (\<forall>(f, v) \<in> set fs. \<forall>x. v = Some x \<longrightarrow> length x \<le> MAX_SCRIPT_ELEMENT_SIZE)"
  by (induction fs rule: validate_fields.induct) (auto split: option.splits)

lemma tag_bytes_le: "length (tag_bytes t) = 1"
  by (cases t) auto

fun push_ok :: "builder_call \<Rightarrow> bool" where
  "push_ok (PushSlice x) = (length x \<le> MAX_SCRIPT_ELEMENT_SIZE)"
| "push_ok _ = True"

lemma chunks_ok: "c \<in> set (chunks MAX_SCRIPT_ELEMENT_SIZE xs) \<Longrightarrow> push_ok (PushSlice c)"
  using chunks_le by fastforce

lemma small_push_ok: "length x \<le> 3 \<Longrightarrow> push_ok (PushSlice x)"
  by (simp add: MAX_SCRIPT_ELEMENT_SIZE_def)

lemma tag_encode_ok:
  assumes "\<And>y. v = Some y \<Longrightarrow> t = Metadata \<or> length y \<le> MAX_SCRIPT_ELEMENT_SIZE"
  shows "list_all push_ok (tag_encode t v)"
proof (cases v)
  case None
  then show ?thesis by (simp add: tag_encode_def)
next
  case (Some y)
  have "push_ok (PushSlice (tag_bytes t))" by (rule small_push_ok) (simp add: tag_bytes_le)
  with Some assms show ?thesis
    by (auto simp: tag_encode_def list_all_iff dest: chunks_ok)
qed

lemma validate_field_le:
  assumes "validate i = Inr ()" and "(f, Some y) \<in> set (unchunked_fields i)"
  shows "length y \<le> MAX_SCRIPT_ELEMENT_SIZE"
  using assms by (auto simp: validate_def validate_fields_ok_iff)

lemma reveal_pushes_ok:
  assumes "validate i = Inr ()" and "list_all push_ok b"
  shows "list_all push_ok (append_reveal_script_to_builder i b)"
proof -
  note le = validate_field_le [OF assms(1), unfolded unchunked_fields_def]
  have "list_all push_ok
      (tag_encode ContentType (content_type i) @ tag_encode ContentEncoding (content_encoding i)
       @ tag_encode Metaprotocol (metaprotocol i) @ tag_encode Parent (parent i)
       @ tag_encode Delegate (delegate i) @ tag_encode Pointer (pointer i)
       @ tag_encode Metadata (metadata i))"
    unfolding list_all_append by (intro conjI tag_encode_ok) (auto intro: le)
  moreover have "list_all push_ok [PushOpcode OP_FALSE, PushOpcode OP_IF, PushSlice PROTOCOL_ID]"
    "push_ok (PushSlice BODY_TAG)"
    by (simp_all add: PROTOCOL_ID_def BODY_TAG_def MAX_SCRIPT_ELEMENT_SIZE_def)
  moreover have "list_all push_ok (map PushSlice (chunks MAX_SCRIPT_ELEMENT_SIZE body))" for body
    by (auto simp: list_all_iff simp del: push_ok.simps dest: chunks_ok)
  ultimately show ?thesis
    using assms(2) by (auto simp: append_reveal_script_to_builder_def split: option.splits)
qed

end
