(* ===== verification/MsTypes.thy ===== *)
theory MsTypes
  imports Prelude
begin

section \<open>The type system: correctness and malleability\<close>

text \<open>
  The modules \<^verbatim>\<open>miniscript/types/correctness.rs\<close>,
  \<^verbatim>\<open>malleability.rs\<close> and the combining constructors of
  \<^verbatim>\<open>types/mod.rs\<close>.  Every constructor of the code is one definition; the prefix
  says which \<open>impl\<close> it comes from (\<open>corr_\<close>, \<open>mall_\<close>, \<open>ty_\<close>).  A fallible constructor
  returns a sum with the \<open>ErrorKind\<close> on the left.
\<close>

subsection \<open>Base, input and dissatisfaction kinds\<close>

datatype base_type = BaseB | BaseK | BaseV | BaseW

datatype input_type = Zero | One | Any | OneNonZero | AnyNonZero

definition input_is_subtype :: "input_type \<Rightarrow> input_type \<Rightarrow> bool" where
  "input_is_subtype a b =
     (a = b \<or> (a = OneNonZero \<and> b = One) \<or> (a = OneNonZero \<and> b = AnyNonZero) \<or> b = Any)"

datatype dissat_kind = DissatNone | DissatUnique | DissatUnknown

definition dissat_is_subtype :: "dissat_kind \<Rightarrow> dissat_kind \<Rightarrow> bool" where
  "dissat_is_subtype a b = (a = b \<or> b = DissatUnknown)"

record correctness =
  base :: base_type
  input :: input_type
  dissatisfiable :: bool
  unit_output :: bool

record malleability =
  dissat :: dissat_kind
  safe :: bool
  non_malleable :: bool

record ms_type =
  corr :: correctness
  mall :: malleability

datatype error_kind =
    InvalidInscription
  | NonZeroDupIf
  | LeftNotDissatisfiable
  | RightNotDissatisfiable
  | SwapNonOne
  | NonZeroZero
  | LeftNotUnit
  | ChildBase1 base_type
  | ChildBase2 base_type base_type
  | ChildBase3 base_type base_type base_type
  | ThresholdBase nat base_type
  | ThresholdDissat nat
  | ThresholdNonUnit nat

subsection \<open>Correctness\<close>

abbreviation mk_corr :: "base_type \<Rightarrow> input_type \<Rightarrow> bool \<Rightarrow> bool \<Rightarrow> correctness" where
  "mk_corr b i d u \<equiv> \<lparr>base = b, input = i, dissatisfiable = d, unit_output = u\<rparr>"

definition corr_TRUE :: correctness where
  "corr_TRUE = mk_corr BaseB Zero False True"

definition corr_FALSE :: correctness where
  "corr_FALSE = mk_corr BaseB Zero True True"

text \<open>The Boolean comparison \<open>self.dissatisfiable >= other.dissatisfiable\<close> is Rust's order on
  \<open>bool\<close> (\<open>false < true\<close>), which is HOL's.\<close>

definition corr_is_subtype :: "correctness \<Rightarrow> correctness \<Rightarrow> bool" where
  "corr_is_subtype a b =
     (base a = base b \<and> input_is_subtype (input a) (input b)
      \<and> dissatisfiable a \<ge> dissatisfiable b \<and> unit_output a \<ge> unit_output b)"

definition corr_sanity_checks :: "correctness \<Rightarrow> bool" where
  "corr_sanity_checks c =
     (case base c of
        BaseB \<Rightarrow> True
      | BaseK \<Rightarrow> unit_output c
      | BaseV \<Rightarrow> \<not> unit_output c \<and> \<not> dissatisfiable c
      | BaseW \<Rightarrow> input c \<noteq> OneNonZero \<and> input c \<noteq> AnyNonZero)"

definition corr_pk_k :: correctness where
  "corr_pk_k = mk_corr BaseK OneNonZero True True"

definition corr_pk_h :: correctness where
  "corr_pk_h = mk_corr BaseK AnyNonZero True True"

definition corr_multi :: correctness where
  "corr_multi = mk_corr BaseB AnyNonZero True True"

definition corr_multi_a :: correctness where
  "corr_multi_a = mk_corr BaseB Any True True"

definition corr_hash :: correctness where
  "corr_hash = mk_corr BaseB OneNonZero True True"

definition corr_time :: correctness where
  "corr_time = mk_corr BaseB Zero False False"

definition corr_cast_alt :: "correctness \<Rightarrow> error_kind + correctness" where
  "corr_cast_alt c =
     (case base c of
        BaseB \<Rightarrow> Inr (mk_corr BaseW Any (dissatisfiable c) (unit_output c))
      | x \<Rightarrow> Inl (ChildBase1 x))"

definition corr_cast_swap :: "correctness \<Rightarrow> error_kind + correctness" where
  "corr_cast_swap c =
     (case base c of
        BaseB \<Rightarrow>
          (case input c of
             One \<Rightarrow> Inr (mk_corr BaseW Any (dissatisfiable c) (unit_output c))
           | OneNonZero \<Rightarrow> Inr (mk_corr BaseW Any (dissatisfiable c) (unit_output c))
           | _ \<Rightarrow> Inl SwapNonOne)
      | x \<Rightarrow> Inl (ChildBase1 x))"

definition corr_cast_check :: "correctness \<Rightarrow> error_kind + correctness" where
  "corr_cast_check c =
     (case base c of
        BaseK \<Rightarrow> Inr (mk_corr BaseB (input c) (dissatisfiable c) True)
      | x \<Rightarrow> Inl (ChildBase1 x))"

definition corr_cast_dupif :: "correctness \<Rightarrow> error_kind + correctness" where
  "corr_cast_dupif c =
     (case base c of
        BaseV \<Rightarrow>
          (case input c of
             Zero \<Rightarrow> Inr (mk_corr BaseB OneNonZero True False)
           | _ \<Rightarrow> Inl NonZeroDupIf)
      | x \<Rightarrow> Inl (ChildBase1 x))"

definition corr_cast_verify :: "correctness \<Rightarrow> error_kind + correctness" where
  "corr_cast_verify c =
     (case base c of
        BaseB \<Rightarrow> Inr (mk_corr BaseV (input c) False False)
      | x \<Rightarrow> Inl (ChildBase1 x))"

definition corr_cast_nonzero :: "correctness \<Rightarrow> error_kind + correctness" where
  "corr_cast_nonzero c =
     (if input c \<noteq> OneNonZero \<and> input c \<noteq> AnyNonZero then Inl NonZeroZero
      else (case base c of
              BaseB \<Rightarrow> Inr (mk_corr BaseB (input c) True (unit_output c))
            | x \<Rightarrow> Inl (ChildBase1 x)))"

definition corr_cast_zeronotequal :: "correctness \<Rightarrow> error_kind + correctness" where
  "corr_cast_zeronotequal c =
     (case base c of
        BaseB \<Rightarrow> Inr (mk_corr BaseB (input c) (dissatisfiable c) True)
      | x \<Rightarrow> Inl (ChildBase1 x))"

definition corr_cast_true :: "correctness \<Rightarrow> error_kind + correctness" where
  "corr_cast_true c =
     (case base c of
        BaseV \<Rightarrow> Inr (mk_corr BaseB (input c) False True)
      | x \<Rightarrow> Inl (ChildBase1 x))"

definition corr_cast_or_i_false :: "correctness \<Rightarrow> error_kind + correctness" where
  "corr_cast_or_i_false c =
     (case base c of
        BaseB \<Rightarrow> Inr (mk_corr BaseB (case input c of Zero \<Rightarrow> One | _ \<Rightarrow> Any) True (unit_output c))
      | x \<Rightarrow> Inl (ChildBase1 x))"

text \<open>The input of a conjunction (the same table in \<open>and_b\<close> and \<open>and_v\<close>).\<close>

fun conj_input :: "input_type \<Rightarrow> input_type \<Rightarrow> input_type" where
  "conj_input Zero Zero = Zero"
| "conj_input Zero One = One"
| "conj_input One Zero = One"
| "conj_input Zero OneNonZero = OneNonZero"
| "conj_input OneNonZero Zero = OneNonZero"
| "conj_input OneNonZero _ = AnyNonZero"
| "conj_input AnyNonZero _ = AnyNonZero"
| "conj_input Zero AnyNonZero = AnyNonZero"
| "conj_input _ _ = Any"

definition corr_and_b :: "correctness \<Rightarrow> correctness \<Rightarrow> error_kind + correctness" where
  "corr_and_b l r =
     (case (base l, base r) of
        (BaseB, BaseW) \<Rightarrow>
          Inr (mk_corr BaseB (conj_input (input l) (input r))
                 (dissatisfiable l \<and> dissatisfiable r) True)
      | (x, y) \<Rightarrow> Inl (ChildBase2 x y))"

definition corr_and_v :: "correctness \<Rightarrow> correctness \<Rightarrow> error_kind + correctness" where
  "corr_and_v l r =
     (let out = (\<lambda>b. Inr (mk_corr b (conj_input (input l) (input r)) False (unit_output r))) in
      case (base l, base r) of
        (BaseV, BaseB) \<Rightarrow> out BaseB
      | (BaseV, BaseK) \<Rightarrow> out BaseK
      | (BaseV, BaseV) \<Rightarrow> out BaseV
      | (x, y) \<Rightarrow> Inl (ChildBase2 x y))"

fun or_b_input :: "input_type \<Rightarrow> input_type \<Rightarrow> input_type" where
  "or_b_input Zero Zero = Zero"
| "or_b_input Zero One = One"
| "or_b_input One Zero = One"
| "or_b_input Zero OneNonZero = One"
| "or_b_input OneNonZero Zero = One"
| "or_b_input _ _ = Any"

definition corr_or_b :: "correctness \<Rightarrow> correctness \<Rightarrow> error_kind + correctness" where
  "corr_or_b l r =
     (if \<not> dissatisfiable l then Inl LeftNotDissatisfiable
      else if \<not> dissatisfiable r then Inl RightNotDissatisfiable
      else (case (base l, base r) of
              (BaseB, BaseW) \<Rightarrow> Inr (mk_corr BaseB (or_b_input (input l) (input r)) True True)
            | (x, y) \<Rightarrow> Inl (ChildBase2 x y)))"

text \<open>The input of \<open>or_d\<close> and \<open>or_c\<close>.\<close>

fun or_d_input :: "input_type \<Rightarrow> input_type \<Rightarrow> input_type" where
  "or_d_input Zero Zero = Zero"
| "or_d_input One Zero = One"
| "or_d_input OneNonZero Zero = One"
| "or_d_input _ _ = Any"

definition corr_or_d :: "correctness \<Rightarrow> correctness \<Rightarrow> error_kind + correctness" where
  "corr_or_d l r =
     (if \<not> dissatisfiable l then Inl LeftNotDissatisfiable
      else if \<not> unit_output l then Inl LeftNotUnit
      else (case (base l, base r) of
              (BaseB, BaseB) \<Rightarrow>
                Inr (mk_corr BaseB (or_d_input (input l) (input r)) (dissatisfiable r) (unit_output r))
            | (x, y) \<Rightarrow> Inl (ChildBase2 x y)))"

definition corr_or_c :: "correctness \<Rightarrow> correctness \<Rightarrow> error_kind + correctness" where
  "corr_or_c l r =
     (if \<not> dissatisfiable l then Inl LeftNotDissatisfiable
      else if \<not> unit_output l then Inl LeftNotUnit
      else (case (base l, base r) of
              (BaseB, BaseV) \<Rightarrow> Inr (mk_corr BaseV (or_d_input (input l) (input r)) False False)
            | (x, y) \<Rightarrow> Inl (ChildBase2 x y)))"

definition corr_or_i :: "correctness \<Rightarrow> correctness \<Rightarrow> error_kind + correctness" where
  "corr_or_i l r =
     (let out = (\<lambda>b. Inr (mk_corr b (if input l = Zero \<and> input r = Zero then One else Any)
                            (dissatisfiable l \<or> dissatisfiable r) (unit_output l \<and> unit_output r))) in
      case (base l, base r) of
        (BaseB, BaseB) \<Rightarrow> out BaseB
      | (BaseV, BaseV) \<Rightarrow> out BaseV
      | (BaseK, BaseK) \<Rightarrow> out BaseK
      | (x, y) \<Rightarrow> Inl (ChildBase2 x y))"

fun and_or_input :: "input_type \<Rightarrow> input_type \<Rightarrow> input_type \<Rightarrow> input_type" where
  "and_or_input Zero Zero Zero = Zero"
| "and_or_input Zero One One = One"
| "and_or_input Zero One OneNonZero = One"
| "and_or_input Zero OneNonZero One = One"
| "and_or_input Zero OneNonZero OneNonZero = One"
| "and_or_input One Zero Zero = One"
| "and_or_input OneNonZero Zero Zero = One"
| "and_or_input _ _ _ = Any"

definition corr_and_or ::
    "correctness \<Rightarrow> correctness \<Rightarrow> correctness \<Rightarrow> error_kind + correctness" where
  "corr_and_or a b c =
     (let out = (\<lambda>t. Inr (mk_corr t (and_or_input (input a) (input b) (input c))
                            (dissatisfiable c) (unit_output b \<and> unit_output c))) in
      if \<not> dissatisfiable a then Inl LeftNotDissatisfiable
      else if \<not> unit_output a then Inl LeftNotUnit
      else (case (base a, base b, base c) of
              (BaseB, BaseB, BaseB) \<Rightarrow> out BaseB
            | (BaseB, BaseK, BaseK) \<Rightarrow> out BaseK
            | (BaseB, BaseV, BaseV) \<Rightarrow> out BaseV
            | (x, y, z) \<Rightarrow> Inl (ChildBase3 x y z)))"

text \<open>The loop of \<open>threshold\<close>: position \<open>i\<close>, the running argument count, the children left.\<close>

fun corr_num_args :: "input_type \<Rightarrow> nat" where
  "corr_num_args Zero = 0"
| "corr_num_args One = 1"
| "corr_num_args OneNonZero = 1"
| "corr_num_args Any = 2"
| "corr_num_args AnyNonZero = 2"

fun corr_threshold_loop :: "nat \<Rightarrow> nat \<Rightarrow> correctness list \<Rightarrow> error_kind + nat" where
  "corr_threshold_loop i num_args [] = Inr num_args"
| "corr_threshold_loop i num_args (s # ss) =
     (if i = 0 \<and> base s \<noteq> BaseB then Inl (ThresholdBase i (base s))
      else if i \<noteq> 0 \<and> base s \<noteq> BaseW then Inl (ThresholdBase i (base s))
      else if \<not> unit_output s then Inl (ThresholdNonUnit i)
      else if \<not> dissatisfiable s then Inl (ThresholdDissat i)
      else corr_threshold_loop (Suc i) (num_args + corr_num_args (input s)) ss)"

definition corr_threshold :: "nat \<Rightarrow> correctness list \<Rightarrow> error_kind + correctness" where
  "corr_threshold k subs =
     (case corr_threshold_loop 0 0 subs of
        Inl e \<Rightarrow> Inl e
      | Inr num_args \<Rightarrow>
          Inr (mk_corr BaseB (if num_args = 0 then Zero else if num_args = 1 then One else Any)
                 True True))"

subsection \<open>Malleability\<close>

abbreviation mk_mall :: "dissat_kind \<Rightarrow> bool \<Rightarrow> bool \<Rightarrow> malleability" where
  "mk_mall d s m \<equiv> \<lparr>dissat = d, safe = s, non_malleable = m\<rparr>"

definition mall_TRUE :: malleability where
  "mall_TRUE = mk_mall DissatNone False True"

definition mall_FALSE :: malleability where
  "mall_FALSE = mk_mall DissatUnique True True"

definition mall_is_subtype :: "malleability \<Rightarrow> malleability \<Rightarrow> bool" where
  "mall_is_subtype a b =
     (dissat_is_subtype (dissat a) (dissat b) \<and> safe a \<ge> safe b \<and> non_malleable a \<ge> non_malleable b)"

definition mall_pk_k :: malleability where
  "mall_pk_k = mk_mall DissatUnique True True"

definition mall_pk_h :: malleability where
  "mall_pk_h = mk_mall DissatUnique True True"

definition mall_multi :: malleability where
  "mall_multi = mk_mall DissatUnique True True"

definition mall_multi_a :: malleability where
  "mall_multi_a = mk_mall DissatUnique True True"

definition mall_hash :: malleability where
  "mall_hash = mk_mall DissatUnknown False True"

definition mall_time :: malleability where
  "mall_time = mk_mall DissatNone False True"

definition mall_cast_alt :: "malleability \<Rightarrow> malleability" where
  "mall_cast_alt m = m"

definition mall_cast_swap :: "malleability \<Rightarrow> malleability" where
  "mall_cast_swap m = m"

definition mall_cast_check :: "malleability \<Rightarrow> malleability" where
  "mall_cast_check m = m"

definition mall_cast_dupif :: "malleability \<Rightarrow> malleability" where
  "mall_cast_dupif m =
     mk_mall (if dissat m = DissatNone then DissatUnique else DissatUnknown)
       (safe m) (non_malleable m)"

definition mall_cast_verify :: "malleability \<Rightarrow> malleability" where
  "mall_cast_verify m = mk_mall DissatNone (safe m) (non_malleable m)"

definition mall_cast_nonzero :: "malleability \<Rightarrow> malleability" where
  "mall_cast_nonzero m =
     mk_mall (if dissat m = DissatNone then DissatUnique else DissatUnknown)
       (safe m) (non_malleable m)"

definition mall_cast_zeronotequal :: "malleability \<Rightarrow> malleability" where
  "mall_cast_zeronotequal m = m"

definition mall_cast_true :: "malleability \<Rightarrow> malleability" where
  "mall_cast_true m = mk_mall DissatNone (safe m) (non_malleable m)"

definition mall_cast_or_i_false :: "malleability \<Rightarrow> malleability" where
  "mall_cast_or_i_false m =
     mk_mall (if dissat m = DissatNone then DissatUnique else DissatUnknown)
       (safe m) (non_malleable m)"

definition mall_and_b :: "malleability \<Rightarrow> malleability \<Rightarrow> malleability" where
  "mall_and_b l r =
     mk_mall
       (if dissat l = DissatNone \<and> dissat r = DissatNone then DissatNone
        else if dissat l = DissatNone \<and> safe l then DissatNone
        else if dissat r = DissatNone \<and> safe r then DissatNone
        else if dissat l = DissatUnique \<and> dissat r = DissatUnique
        then (if safe l \<and> safe r then DissatUnique else DissatUnknown)
        else DissatUnknown)
       (safe l \<or> safe r)
       (non_malleable l \<and> non_malleable r)"

definition mall_and_v :: "malleability \<Rightarrow> malleability \<Rightarrow> malleability" where
  "mall_and_v l r =
     mk_mall
       (if dissat r = DissatNone then DissatNone
        else if safe l then DissatNone
        else DissatUnknown)
       (safe l \<or> safe r)
       (non_malleable l \<and> non_malleable r)"

definition mall_or_b :: "malleability \<Rightarrow> malleability \<Rightarrow> malleability" where
  "mall_or_b l r =
     mk_mall DissatUnique (safe l \<and> safe r)
       (non_malleable l \<and> dissat l = DissatUnique \<and> non_malleable r \<and> dissat r = DissatUnique
        \<and> (safe l \<or> safe r))"

definition mall_or_d :: "malleability \<Rightarrow> malleability \<Rightarrow> malleability" where
  "mall_or_d l r =
     mk_mall (dissat r) (safe l \<and> safe r)
       (non_malleable l \<and> dissat l = DissatUnique \<and> non_malleable r \<and> (safe l \<or> safe r))"

definition mall_or_c :: "malleability \<Rightarrow> malleability \<Rightarrow> malleability" where
  "mall_or_c l r =
     mk_mall DissatNone (safe l \<and> safe r)
       (non_malleable l \<and> dissat l = DissatUnique \<and> non_malleable r \<and> (safe l \<or> safe r))"

definition mall_or_i :: "malleability \<Rightarrow> malleability \<Rightarrow> malleability" where
  "mall_or_i l r =
     mk_mall
       (case (dissat l, dissat r) of
          (DissatNone, DissatNone) \<Rightarrow> DissatNone
        | (DissatUnique, DissatNone) \<Rightarrow> DissatUnique
        | (DissatNone, DissatUnique) \<Rightarrow> DissatUnique
        | _ \<Rightarrow> DissatUnknown)
       (safe l \<and> safe r)
       (non_malleable l \<and> non_malleable r \<and> (safe l \<or> safe r))"

definition mall_and_or :: "malleability \<Rightarrow> malleability \<Rightarrow> malleability \<Rightarrow> malleability" where
  "mall_and_or a b c =
     mk_mall
       (if dissat b = DissatNone \<and> dissat c = DissatUnique then DissatUnique
        else if safe a \<and> dissat c = DissatUnique then DissatUnique
        else if dissat b = DissatNone \<and> dissat c = DissatNone then DissatNone
        else if safe a \<and> dissat c = DissatNone then DissatNone
        else DissatUnknown)
       ((safe a \<or> safe b) \<and> safe c)
       (non_malleable a \<and> non_malleable c \<and> dissat a = DissatUnique \<and> non_malleable b
        \<and> (safe a \<or> safe b \<or> safe c))"

text \<open>\<open>n - k\<close> is an unsigned subtraction; a threshold has \<open>k \<le> n\<close>, so it does not underflow.\<close>

definition mall_threshold :: "nat \<Rightarrow> malleability list \<Rightarrow> malleability" where
  "mall_threshold k subs =
     (let n = length subs;
          safe_count = length (filter safe subs);
          all_are_dissat_unique = list_all (\<lambda>s. dissat s = DissatUnique) subs;
          all_are_non_malleable = list_all non_malleable subs
      in mk_mall
           (if all_are_dissat_unique \<and> safe_count = n then DissatUnique else DissatUnknown)
           (safe_count > n - k)
           (all_are_non_malleable \<and> safe_count \<ge> n - k \<and> all_are_dissat_unique))"

subsection \<open>Types\<close>

text \<open>Every combining constructor of \<open>Type\<close> pairs a fallible correctness constructor with a
  total malleability one: the error of the former is returned first.\<close>

definition pair_type :: "error_kind + correctness \<Rightarrow> malleability \<Rightarrow> error_kind + ms_type" where
  "pair_type c m = (case c of Inr x \<Rightarrow> Inr \<lparr>corr = x, mall = m\<rparr> | Inl e \<Rightarrow> Inl e)"

abbreviation mk_ty :: "correctness \<Rightarrow> malleability \<Rightarrow> ms_type" where
  "mk_ty c m \<equiv> \<lparr>corr = c, mall = m\<rparr>"

definition ty_TRUE :: ms_type where
  "ty_TRUE = mk_ty corr_TRUE mall_TRUE"

definition ty_FALSE :: ms_type where
  "ty_FALSE = mk_ty corr_FALSE mall_FALSE"

definition ty_is_subtype :: "ms_type \<Rightarrow> ms_type \<Rightarrow> bool" where
  "ty_is_subtype a b = (corr_is_subtype (corr a) (corr b) \<and> mall_is_subtype (mall a) (mall b))"

text \<open>The four \<open>debug_assert!\<close>s of \<open>Type::sanity_checks\<close>.\<close>

definition ty_sanity_checks :: "ms_type \<Rightarrow> bool" where
  "ty_sanity_checks t =
     ((\<not> dissatisfiable (corr t) \<or> dissat (mall t) \<noteq> DissatNone)
      \<and> (dissat (mall t) = DissatNone \<or> base (corr t) \<noteq> BaseV)
      \<and> (safe (mall t) \<or> base (corr t) \<noteq> BaseK)
      \<and> (non_malleable (mall t) \<or> input (corr t) \<noteq> Zero))"

definition ty_pk_k :: ms_type where
  "ty_pk_k = mk_ty corr_pk_k mall_pk_k"

definition ty_pk_h :: ms_type where
  "ty_pk_h = mk_ty corr_pk_h mall_pk_h"

definition ty_multi :: ms_type where
  "ty_multi = mk_ty corr_multi mall_multi"

definition ty_multi_a :: ms_type where
  "ty_multi_a = mk_ty corr_multi_a mall_multi_a"

definition ty_hash :: ms_type where
  "ty_hash = mk_ty corr_hash mall_hash"

definition ty_time :: ms_type where
  "ty_time = mk_ty corr_time mall_time"

definition ty_tx_template :: ms_type where
  "ty_tx_template = mk_ty (mk_corr BaseV Zero False False) (mk_mall DissatNone True True)"

definition ty_cast_alt :: "ms_type \<Rightarrow> error_kind + ms_type" where
  "ty_cast_alt t = pair_type (corr_cast_alt (corr t)) (mall_cast_alt (mall t))"

definition ty_cast_swap :: "ms_type \<Rightarrow> error_kind + ms_type" where
  "ty_cast_swap t = pair_type (corr_cast_swap (corr t)) (mall_cast_swap (mall t))"

definition ty_cast_check :: "ms_type \<Rightarrow> error_kind + ms_type" where
  "ty_cast_check t = pair_type (corr_cast_check (corr t)) (mall_cast_check (mall t))"

definition ty_cast_dupif :: "ms_type \<Rightarrow> error_kind + ms_type" where
  "ty_cast_dupif t = pair_type (corr_cast_dupif (corr t)) (mall_cast_dupif (mall t))"

definition ty_cast_verify :: "ms_type \<Rightarrow> error_kind + ms_type" where
  "ty_cast_verify t = pair_type (corr_cast_verify (corr t)) (mall_cast_verify (mall t))"

definition ty_cast_nonzero :: "ms_type \<Rightarrow> error_kind + ms_type" where
  "ty_cast_nonzero t = pair_type (corr_cast_nonzero (corr t)) (mall_cast_nonzero (mall t))"

definition ty_cast_zeronotequal :: "ms_type \<Rightarrow> error_kind + ms_type" where
  "ty_cast_zeronotequal t =
     pair_type (corr_cast_zeronotequal (corr t)) (mall_cast_zeronotequal (mall t))"

definition ty_cast_true :: "ms_type \<Rightarrow> error_kind + ms_type" where
  "ty_cast_true t = pair_type (corr_cast_true (corr t)) (mall_cast_true (mall t))"

definition ty_cast_unlikely :: "ms_type \<Rightarrow> error_kind + ms_type" where
  "ty_cast_unlikely t = pair_type (corr_cast_or_i_false (corr t)) (mall_cast_or_i_false (mall t))"

definition ty_cast_likely :: "ms_type \<Rightarrow> error_kind + ms_type" where
  "ty_cast_likely t = pair_type (corr_cast_or_i_false (corr t)) (mall_cast_or_i_false (mall t))"

definition ty_and_b :: "ms_type \<Rightarrow> ms_type \<Rightarrow> error_kind + ms_type" where
  "ty_and_b l r = pair_type (corr_and_b (corr l) (corr r)) (mall_and_b (mall l) (mall r))"

definition ty_and_v :: "ms_type \<Rightarrow> ms_type \<Rightarrow> error_kind + ms_type" where
  "ty_and_v l r = pair_type (corr_and_v (corr l) (corr r)) (mall_and_v (mall l) (mall r))"

definition ty_or_b :: "ms_type \<Rightarrow> ms_type \<Rightarrow> error_kind + ms_type" where
  "ty_or_b l r = pair_type (corr_or_b (corr l) (corr r)) (mall_or_b (mall l) (mall r))"

definition ty_or_d :: "ms_type \<Rightarrow> ms_type \<Rightarrow> error_kind + ms_type" where
  "ty_or_d l r = pair_type (corr_or_d (corr l) (corr r)) (mall_or_d (mall l) (mall r))"

definition ty_or_c :: "ms_type \<Rightarrow> ms_type \<Rightarrow> error_kind + ms_type" where
  "ty_or_c l r = pair_type (corr_or_c (corr l) (corr r)) (mall_or_c (mall l) (mall r))"

definition ty_or_i :: "ms_type \<Rightarrow> ms_type \<Rightarrow> error_kind + ms_type" where
  "ty_or_i l r = pair_type (corr_or_i (corr l) (corr r)) (mall_or_i (mall l) (mall r))"

definition ty_and_or :: "ms_type \<Rightarrow> ms_type \<Rightarrow> ms_type \<Rightarrow> error_kind + ms_type" where
  "ty_and_or a b c =
     pair_type (corr_and_or (corr a) (corr b) (corr c)) (mall_and_or (mall a) (mall b) (mall c))"

definition ty_threshold :: "nat \<Rightarrow> ms_type list \<Rightarrow> error_kind + ms_type" where
  "ty_threshold k subs = pair_type (corr_threshold k (map corr subs)) (mall_threshold k (map mall subs))"

subsection \<open>Inversion of the typing rules\<close>

lemma pair_type_Inr_iff:
  "pair_type c m = Inr t \<longleftrightarrow> (\<exists>x. c = Inr x \<and> t = mk_ty x m)"
  by (auto simp: pair_type_def split: sum.splits)

lemma ty_cast_alt_Inr:
  "ty_cast_alt s = Inr t \<longleftrightarrow>
     base (corr s) = BaseB \<and>
     t = mk_ty (mk_corr BaseW Any (dissatisfiable (corr s)) (unit_output (corr s))) (mall s)"
  by (auto simp: ty_cast_alt_def corr_cast_alt_def mall_cast_alt_def pair_type_Inr_iff
      split: base_type.splits)

lemma ty_cast_swap_Inr:
  "ty_cast_swap s = Inr t \<longleftrightarrow>
     base (corr s) = BaseB \<and> (input (corr s) = One \<or> input (corr s) = OneNonZero) \<and>
     t = mk_ty (mk_corr BaseW Any (dissatisfiable (corr s)) (unit_output (corr s))) (mall s)"
  by (auto simp: ty_cast_swap_def corr_cast_swap_def mall_cast_swap_def pair_type_Inr_iff
      split: base_type.splits input_type.splits)

lemma ty_cast_check_Inr:
  "ty_cast_check s = Inr t \<longleftrightarrow>
     base (corr s) = BaseK \<and>
     t = mk_ty (mk_corr BaseB (input (corr s)) (dissatisfiable (corr s)) True) (mall s)"
  by (auto simp: ty_cast_check_def corr_cast_check_def mall_cast_check_def pair_type_Inr_iff
      split: base_type.splits)

lemma ty_cast_dupif_Inr:
  "ty_cast_dupif s = Inr t \<longleftrightarrow>
     base (corr s) = BaseV \<and> input (corr s) = Zero \<and>
     t = mk_ty (mk_corr BaseB OneNonZero True False) (mall_cast_dupif (mall s))"
  by (auto simp: ty_cast_dupif_def corr_cast_dupif_def pair_type_Inr_iff
      split: base_type.splits input_type.splits)

lemma ty_cast_verify_Inr:
  "ty_cast_verify s = Inr t \<longleftrightarrow>
     base (corr s) = BaseB \<and>
     t = mk_ty (mk_corr BaseV (input (corr s)) False False) (mall_cast_verify (mall s))"
  by (auto simp: ty_cast_verify_def corr_cast_verify_def pair_type_Inr_iff
      split: base_type.splits)

lemma ty_cast_nonzero_Inr:
  "ty_cast_nonzero s = Inr t \<longleftrightarrow>
     base (corr s) = BaseB \<and> (input (corr s) = OneNonZero \<or> input (corr s) = AnyNonZero) \<and>
     t = mk_ty (mk_corr BaseB (input (corr s)) True (unit_output (corr s)))
           (mall_cast_nonzero (mall s))"
  by (auto simp: ty_cast_nonzero_def corr_cast_nonzero_def pair_type_Inr_iff
      split: base_type.splits)

lemma ty_cast_zeronotequal_Inr:
  "ty_cast_zeronotequal s = Inr t \<longleftrightarrow>
     base (corr s) = BaseB \<and>
     t = mk_ty (mk_corr BaseB (input (corr s)) (dissatisfiable (corr s)) True) (mall s)"
  by (auto simp: ty_cast_zeronotequal_def corr_cast_zeronotequal_def mall_cast_zeronotequal_def
      pair_type_Inr_iff split: base_type.splits)

lemma ty_and_b_Inr:
  "ty_and_b l r = Inr t \<longleftrightarrow>
     base (corr l) = BaseB \<and> base (corr r) = BaseW \<and>
     t = mk_ty (mk_corr BaseB (conj_input (input (corr l)) (input (corr r)))
                  (dissatisfiable (corr l) \<and> dissatisfiable (corr r)) True)
           (mall_and_b (mall l) (mall r))"
  by (auto simp: ty_and_b_def corr_and_b_def pair_type_Inr_iff split: base_type.splits)

lemma ty_and_v_Inr:
  "ty_and_v l r = Inr t \<longleftrightarrow>
     base (corr l) = BaseV \<and> base (corr r) \<noteq> BaseW \<and>
     t = mk_ty (mk_corr (base (corr r)) (conj_input (input (corr l)) (input (corr r)))
                  False (unit_output (corr r)))
           (mall_and_v (mall l) (mall r))"
  by (auto simp: ty_and_v_def corr_and_v_def pair_type_Inr_iff split: base_type.splits)

lemma ty_or_b_Inr:
  "ty_or_b l r = Inr t \<longleftrightarrow>
     base (corr l) = BaseB \<and> base (corr r) = BaseW \<and>
     dissatisfiable (corr l) \<and> dissatisfiable (corr r) \<and>
     t = mk_ty (mk_corr BaseB (or_b_input (input (corr l)) (input (corr r))) True True)
           (mall_or_b (mall l) (mall r))"
  by (auto simp: ty_or_b_def corr_or_b_def pair_type_Inr_iff split: base_type.splits)

lemma ty_or_d_Inr:
  "ty_or_d l r = Inr t \<longleftrightarrow>
     base (corr l) = BaseB \<and> base (corr r) = BaseB \<and>
     dissatisfiable (corr l) \<and> unit_output (corr l) \<and>
     t = mk_ty (mk_corr BaseB (or_d_input (input (corr l)) (input (corr r)))
                  (dissatisfiable (corr r)) (unit_output (corr r)))
           (mall_or_d (mall l) (mall r))"
  by (auto simp: ty_or_d_def corr_or_d_def pair_type_Inr_iff split: base_type.splits)

lemma ty_or_c_Inr:
  "ty_or_c l r = Inr t \<longleftrightarrow>
     base (corr l) = BaseB \<and> base (corr r) = BaseV \<and>
     dissatisfiable (corr l) \<and> unit_output (corr l) \<and>
     t = mk_ty (mk_corr BaseV (or_d_input (input (corr l)) (input (corr r))) False False)
           (mall_or_c (mall l) (mall r))"
  by (auto simp: ty_or_c_def corr_or_c_def pair_type_Inr_iff split: base_type.splits)

lemma ty_or_i_Inr:
  "ty_or_i l r = Inr t \<longleftrightarrow>
     base (corr l) = base (corr r) \<and> base (corr l) \<noteq> BaseW \<and>
     t = mk_ty (mk_corr (base (corr l))
                  (if input (corr l) = Zero \<and> input (corr r) = Zero then One else Any)
                  (dissatisfiable (corr l) \<or> dissatisfiable (corr r))
                  (unit_output (corr l) \<and> unit_output (corr r)))
           (mall_or_i (mall l) (mall r))"
  by (auto simp: ty_or_i_def corr_or_i_def Let_def pair_type_Inr_iff split: base_type.splits)

lemma ty_and_or_Inr:
  "ty_and_or a b c = Inr t \<longleftrightarrow>
     base (corr a) = BaseB \<and> base (corr b) = base (corr c) \<and> base (corr b) \<noteq> BaseW \<and>
     dissatisfiable (corr a) \<and> unit_output (corr a) \<and>
     t = mk_ty (mk_corr (base (corr b))
                  (and_or_input (input (corr a)) (input (corr b)) (input (corr c)))
                  (dissatisfiable (corr c))
                  (unit_output (corr b) \<and> unit_output (corr c)))
           (mall_and_or (mall a) (mall b) (mall c))"
  by (auto simp: ty_and_or_def corr_and_or_def Let_def pair_type_Inr_iff split: base_type.splits)

text \<open>The loop of \<open>threshold\<close> accepts exactly the lists whose head is a \<open>B\<close>, whose other members
  are \<open>W\<close>, all of them dissatisfiable and unit, and it counts their arguments.\<close>

definition thresh_bases_ok :: "nat \<Rightarrow> correctness list \<Rightarrow> bool" where
  "thresh_bases_ok i ss =
     (\<forall>j < length ss. base (ss ! j) = (if i + j = 0 then BaseB else BaseW)
        \<and> unit_output (ss ! j) \<and> dissatisfiable (ss ! j))"

lemma thresh_bases_ok_Cons:
  "thresh_bases_ok i (s # ss) \<longleftrightarrow>
     base s = (if i = 0 then BaseB else BaseW) \<and> unit_output s \<and> dissatisfiable s
     \<and> thresh_bases_ok (Suc i) ss"
  by (auto simp: thresh_bases_ok_def All_less_Suc2)

lemma thresh_bases_ok_Nil: "thresh_bases_ok i []"
  by (simp add: thresh_bases_ok_def)

lemma corr_threshold_loop_Inr:
  "corr_threshold_loop i c ss = Inr n \<longleftrightarrow>
     thresh_bases_ok i ss \<and> n = c + sum_list (map (corr_num_args \<circ> input) ss)"
  by (induction i c ss rule: corr_threshold_loop.induct)
     (auto simp: thresh_bases_ok_Cons thresh_bases_ok_Nil)

lemma ty_threshold_Inr:
  "ty_threshold k ss = Inr t \<longleftrightarrow>
     thresh_bases_ok 0 (map corr ss) \<and>
     t = mk_ty (mk_corr BaseB
                 (let n = sum_list (map (corr_num_args \<circ> input \<circ> corr) ss) in
                  if n = 0 then Zero else if n = 1 then One else Any) True True)
           (mall_threshold k (map mall ss))"
proof (cases "corr_threshold_loop 0 0 (map corr ss)")
  case (Inl e)
  then have "\<not> thresh_bases_ok 0 (map corr ss)"
    using corr_threshold_loop_Inr [of 0 0 "map corr ss"] by force
  with Inl show ?thesis
    by (simp add: ty_threshold_def corr_threshold_def pair_type_def)
next
  case (Inr n)
  then have "thresh_bases_ok 0 (map corr ss)"
    and "n = sum_list (map (corr_num_args \<circ> input \<circ> corr) ss)"
    by (simp_all add: corr_threshold_loop_Inr o_assoc)
  with Inr show ?thesis
    by (auto simp: ty_threshold_def corr_threshold_def pair_type_def Let_def)
qed

lemmas ty_Inr = ty_cast_alt_Inr ty_cast_swap_Inr ty_cast_check_Inr ty_cast_dupif_Inr
  ty_cast_verify_Inr ty_cast_nonzero_Inr ty_cast_zeronotequal_Inr ty_and_b_Inr ty_and_v_Inr
  ty_or_b_Inr ty_or_d_Inr ty_or_c_Inr ty_or_i_Inr ty_and_or_Inr ty_threshold_Inr

subsection \<open>The invariant of the type checker\<close>

text \<open>\<open>sanity_checks\<close> of \<open>Type\<close> and of \<open>Correctness\<close> are only asserted in debug builds.  They hold
  of every type the rules build; for the induction they need three more facts.\<close>

definition ty_inv :: "ms_type \<Rightarrow> bool" where
  "ty_inv t =
     (ty_sanity_checks t \<and> corr_sanity_checks (corr t)
      \<and> (base (corr t) = BaseW \<longrightarrow> input (corr t) = Any)
      \<and> (base (corr t) = BaseK \<longrightarrow> input (corr t) \<noteq> Zero)
      \<and> (input (corr t) = Zero \<and> dissatisfiable (corr t) \<longrightarrow>
           dissat (mall t) = DissatUnique \<and> safe (mall t)))"

lemma input_tables:
  "conj_input i j = Zero \<longleftrightarrow> i = Zero \<and> j = Zero"
  "or_b_input i j = Zero \<longleftrightarrow> i = Zero \<and> j = Zero"
  "or_d_input i j = Zero \<longleftrightarrow> i = Zero \<and> j = Zero"
  by (cases i; cases j; simp)+

lemma and_or_input_Zero: "and_or_input i j l = Zero \<longleftrightarrow> i = Zero \<and> j = Zero \<and> l = Zero"
  by (cases i; cases j; cases l; simp)

lemma ty_inv_leaves [simp]:
  "ty_inv ty_TRUE" "ty_inv ty_FALSE" "ty_inv ty_pk_k" "ty_inv ty_pk_h" "ty_inv ty_multi"
  "ty_inv ty_multi_a" "ty_inv ty_hash" "ty_inv ty_time" "ty_inv ty_tx_template"
  by (simp_all add: ty_inv_def ty_sanity_checks_def corr_sanity_checks_def ty_TRUE_def ty_FALSE_def
      ty_pk_k_def ty_pk_h_def ty_multi_def ty_multi_a_def ty_hash_def ty_time_def ty_tx_template_def
      corr_TRUE_def corr_FALSE_def corr_pk_k_def corr_pk_h_def corr_multi_def corr_multi_a_def
      corr_hash_def corr_time_def mall_TRUE_def mall_FALSE_def mall_pk_k_def mall_pk_h_def
      mall_multi_def mall_multi_a_def mall_hash_def mall_time_def)

lemmas ty_inv_unfold = ty_inv_def ty_sanity_checks_def corr_sanity_checks_def input_tables
  and_or_input_Zero

lemma ty_inv_casts:
  assumes "ty_inv s"
  shows "ty_cast_alt s = Inr t \<Longrightarrow> ty_inv t" "ty_cast_swap s = Inr t \<Longrightarrow> ty_inv t"
    "ty_cast_check s = Inr t \<Longrightarrow> ty_inv t" "ty_cast_dupif s = Inr t \<Longrightarrow> ty_inv t"
    "ty_cast_verify s = Inr t \<Longrightarrow> ty_inv t" "ty_cast_nonzero s = Inr t \<Longrightarrow> ty_inv t"
    "ty_cast_zeronotequal s = Inr t \<Longrightarrow> ty_inv t"
  using assms
  by (auto simp: ty_Inr ty_inv_unfold mall_cast_dupif_def mall_cast_verify_def mall_cast_nonzero_def)

lemma ty_inv_and_b: "ty_inv l \<Longrightarrow> ty_inv r \<Longrightarrow> ty_and_b l r = Inr t \<Longrightarrow> ty_inv t"
  by (auto simp: ty_Inr ty_inv_unfold mall_and_b_def)

lemma ty_inv_and_v: "ty_inv l \<Longrightarrow> ty_inv r \<Longrightarrow> ty_and_v l r = Inr t \<Longrightarrow> ty_inv t"
  by (cases "base (corr r)") (auto simp: ty_Inr ty_inv_unfold mall_and_v_def)

lemma ty_inv_or_b: "ty_inv l \<Longrightarrow> ty_inv r \<Longrightarrow> ty_or_b l r = Inr t \<Longrightarrow> ty_inv t"
  by (auto simp: ty_Inr ty_inv_unfold mall_or_b_def)

lemma ty_inv_or_d: "ty_inv l \<Longrightarrow> ty_inv r \<Longrightarrow> ty_or_d l r = Inr t \<Longrightarrow> ty_inv t"
  by (auto simp: ty_Inr ty_inv_unfold mall_or_d_def)

lemma ty_inv_or_c: "ty_inv l \<Longrightarrow> ty_inv r \<Longrightarrow> ty_or_c l r = Inr t \<Longrightarrow> ty_inv t"
  by (auto simp: ty_Inr ty_inv_unfold mall_or_c_def)

lemma ty_inv_or_i: "ty_inv l \<Longrightarrow> ty_inv r \<Longrightarrow> ty_or_i l r = Inr t \<Longrightarrow> ty_inv t"
  by (cases "base (corr r)"; cases "dissat (mall l)"; cases "dissat (mall r)")
    (auto simp: ty_Inr ty_inv_unfold mall_or_i_def)

lemma ty_inv_and_or:
  "ty_inv a \<Longrightarrow> ty_inv b \<Longrightarrow> ty_inv c \<Longrightarrow> ty_and_or a b c = Inr t \<Longrightarrow> ty_inv t"
  by (cases "base (corr c)"; cases "dissat (mall b)"; cases "dissat (mall c)")
    (auto simp: ty_Inr ty_inv_unfold mall_and_or_def)

lemma mall_threshold_dissat: "dissat (mall_threshold k ms) \<noteq> DissatNone"
  by (simp add: mall_threshold_def Let_def)

lemma ty_inv_threshold:
  assumes "\<And>s. s \<in> set ss \<Longrightarrow> ty_inv s" and "0 < k" and "ss \<noteq> []"
    and "ty_threshold k ss = Inr t"
  shows "ty_inv t"
proof -
  from assms(3) obtain s rest where ss: "ss = s # rest" by (cases ss) auto
  show ?thesis
  proof (cases rest)
    case Nil
    have "mall_threshold k [mall s] =
        mk_mall (if dissat (mall s) = DissatUnique \<and> safe (mall s) then DissatUnique else DissatUnknown)
          (safe (mall s)) (non_malleable (mall s) \<and> dissat (mall s) = DissatUnique)"
      using assms(2) by (cases k) (auto simp: mall_threshold_def)
    with assms ss Nil show ?thesis
      by (cases "input (corr s)")
        (simp_all add: ty_threshold_Inr thresh_bases_ok_Cons ty_inv_unfold)
  next
    case (Cons r rest')
    with assms ss have "base (corr r) = BaseW" "ty_inv r"
      by (auto simp: ty_threshold_Inr thresh_bases_ok_Cons)
    then have "input (corr r) = Any" by (simp add: ty_inv_def)
    with assms ss Cons show ?thesis
      by (simp add: ty_threshold_Inr ty_inv_unfold mall_threshold_dissat)
  qed
qed

lemmas ty_inv_intros = ty_inv_leaves ty_inv_casts ty_inv_and_b ty_inv_and_v ty_inv_or_b ty_inv_or_d
  ty_inv_or_c ty_inv_or_i ty_inv_and_or ty_inv_threshold

subsection \<open>Syntactic sugar\<close>

text \<open>The casts \<open>t:\<close>, \<open>u:\<close> and \<open>l:\<close> are not fragments of their own: the code types them directly
  instead of building \<open>and_v(X,1)\<close>, \<open>or_i(X,0)\<close> and \<open>or_i(0,X)\<close>.\<close>

lemma ty_cast_true_eq_and_v: "ty_cast_true s = Inr t \<longleftrightarrow> ty_and_v s ty_TRUE = Inr t"
proof -
  have "conj_input i Zero = i" for i by (cases i) simp_all
  then show ?thesis
    by (auto simp: ty_cast_true_def corr_cast_true_def pair_type_Inr_iff ty_and_v_Inr mall_cast_true_def
        mall_and_v_def ty_TRUE_def corr_TRUE_def mall_TRUE_def split: base_type.splits)
qed

lemma ty_cast_unlikely_eq_or_i: "ty_cast_unlikely s = Inr t \<longleftrightarrow> ty_or_i s ty_FALSE = Inr t"
  by (cases "dissat (mall s)"; cases "input (corr s)")
    (auto simp: ty_cast_unlikely_def corr_cast_or_i_false_def pair_type_Inr_iff ty_or_i_Inr
      mall_cast_or_i_false_def mall_or_i_def ty_FALSE_def corr_FALSE_def mall_FALSE_def
      split: base_type.splits)

lemma ty_cast_likely_eq_or_i: "ty_cast_likely s = Inr t \<longleftrightarrow> ty_or_i ty_FALSE s = Inr t"
  by (cases "dissat (mall s)"; cases "input (corr s)")
    (auto simp: ty_cast_likely_def corr_cast_or_i_false_def pair_type_Inr_iff ty_or_i_Inr
      mall_cast_or_i_false_def mall_or_i_def ty_FALSE_def corr_FALSE_def mall_FALSE_def
      split: base_type.splits)

subsection \<open>Subtyping\<close>

lemma ty_is_subtype_refl [simp]: "ty_is_subtype t t"
  by (simp add: ty_is_subtype_def corr_is_subtype_def mall_is_subtype_def input_is_subtype_def
      dissat_is_subtype_def)

lemma input_is_subtype_trans: "input_is_subtype a b \<Longrightarrow> input_is_subtype b c \<Longrightarrow> input_is_subtype a c"
  by (auto simp: input_is_subtype_def)

lemma input_is_subtype_antisym: "input_is_subtype a b \<Longrightarrow> input_is_subtype b a \<Longrightarrow> a = b"
  by (auto simp: input_is_subtype_def)

lemma ty_is_subtype_trans: "ty_is_subtype a b \<Longrightarrow> ty_is_subtype b c \<Longrightarrow> ty_is_subtype a c"
  by (auto simp: ty_is_subtype_def corr_is_subtype_def mall_is_subtype_def dissat_is_subtype_def
      intro: input_is_subtype_trans)

lemma ty_is_subtype_antisym: "ty_is_subtype a b \<Longrightarrow> ty_is_subtype b a \<Longrightarrow> a = b"
  by (auto simp: ty_is_subtype_def corr_is_subtype_def mall_is_subtype_def dissat_is_subtype_def
      intro!: ms_type.equality correctness.equality malleability.equality
      dest: input_is_subtype_antisym)

lemma input_tables_mono:
  assumes "input_is_subtype i i'" "input_is_subtype j j'"
  shows "input_is_subtype (conj_input i j) (conj_input i' j')"
    and "input_is_subtype (or_b_input i j) (or_b_input i' j')"
    and "input_is_subtype (or_d_input i j) (or_d_input i' j')"
  using assms by (cases i; cases i'; cases j; cases j'; simp add: input_is_subtype_def)+

lemma and_or_input_mono:
  assumes "input_is_subtype i i'" "input_is_subtype j j'" "input_is_subtype l l'"
  shows "input_is_subtype (and_or_input i j l) (and_or_input i' j' l')"
  using assms by (cases i; cases i'; cases j; cases j'; simp add: input_is_subtype_def)
    (cases l; cases l'; simp add: input_is_subtype_def)+

text \<open>The typing rules are monotone in the subtype order.  The compiler prunes its candidate tables
  by this order, so a fragment that is replaced by one of a smaller type must stay well typed
  everywhere it was.\<close>

lemma mall_mono:
  assumes "mall_is_subtype l' l" "mall_is_subtype r' r"
  shows "mall_is_subtype (mall_and_b l' r') (mall_and_b l r)"
    and "mall_is_subtype (mall_and_v l' r') (mall_and_v l r)"
    and "mall_is_subtype (mall_or_b l' r') (mall_or_b l r)"
    and "mall_is_subtype (mall_or_d l' r') (mall_or_d l r)"
    and "mall_is_subtype (mall_or_c l' r') (mall_or_c l r)"
    and "mall_is_subtype (mall_or_i l' r') (mall_or_i l r)"
  using assms
  unfolding mall_is_subtype_def dissat_is_subtype_def le_bool_def mall_and_b_def mall_and_v_def
    mall_or_b_def mall_or_d_def mall_or_c_def mall_or_i_def
  by (cases "dissat l"; cases "dissat r"; cases "dissat l'"; cases "dissat r'"; simp; blast)+

lemma mall_and_or_mono:
  assumes "mall_is_subtype a' a" "mall_is_subtype b' b" "mall_is_subtype c' c"
  shows "mall_is_subtype (mall_and_or a' b' c') (mall_and_or a b c)"
  using assms unfolding mall_is_subtype_def dissat_is_subtype_def mall_and_or_def le_bool_def
  by (cases "safe a"; cases "dissat b"; cases "dissat c"; cases "dissat b'"; cases "dissat c'";
      clarsimp split: if_splits; blast)

lemma mall_cast_mono:
  assumes "mall_is_subtype s' s"
  shows "mall_is_subtype (mall_cast_dupif s') (mall_cast_dupif s)"
    and "mall_is_subtype (mall_cast_verify s') (mall_cast_verify s)"
    and "mall_is_subtype (mall_cast_nonzero s') (mall_cast_nonzero s)"
  using assms
  by (auto simp: mall_is_subtype_def dissat_is_subtype_def mall_cast_dupif_def mall_cast_verify_def
      mall_cast_nonzero_def)

lemma corr_subtype_iff:
  "corr_is_subtype a b \<longleftrightarrow> base a = base b \<and> input_is_subtype (input a) (input b)
     \<and> (dissatisfiable b \<longrightarrow> dissatisfiable a) \<and> (unit_output b \<longrightarrow> unit_output a)"
  by (auto simp: corr_is_subtype_def)

lemma input_is_subtype_inv:
  "input_is_subtype i Zero \<longleftrightarrow> i = Zero"
  "input_is_subtype i One \<longleftrightarrow> i = One \<or> i = OneNonZero"
  "input_is_subtype i OneNonZero \<longleftrightarrow> i = OneNonZero"
  "input_is_subtype i AnyNonZero \<longleftrightarrow> i = OneNonZero \<or> i = AnyNonZero"
  "input_is_subtype i Any"
  "input_is_subtype i i"
  by (auto simp: input_is_subtype_def)

lemma ty_casts_mono:
  assumes "ty_is_subtype s' s"
  shows "ty_cast_alt s = Inr t \<Longrightarrow> \<exists>t'. ty_cast_alt s' = Inr t' \<and> ty_is_subtype t' t"
    and "ty_cast_swap s = Inr t \<Longrightarrow> \<exists>t'. ty_cast_swap s' = Inr t' \<and> ty_is_subtype t' t"
    and "ty_cast_check s = Inr t \<Longrightarrow> \<exists>t'. ty_cast_check s' = Inr t' \<and> ty_is_subtype t' t"
    and "ty_cast_dupif s = Inr t \<Longrightarrow> \<exists>t'. ty_cast_dupif s' = Inr t' \<and> ty_is_subtype t' t"
    and "ty_cast_verify s = Inr t \<Longrightarrow> \<exists>t'. ty_cast_verify s' = Inr t' \<and> ty_is_subtype t' t"
    and "ty_cast_nonzero s = Inr t \<Longrightarrow> \<exists>t'. ty_cast_nonzero s' = Inr t' \<and> ty_is_subtype t' t"
    and "ty_cast_zeronotequal s = Inr t \<Longrightarrow>
           \<exists>t'. ty_cast_zeronotequal s' = Inr t' \<and> ty_is_subtype t' t"
  using assms
  by (auto simp: ty_Inr ty_is_subtype_def corr_subtype_iff input_is_subtype_inv mall_cast_mono)

lemma ty_and_b_mono:
  "ty_is_subtype l' l \<Longrightarrow> ty_is_subtype r' r \<Longrightarrow> ty_and_b l r = Inr t \<Longrightarrow>
     \<exists>t'. ty_and_b l' r' = Inr t' \<and> ty_is_subtype t' t"
  by (simp add: ty_Inr ty_is_subtype_def corr_subtype_iff mall_mono input_tables_mono)

lemma ty_and_v_mono:
  "ty_is_subtype l' l \<Longrightarrow> ty_is_subtype r' r \<Longrightarrow> ty_and_v l r = Inr t \<Longrightarrow>
     \<exists>t'. ty_and_v l' r' = Inr t' \<and> ty_is_subtype t' t"
  by (simp add: ty_Inr ty_is_subtype_def corr_subtype_iff mall_mono input_tables_mono)

lemma ty_or_b_mono:
  "ty_is_subtype l' l \<Longrightarrow> ty_is_subtype r' r \<Longrightarrow> ty_or_b l r = Inr t \<Longrightarrow>
     \<exists>t'. ty_or_b l' r' = Inr t' \<and> ty_is_subtype t' t"
  by (simp add: ty_Inr ty_is_subtype_def corr_subtype_iff mall_mono input_tables_mono)

lemma ty_or_d_mono:
  "ty_is_subtype l' l \<Longrightarrow> ty_is_subtype r' r \<Longrightarrow> ty_or_d l r = Inr t \<Longrightarrow>
     \<exists>t'. ty_or_d l' r' = Inr t' \<and> ty_is_subtype t' t"
  by (simp add: ty_Inr ty_is_subtype_def corr_subtype_iff mall_mono input_tables_mono)

lemma ty_or_c_mono:
  "ty_is_subtype l' l \<Longrightarrow> ty_is_subtype r' r \<Longrightarrow> ty_or_c l r = Inr t \<Longrightarrow>
     \<exists>t'. ty_or_c l' r' = Inr t' \<and> ty_is_subtype t' t"
  by (simp add: ty_Inr ty_is_subtype_def corr_subtype_iff mall_mono input_tables_mono)

lemma ty_or_i_mono:
  "ty_is_subtype l' l \<Longrightarrow> ty_is_subtype r' r \<Longrightarrow> ty_or_i l r = Inr t \<Longrightarrow>
     \<exists>t'. ty_or_i l' r' = Inr t' \<and> ty_is_subtype t' t"
  by (auto simp: ty_Inr ty_is_subtype_def corr_subtype_iff mall_mono input_is_subtype_inv)

lemma ty_and_or_mono:
  "ty_is_subtype a' a \<Longrightarrow> ty_is_subtype b' b \<Longrightarrow> ty_is_subtype c' c \<Longrightarrow> ty_and_or a b c = Inr t \<Longrightarrow>
     \<exists>t'. ty_and_or a' b' c' = Inr t' \<and> ty_is_subtype t' t"
  by (auto simp: ty_Inr ty_is_subtype_def corr_subtype_iff mall_and_or_mono and_or_input_mono)

text \<open>A threshold: the bases agree, and the argument count only shrinks.\<close>

lemma thresh_bases_ok_mono:
  "list_all2 corr_is_subtype cs' cs \<Longrightarrow> thresh_bases_ok i cs \<Longrightarrow> thresh_bases_ok i cs'"
  by (auto simp: thresh_bases_ok_def list_all2_conv_all_nth corr_subtype_iff)

lemma corr_num_args_mono:
  "input_is_subtype i' i \<Longrightarrow> corr_num_args i' \<le> corr_num_args i"
  "input_is_subtype i' i \<Longrightarrow> corr_num_args i = 1 \<Longrightarrow> corr_num_args i' = 1"
  by (cases i; cases i'; simp add: input_is_subtype_def)+

lemma num_args_mono:
  assumes "list_all2 corr_is_subtype cs' cs"
  defines "n \<equiv> sum_list (map (corr_num_args \<circ> input) cs)"
    and "n' \<equiv> sum_list (map (corr_num_args \<circ> input) cs')"
  shows "n' \<le> n \<and> (n = 1 \<longrightarrow> n' = 1)"
  using assms(1) unfolding n_def n'_def
proof (induction rule: list_all2_induct)
  case Nil
  then show ?case by simp
next
  case (Cons c' cs' c cs)
  from Cons(1) have "input_is_subtype (input c') (input c)" by (simp add: corr_subtype_iff)
  then have "corr_num_args (input c') \<le> corr_num_args (input c)"
    and "corr_num_args (input c) = 1 \<longrightarrow> corr_num_args (input c') = 1"
    using corr_num_args_mono by blast+
  with Cons.IH show ?case
    unfolding list.map sum_list.Cons o_apply by presburger
qed

lemma mall_threshold_mono:
  assumes "list_all2 mall_is_subtype ms' ms"
  shows "mall_is_subtype (mall_threshold k ms') (mall_threshold k ms)"
proof -
  have len: "length ms' = length ms" using assms by (rule list_all2_lengthD)
  have cnt: "length (filter safe ms) \<le> length (filter safe ms')"
    using assms by (induction rule: list_all2_induct) (auto simp: mall_is_subtype_def)
  have cnt': "length (filter safe ms') \<le> length ms"
    using len by (metis length_filter_le)
  have uniq: "list_all (\<lambda>s. dissat s = DissatUnique) ms \<Longrightarrow> list_all (\<lambda>s. dissat s = DissatUnique) ms'"
    using assms by (auto simp: list_all_length list_all2_conv_all_nth mall_is_subtype_def dissat_is_subtype_def)
  have nm: "list_all non_malleable ms \<Longrightarrow> list_all non_malleable ms'"
    using assms by (auto simp: list_all_length list_all2_conv_all_nth mall_is_subtype_def)
  show ?thesis
    using len cnt cnt' uniq nm
    by (auto simp: mall_threshold_def Let_def mall_is_subtype_def dissat_is_subtype_def)
qed

lemma ty_threshold_mono:
  assumes "list_all2 ty_is_subtype ss' ss" and "ty_threshold k ss = Inr t"
  shows "\<exists>t'. ty_threshold k ss' = Inr t' \<and> ty_is_subtype t' t"
proof -
  from assms(1) have c: "list_all2 corr_is_subtype (map corr ss') (map corr ss)"
    and m: "list_all2 mall_is_subtype (map mall ss') (map mall ss)"
    by (auto simp: list_all2_conv_all_nth ty_is_subtype_def)
  define n n' where n: "n = sum_list (map (corr_num_args \<circ> input \<circ> corr) ss)"
    and n': "n' = sum_list (map (corr_num_args \<circ> input \<circ> corr) ss')"
  have le: "n' \<le> n \<and> (n = 1 \<longrightarrow> n' = 1)"
    using num_args_mono [OF c] unfolding n n' map_map o_assoc by blast
  from assms(2) have bases: "thresh_bases_ok 0 (map corr ss)"
    and t: "t = mk_ty (mk_corr BaseB (if n = 0 then Zero else if n = 1 then One else Any) True True)
              (mall_threshold k (map mall ss))"
    by (simp_all only: ty_threshold_Inr Let_def n)
  have "ty_threshold k ss' =
      Inr (mk_ty (mk_corr BaseB (if n' = 0 then Zero else if n' = 1 then One else Any) True True)
             (mall_threshold k (map mall ss')))" (is "_ = Inr ?t'")
    using thresh_bases_ok_mono [OF c bases] by (simp only: ty_threshold_Inr Let_def n')
  moreover have "ty_is_subtype ?t' t"
    using le mall_threshold_mono [OF m, of k]
    by (auto simp: t ty_is_subtype_def corr_subtype_iff input_is_subtype_inv)
  ultimately show ?thesis by blast
qed

end
