(* ===== verification/ExtData.thy ===== *)
theory ExtData
  imports Inscription MsTypes "HOL-Library.Option_ord"
begin

section \<open>Extra type properties: sizes, costs and timelocks\<close>

text \<open>
  The module \<^verbatim>\<open>miniscript/types/extra_props.rs\<close>.  Every constructor of
  \<open>ExtData\<close> is one definition with the prefix \<open>ext_\<close>.  Sizes and counts are \<open>usize\<close> values,
  modelled by naturals: they are bounded by the sizes of the data in memory, and the
  subtractions of the code act on positive numbers (a threshold has at least one child).
\<close>

subsection \<open>Timelock information\<close>

record timelock_info =
  csv_with_height :: bool
  csv_with_time :: bool
  cltv_with_height :: bool
  cltv_with_time :: bool
  contains_combination :: bool

definition timelock_info_new :: timelock_info where
  "timelock_info_new =
     \<lparr>csv_with_height = False, csv_with_time = False, cltv_with_height = False,
      cltv_with_time = False, contains_combination = False\<rparr>"

definition combine_threshold :: "nat \<Rightarrow> timelock_info list \<Rightarrow> timelock_info" where
  "combine_threshold k ts =
     foldl (\<lambda>acc t.
        let height_and_time =
              (csv_with_height acc \<and> csv_with_time t) \<or> (csv_with_time acc \<and> csv_with_height t)
              \<or> (cltv_with_time acc \<and> cltv_with_height t) \<or> (cltv_with_height acc \<and> cltv_with_time t)
        in \<lparr>csv_with_height = csv_with_height acc \<or> csv_with_height t,
            csv_with_time = csv_with_time acc \<or> csv_with_time t,
            cltv_with_height = cltv_with_height acc \<or> cltv_with_height t,
            cltv_with_time = cltv_with_time acc \<or> cltv_with_time t,
            contains_combination =
              (contains_combination acc \<or> (k > 1 \<and> height_and_time)) \<or> contains_combination t\<rparr>)
       timelock_info_new ts"

definition combine_and :: "timelock_info \<Rightarrow> timelock_info \<Rightarrow> timelock_info" where
  "combine_and a b = combine_threshold 2 [a, b]"

definition combine_or :: "timelock_info \<Rightarrow> timelock_info \<Rightarrow> timelock_info" where
  "combine_or a b = combine_threshold 1 [a, b]"

subsection \<open>Satisfaction data\<close>

record sat_data_t =
  max_witness_stack_size :: nat
  max_witness_stack_count :: nat
  max_script_sig_size :: nat
  max_exec_stack_count :: nat
  max_exec_op_count :: nat

abbreviation mk_sat :: "nat \<Rightarrow> nat \<Rightarrow> nat \<Rightarrow> nat \<Rightarrow> nat \<Rightarrow> sat_data_t" where
  "mk_sat sz cnt sig exec ops \<equiv>
     \<lparr>max_witness_stack_size = sz, max_witness_stack_count = cnt, max_script_sig_size = sig,
      max_exec_stack_count = exec, max_exec_op_count = ops\<rparr>"

definition fieldwise_max :: "sat_data_t \<Rightarrow> sat_data_t \<Rightarrow> sat_data_t" where
  "fieldwise_max x y =
     mk_sat (max (max_witness_stack_size x) (max_witness_stack_size y))
       (max (max_witness_stack_count x) (max_witness_stack_count y))
       (max (max_script_sig_size x) (max_script_sig_size y))
       (max (max_exec_stack_count x) (max_exec_stack_count y))
       (max (max_exec_op_count x) (max_exec_op_count y))"

fun fieldwise_max_opt :: "sat_data_t option \<Rightarrow> sat_data_t option \<Rightarrow> sat_data_t option" where
  "fieldwise_max_opt None None = None"
| "fieldwise_max_opt (Some x) None = Some x"
| "fieldwise_max_opt None (Some x) = Some x"
| "fieldwise_max_opt (Some x) (Some y) = Some (fieldwise_max x y)"

text \<open>\<open>l.zip(r).map(f)\<close>\<close>

fun zip_map :: "('a \<Rightarrow> 'b \<Rightarrow> 'c) \<Rightarrow> 'a option \<Rightarrow> 'b option \<Rightarrow> 'c option" where
  "zip_map f (Some x) (Some y) = Some (f x y)"
| "zip_map f _ _ = None"

text \<open>The two ways the code concatenates satisfactions: in \<open>and_b\<close> and \<open>or_b\<close> the result of the
  left child lies on the stack while the right one runs.\<close>

definition sat_concat_b :: "sat_data_t \<Rightarrow> sat_data_t \<Rightarrow> sat_data_t" where
  "sat_concat_b l r =
     mk_sat (max_witness_stack_size l + max_witness_stack_size r)
       (max_witness_stack_count l + max_witness_stack_count r)
       (max_script_sig_size l + max_script_sig_size r)
       (max (max_exec_stack_count l) (1 + max_exec_stack_count r))
       (max_exec_op_count l + max_exec_op_count r)"

definition sat_concat :: "sat_data_t \<Rightarrow> sat_data_t \<Rightarrow> sat_data_t" where
  "sat_concat l r =
     mk_sat (max_witness_stack_size l + max_witness_stack_size r)
       (max_witness_stack_count l + max_witness_stack_count r)
       (max_script_sig_size l + max_script_sig_size r)
       (max (max_exec_stack_count l) (max_exec_stack_count r))
       (max_exec_op_count l + max_exec_op_count r)"

subsection \<open>Leaves\<close>

datatype sig_type = Ecdsa | Schnorr

record ext_data =
  pk_cost :: nat
  has_free_verify :: bool
  static_ops :: nat
  sat_data :: "sat_data_t option"
  dissat_data :: "sat_data_t option"
  ext_timelock :: timelock_info
  tree_height :: nat

abbreviation mk_ext ::
    "nat \<Rightarrow> bool \<Rightarrow> nat \<Rightarrow> sat_data_t option \<Rightarrow> sat_data_t option \<Rightarrow> timelock_info \<Rightarrow> nat \<Rightarrow> ext_data"
  where
  "mk_ext c v ops s d t h \<equiv>
     \<lparr>pk_cost = c, has_free_verify = v, static_ops = ops, sat_data = s, dissat_data = d,
      ext_timelock = t, tree_height = h\<rparr>"

definition ext_FALSE :: ext_data where
  "ext_FALSE = mk_ext 1 False 0 None (Some (mk_sat 0 0 0 1 0)) timelock_info_new 0"

definition ext_TRUE :: ext_data where
  "ext_TRUE = mk_ext 1 False 0 (Some (mk_sat 0 0 0 1 0)) None timelock_info_new 0"

definition ext_tx_template :: ext_data where
  "ext_tx_template = mk_ext 35 False 2 (Some (mk_sat 0 0 0 1 0)) None timelock_info_new 0"

definition ext_inscribing :: "btc \<Rightarrow> ext_data \<Rightarrow> inscription list \<Rightarrow> bool \<Rightarrow> ext_data" where
  "ext_inscribing L e is postfix =
     (let upd = (\<lambda>d. d\<lparr>max_exec_stack_count :=
                  (if postfix then max_exec_stack_count d + 1 else max (max_exec_stack_count d) 1)\<rparr>)
      in mk_ext (pk_cost e + sum_list (map (size_guess L) is))
           (if postfix then False else has_free_verify e)
           (static_ops e + 2 * length is)
           (map_option upd (sat_data e)) (map_option upd (dissat_data e))
           (ext_timelock e) (tree_height e + 1))"

text \<open>The flag is \<open>is_uncompressed\<close> of the key.\<close>

definition ext_pk_k :: "sig_type \<Rightarrow> bool \<Rightarrow> ext_data" where
  "ext_pk_k st uncompressed =
     (let (key_bytes, max_sig_bytes) =
            (case st of
               Ecdsa \<Rightarrow> (if uncompressed then (65, 73) else (34, 73))
             | Schnorr \<Rightarrow> (33, 66))
      in mk_ext key_bytes False 0
           (Some (mk_sat max_sig_bytes 1 max_sig_bytes 1 0)) (Some (mk_sat 1 1 1 1 0))
           timelock_info_new 0)"

text \<open>\<open>None\<close> is a raw key hash, whose key is not known.\<close>

definition ext_pk_h :: "sig_type \<Rightarrow> bool option \<Rightarrow> ext_data" where
  "ext_pk_h st uncompressed =
     (let (key_bytes, max_sig_bytes) =
            (case (st, uncompressed) of
               (Ecdsa, Some u) \<Rightarrow> (if u then (65, 73) else (34, 73))
             | (Ecdsa, _) \<Rightarrow> (34, 73)
             | (Schnorr, _) \<Rightarrow> (33, 66))
      in mk_ext 24 False 3
           (Some (mk_sat (key_bytes + max_sig_bytes) 2 (key_bytes + max_sig_bytes) 2 0))
           (Some (mk_sat (key_bytes + 1) 2 (key_bytes + 1) 2 0))
           timelock_info_new 0)"

definition multi_num_cost :: "nat \<Rightarrow> nat \<Rightarrow> nat" where
  "multi_num_cost k n =
     (case (k > 16, n > 16) of
        (True, True) \<Rightarrow> 4
      | (False, True) \<Rightarrow> 3
      | (True, False) \<Rightarrow> 3
      | (False, False) \<Rightarrow> 2)"

definition ext_multi :: "('pk \<Rightarrow> bool) \<Rightarrow> 'pk threshold \<Rightarrow> ext_data" where
  "ext_multi is_uncompressed t =
     (let n = thr_n t; k = thr_k t in
      mk_ext (multi_num_cost k n
              + sum_list (map (\<lambda>pk. if is_uncompressed pk then 65 else 34) (thr_data t)) + 1)
        True 1
        (Some (mk_sat (1 + 73 * k) (k + 1) (1 + 73 * k) n n))
        (Some (mk_sat (1 + k) (k + 1) (1 + k) n n))
        timelock_info_new 0)"

definition ext_multi_a :: "nat \<Rightarrow> nat \<Rightarrow> ext_data" where
  "ext_multi_a k n =
     mk_ext (multi_num_cost k n + 33 * n + (n - 1) + 1) True 0
       (Some (mk_sat ((n - k) + 66 * k) n 0 2 0)) (Some (mk_sat n n 0 2 0))
       timelock_info_new 0"

definition ext_sha256 :: ext_data where
  "ext_sha256 =
     mk_ext (33 + 6) True 4 (Some (mk_sat 33 1 33 2 0)) (Some (mk_sat 33 2 33 2 0))
       timelock_info_new 0"

definition ext_hash256 :: ext_data where
  "ext_hash256 =
     mk_ext (33 + 6) True 4 (Some (mk_sat 33 1 33 2 0)) (Some (mk_sat 33 2 33 2 0))
       timelock_info_new 0"

definition ext_ripemd160 :: ext_data where
  "ext_ripemd160 =
     mk_ext (21 + 6) True 4 (Some (mk_sat 33 1 33 2 0)) (Some (mk_sat 33 2 33 2 0))
       timelock_info_new 0"

definition ext_hash160 :: ext_data where
  "ext_hash160 =
     mk_ext (21 + 6) True 4 (Some (mk_sat 33 1 33 2 0)) (Some (mk_sat 33 2 33 2 0))
       timelock_info_new 0"

definition ext_after :: "btc \<Rightarrow> abs_lock_time \<Rightarrow> ext_data" where
  "ext_after L t =
     mk_ext (script_num_size (unat (abs_to_consensus_u32 t)) + 1) False 1
       (Some (mk_sat 0 0 0 1 0)) None
       \<lparr>csv_with_height = False, csv_with_time = False,
        cltv_with_height = abs_is_block_height L t, cltv_with_time = abs_is_block_time L t,
        contains_combination = False\<rparr> 0"

definition ext_older :: "btc \<Rightarrow> rel_lock_time \<Rightarrow> ext_data" where
  "ext_older L t =
     mk_ext (script_num_size (unat (rel_to_consensus_u32 t)) + 1) False 1
       (Some (mk_sat 0 0 0 1 0)) None
       \<lparr>csv_with_height = rel_is_height_locked L t, csv_with_time = rel_is_time_locked L t,
        cltv_with_height = False, cltv_with_time = False, contains_combination = False\<rparr> 0"

subsection \<open>Wrappers\<close>

definition ext_cast_alt :: "ext_data \<Rightarrow> ext_data" where
  "ext_cast_alt e =
     mk_ext (pk_cost e + 2) False (2 + static_ops e) (sat_data e) (dissat_data e)
       (ext_timelock e) (tree_height e + 1)"

definition ext_cast_swap :: "ext_data \<Rightarrow> ext_data" where
  "ext_cast_swap e =
     mk_ext (pk_cost e + 1) (has_free_verify e) (1 + static_ops e) (sat_data e) (dissat_data e)
       (ext_timelock e) (tree_height e + 1)"

definition ext_cast_check :: "ext_data \<Rightarrow> ext_data" where
  "ext_cast_check e =
     mk_ext (pk_cost e + 1) True (1 + static_ops e) (sat_data e) (dissat_data e)
       (ext_timelock e) (tree_height e + 1)"

definition ext_cast_dupif :: "ext_data \<Rightarrow> ext_data" where
  "ext_cast_dupif e =
     mk_ext (pk_cost e + 3) False (3 + static_ops e)
       (map_option (\<lambda>d. mk_sat (max_witness_stack_size d + 1) (max_witness_stack_count d + 2)
                     (max_script_sig_size d + 1) (max 1 (max_exec_stack_count d))
                     (max_exec_op_count d)) (sat_data e))
       (Some (mk_sat 1 1 1 1 0)) (ext_timelock e) (tree_height e + 1)"

definition ext_cast_verify :: "ext_data \<Rightarrow> ext_data" where
  "ext_cast_verify e =
     (let verify_cost = (if \<not> has_free_verify e then 1 else 0) in
      mk_ext (pk_cost e + verify_cost) False (verify_cost + static_ops e) (sat_data e) None
        (ext_timelock e) (tree_height e + 1))"

definition ext_cast_nonzero :: "ext_data \<Rightarrow> ext_data" where
  "ext_cast_nonzero e =
     mk_ext (pk_cost e + 4) False (4 + static_ops e) (sat_data e) (Some (mk_sat 1 1 1 1 0))
       (ext_timelock e) (tree_height e + 1)"

definition ext_cast_zeronotequal :: "ext_data \<Rightarrow> ext_data" where
  "ext_cast_zeronotequal e =
     mk_ext (pk_cost e + 1) False (1 + static_ops e) (sat_data e) (dissat_data e)
       (ext_timelock e) (tree_height e + 1)"

subsection \<open>Combinators\<close>

definition ext_and_b :: "ext_data \<Rightarrow> ext_data \<Rightarrow> ext_data" where
  "ext_and_b l r =
     mk_ext (pk_cost l + pk_cost r + 1) False (1 + static_ops l + static_ops r)
       (zip_map sat_concat_b (sat_data l) (sat_data r))
       (zip_map sat_concat_b (dissat_data l) (dissat_data r))
       (combine_and (ext_timelock l) (ext_timelock r))
       (1 + max (tree_height l) (tree_height r))"

definition ext_and_v :: "ext_data \<Rightarrow> ext_data \<Rightarrow> ext_data" where
  "ext_and_v l r =
     mk_ext (pk_cost l + pk_cost r) (has_free_verify r) (static_ops l + static_ops r)
       (zip_map sat_concat (sat_data l) (sat_data r)) None
       (combine_and (ext_timelock l) (ext_timelock r))
       (1 + max (tree_height l) (tree_height r))"

definition ext_or_b :: "ext_data \<Rightarrow> ext_data \<Rightarrow> ext_data" where
  "ext_or_b l r =
     mk_ext (pk_cost l + pk_cost r + 1) False (1 + static_ops l + static_ops r)
       (fieldwise_max_opt (zip_map sat_concat_b (sat_data l) (dissat_data r))
          (zip_map sat_concat_b (dissat_data l) (sat_data r)))
       (zip_map sat_concat_b (dissat_data l) (dissat_data r))
       (combine_or (ext_timelock l) (ext_timelock r))
       (1 + max (tree_height l) (tree_height r))"

definition ext_or_d :: "ext_data \<Rightarrow> ext_data \<Rightarrow> ext_data" where
  "ext_or_d l r =
     mk_ext (pk_cost l + pk_cost r + 3) False (3 + static_ops l + static_ops r)
       (fieldwise_max_opt (sat_data l) (zip_map sat_concat (dissat_data l) (sat_data r)))
       (zip_map sat_concat (dissat_data l) (dissat_data r))
       (combine_or (ext_timelock l) (ext_timelock r))
       (1 + max (tree_height l) (tree_height r))"

definition ext_or_c :: "ext_data \<Rightarrow> ext_data \<Rightarrow> ext_data" where
  "ext_or_c l r =
     mk_ext (pk_cost l + pk_cost r + 2) False (2 + static_ops l + static_ops r)
       (fieldwise_max_opt (sat_data l) (zip_map sat_concat (dissat_data l) (sat_data r)))
       None
       (combine_or (ext_timelock l) (ext_timelock r))
       (1 + max (tree_height l) (tree_height r))"

definition sat_with_0 :: "sat_data_t \<Rightarrow> sat_data_t" where
  "sat_with_0 d =
     mk_sat (1 + max_witness_stack_size d) (1 + max_witness_stack_count d)
       (1 + max_script_sig_size d) (max_exec_stack_count d) (max_exec_op_count d)"

definition sat_with_1 :: "sat_data_t \<Rightarrow> sat_data_t" where
  "sat_with_1 d =
     mk_sat (2 + max_witness_stack_size d) (1 + max_witness_stack_count d)
       (1 + max_script_sig_size d) (max_exec_stack_count d) (max_exec_op_count d)"

definition ext_or_i :: "ext_data \<Rightarrow> ext_data \<Rightarrow> ext_data" where
  "ext_or_i l r =
     mk_ext (pk_cost l + pk_cost r + 3) False (3 + static_ops l + static_ops r)
       (fieldwise_max_opt (map_option sat_with_1 (sat_data l)) (map_option sat_with_0 (sat_data r)))
       (fieldwise_max_opt (map_option sat_with_1 (dissat_data l))
          (map_option sat_with_0 (dissat_data r)))
       (combine_or (ext_timelock l) (ext_timelock r))
       (1 + max (tree_height l) (tree_height r))"

definition ext_and_or :: "ext_data \<Rightarrow> ext_data \<Rightarrow> ext_data \<Rightarrow> ext_data" where
  "ext_and_or a b c =
     mk_ext (pk_cost a + pk_cost b + pk_cost c + 3) False
       (3 + static_ops a + static_ops b + static_ops c)
       (fieldwise_max_opt (zip_map sat_concat (sat_data a) (sat_data b))
          (zip_map sat_concat (dissat_data a) (sat_data c)))
       (zip_map sat_concat (dissat_data a) (dissat_data c))
       (combine_or (combine_and (ext_timelock a) (ext_timelock b)) (ext_timelock c))
       (1 + max (tree_height a) (max (tree_height b) (tree_height c)))"

definition ext_cast_true :: "ext_data \<Rightarrow> ext_data" where
  "ext_cast_true e = ext_and_v e ext_TRUE"

definition ext_cast_unlikely :: "ext_data \<Rightarrow> ext_data" where
  "ext_cast_unlikely e = ext_or_i e ext_FALSE"

definition ext_cast_likely :: "ext_data \<Rightarrow> ext_data" where
  "ext_cast_likely e = ext_or_i ext_FALSE e"

subsection \<open>Thresholds\<close>

type_synonym sat_dissat = "sat_data_t option \<times> sat_data_t option"

text \<open>The key of \<open>sort_by_key\<close>: \<open>None\<close> sorts before every \<open>Some\<close>.\<close>

definition thresh_sort_key :: "(sat_data_t \<Rightarrow> nat) \<Rightarrow> sat_dissat \<Rightarrow> int option" where
  "thresh_sort_key proj p =
     zip_map (\<lambda>s d. int (proj s) - int (proj d)) (fst p) (snd p)"

text \<open>\<open>try_fold\<close> over the enumerated vector; \<open>i\<close> is the position.\<close>

fun thresh_try_fold ::
    "nat \<Rightarrow> (sat_data_t \<Rightarrow> nat) \<Rightarrow> (nat \<Rightarrow> nat \<Rightarrow> nat) \<Rightarrow> nat \<Rightarrow> nat \<Rightarrow> sat_dissat list \<Rightarrow> nat option"
  where
  "thresh_try_fold k proj cmp i acc [] = Some acc"
| "thresh_try_fold k proj cmp i acc ((sd, dd) # rest) =
     (case (if i \<le> k then sd else dd) of
        None \<Rightarrow> None
      | Some x \<Rightarrow> thresh_try_fold k proj cmp (Suc i) (cmp acc (proj x)) rest)"

text \<open>One field: the vector is sorted in place (so the next field starts from this order) and
  folded from its end.\<close>

definition thresh_field ::
    "nat \<Rightarrow> (sat_data_t \<Rightarrow> nat) \<Rightarrow> (nat \<Rightarrow> nat \<Rightarrow> nat) \<Rightarrow> sat_dissat list \<Rightarrow> nat option \<times> sat_dissat list"
  where
  "thresh_field k proj cmp v =
     (let v' = sort_key (thresh_sort_key proj) v in
      (thresh_try_fold k proj cmp 0 0 (rev v'), v'))"

definition thresh_sat_data :: "nat \<Rightarrow> sat_dissat list \<Rightarrow> sat_data_t option" where
  "thresh_sat_data k v0 =
     (let (count, v1) = thresh_field k max_witness_stack_count (+) v0;
          (sz, v2) = thresh_field k max_witness_stack_size (+) v1;
          (sig, v3) = thresh_field k max_script_sig_size (+) v2;
          (exec, v4) = thresh_field k max_exec_stack_count
                         (\<lambda>acc x. max acc (x + (if acc > 0 then 1 else 0))) v3;
          (ops, v5) = thresh_field k max_exec_op_count (+) v4
      in case (count, sz, sig, exec, ops) of
           (Some count, Some sz, Some sig, Some exec, Some ops) \<Rightarrow>
             Some (mk_sat sz count sig exec ops)
         | _ \<Rightarrow> None)"

definition ext_threshold :: "nat \<Rightarrow> ext_data list \<Rightarrow> ext_data" where
  "ext_threshold k subs =
     (let n = length subs;
          dd = foldl (\<lambda>acc s. zip_map sat_concat acc (dissat_data s))
                     (Some (mk_sat 0 0 0 0 0)) subs
      in mk_ext (1 + script_num_size k + sum_list (map pk_cost subs) + n - 1) True
           (sum_list (map static_ops subs) + 1 + (n - 1))
           (thresh_sat_data k (map (\<lambda>s. (sat_data s, dissat_data s)) subs))
           dd
           (combine_threshold k (map ext_timelock subs))
           (foldl max 0 (map tree_height subs) + 1))"

definition sat_op_count :: "ext_data \<Rightarrow> nat option" where
  "sat_op_count e = map_option (\<lambda>d. static_ops e + max_exec_op_count d) (sat_data e)"

end
