(* ===== verification/Ast.thy ===== *)
theory Ast
  imports ExtData
begin

section \<open>The syntax tree, its types and its context checks\<close>

text \<open>
  \<open>Terminal\<close> of \<^verbatim>\<open>miniscript/decode.rs\<close> and \<open>Miniscript\<close> of
  \<^verbatim>\<open>miniscript/mod.rs\<close>: a node with the types cached beside it.  The type of a
  terminal is a functor in the type of its children, as \<open>Arc<Miniscript>\<close> is the only recursion
  of the code.  The four associated hash types of a key are the byte strings their
  \<open>to_sha256\<close> (and so on) conversions give.

  The theory also has the two \<open>type_check\<close> functions over a fragment, \<open>from_ast\<close>, the context
  checks of \<^verbatim>\<open>miniscript/context.rs\<close>, \<open>script_size\<close>, and the encoder of
  \<^verbatim>\<open>miniscript/astelem.rs\<close>.
\<close>

subsection \<open>Keys and script contexts\<close>

text \<open>The methods of the traits \<open>MiniscriptKey\<close> and \<open>ToPublicKey\<close>.\<close>

record 'pk key_ops =
  is_uncompressed :: "'pk \<Rightarrow> bool"
  is_x_only_key :: "'pk \<Rightarrow> bool"
  num_der_paths :: "'pk \<Rightarrow> nat"
  to_public_key :: "'pk \<Rightarrow> pubkey"
  to_x_only_pubkey :: "'pk \<Rightarrow> xonly"

datatype script_context = Legacy | Segwitv0 | Tap | BareCtx | NoChecks

fun ctx_sig_type :: "script_context \<Rightarrow> sig_type" where
  "ctx_sig_type Legacy = Ecdsa"
| "ctx_sig_type Segwitv0 = Ecdsa"
| "ctx_sig_type Tap = Schnorr"
| "ctx_sig_type BareCtx = Ecdsa"
| "ctx_sig_type NoChecks = Ecdsa"

text \<open>\<open>None\<close> is the panic of the \<open>NoChecks\<close> context.\<close>

fun ctx_pk_len :: "script_context \<Rightarrow> bool \<Rightarrow> nat option" where
  "ctx_pk_len Legacy uncompressed = Some (if uncompressed then 66 else 34)"
| "ctx_pk_len Segwitv0 uncompressed = Some 34"
| "ctx_pk_len Tap uncompressed = Some 33"
| "ctx_pk_len BareCtx uncompressed = Some (if uncompressed then 66 else 34)"
| "ctx_pk_len NoChecks uncompressed = None"

subsection \<open>Terminals and miniscripts\<close>

datatype ('pk, 'c) terminal =
    TrueT
  | FalseT
  | PkK 'pk
  | PkH 'pk
  | RawPkH hash
  | After abs_lock_time
  | Older rel_lock_time
  | Sha256 hash
  | Hash256 hash
  | Ripemd160 hash
  | Hash160 hash
  | TxTemplate hash
  | InscribePre "inscription list" 'c
  | InscribePost "inscription list" 'c
  | Alt 'c
  | Swap 'c
  | Check 'c
  | DupIf 'c
  | Verify 'c
  | NonZero 'c
  | ZeroNotEqual 'c
  | AndV 'c 'c
  | AndB 'c 'c
  | AndOr 'c 'c 'c
  | OrB 'c 'c
  | OrD 'c 'c
  | OrC 'c 'c
  | OrI 'c 'c
  | Thresh "'c threshold"
  | Multi "'pk threshold"
  | MultiA "'pk threshold"

datatype 'pk miniscript =
  Miniscript (ms_node: "('pk, 'pk miniscript) terminal") (ms_ty: ms_type) (ms_ext: ext_data)

text \<open>\<open>TreeLike::as_node\<close>: the children of a node, in order.\<close>

fun children :: "('pk, 'c) terminal \<Rightarrow> 'c list" where
  "children (InscribePre _ x) = [x]"
| "children (InscribePost _ x) = [x]"
| "children (Alt x) = [x]"
| "children (Swap x) = [x]"
| "children (Check x) = [x]"
| "children (DupIf x) = [x]"
| "children (Verify x) = [x]"
| "children (NonZero x) = [x]"
| "children (ZeroNotEqual x) = [x]"
| "children (AndV x y) = [x, y]"
| "children (AndB x y) = [x, y]"
| "children (AndOr x y z) = [x, y, z]"
| "children (OrB x y) = [x, y]"
| "children (OrD x y) = [x, y]"
| "children (OrC x y) = [x, y]"
| "children (OrI x y) = [x, y]"
| "children (Thresh t) = thr_data t"
| "children _ = []"

lemma size_threshold_mem: "x \<in> set (thr_data t) \<Longrightarrow> size x < size_threshold size t"
  by (cases t) (simp add: less_Suc_eq_le size_list_estimation')

lemma size_children [termination_simp]:
  "c \<in> set (children n) \<Longrightarrow> size c < Suc (size_terminal (\<lambda>x. 0) size n)"
  by (cases n) (use size_threshold_mem [of c] in \<open>fastforce simp: less_Suc_eq\<close>)+

text \<open>The nodes in the order of \<open>pre_order_iter\<close>.\<close>

fun pre_order :: "'pk miniscript \<Rightarrow> 'pk miniscript list" where
  "pre_order (Miniscript n ty ext) =
     Miniscript n ty ext # concat (map pre_order (children n))"

fun node_keys :: "('pk, 'c) terminal \<Rightarrow> 'pk list" where
  "node_keys (PkK pk) = [pk]"
| "node_keys (PkH pk) = [pk]"
| "node_keys (Multi t) = thr_data t"
| "node_keys (MultiA t) = thr_data t"
| "node_keys _ = []"

definition all_keys :: "'pk miniscript \<Rightarrow> 'pk list" where
  "all_keys ms = concat (map (node_keys \<circ> ms_node) (pre_order ms))"

definition for_each_key :: "('pk \<Rightarrow> bool) \<Rightarrow> 'pk miniscript \<Rightarrow> bool" where
  "for_each_key p ms = list_all p (all_keys ms)"

subsection \<open>Type checking a fragment\<close>

text \<open>\<open>Type::type_check\<close>.  The string of the offending fragment in the error is left out.\<close>

fun ty_check :: "('pk, 'pk miniscript) terminal \<Rightarrow> error_kind + ms_type" where
  "ty_check TrueT = Inr ty_TRUE"
| "ty_check FalseT = Inr ty_FALSE"
| "ty_check (PkK _) = Inr ty_pk_k"
| "ty_check (PkH _) = Inr ty_pk_h"
| "ty_check (RawPkH _) = Inr ty_pk_h"
| "ty_check (Multi _) = Inr ty_multi"
| "ty_check (MultiA _) = Inr ty_multi_a"
| "ty_check (After _) = Inr ty_time"
| "ty_check (Older _) = Inr ty_time"
| "ty_check (Sha256 _) = Inr ty_hash"
| "ty_check (Hash256 _) = Inr ty_hash"
| "ty_check (Ripemd160 _) = Inr ty_hash"
| "ty_check (Hash160 _) = Inr ty_hash"
| "ty_check (TxTemplate _) = Inr ty_tx_template"
| "ty_check (InscribePre ins x) =
     (if ins = [] \<or> list_ex (\<lambda>i. \<not> is_ok (validate i)) ins then Inl InvalidInscription
      else Inr (ms_ty x))"
| "ty_check (InscribePost ins x) =
     (if ins = [] \<or> list_ex (\<lambda>i. \<not> is_ok (validate i)) ins then Inl InvalidInscription
      else Inr (ms_ty x))"
| "ty_check (Alt x) = ty_cast_alt (ms_ty x)"
| "ty_check (Swap x) = ty_cast_swap (ms_ty x)"
| "ty_check (Check x) = ty_cast_check (ms_ty x)"
| "ty_check (DupIf x) = ty_cast_dupif (ms_ty x)"
| "ty_check (Verify x) = ty_cast_verify (ms_ty x)"
| "ty_check (NonZero x) = ty_cast_nonzero (ms_ty x)"
| "ty_check (ZeroNotEqual x) = ty_cast_zeronotequal (ms_ty x)"
| "ty_check (AndB l r) = ty_and_b (ms_ty l) (ms_ty r)"
| "ty_check (AndV l r) = ty_and_v (ms_ty l) (ms_ty r)"
| "ty_check (OrB l r) = ty_or_b (ms_ty l) (ms_ty r)"
| "ty_check (OrD l r) = ty_or_d (ms_ty l) (ms_ty r)"
| "ty_check (OrC l r) = ty_or_c (ms_ty l) (ms_ty r)"
| "ty_check (OrI l r) = ty_or_i (ms_ty l) (ms_ty r)"
| "ty_check (AndOr a b c) = ty_and_or (ms_ty a) (ms_ty b) (ms_ty c)"
| "ty_check (Thresh t) = ty_threshold (thr_k t) (map ms_ty (thr_data t))"

text \<open>\<open>ExtData::type_check\<close>\<close>

fun ext_check ::
    "btc \<Rightarrow> 'pk key_ops \<Rightarrow> script_context \<Rightarrow> ('pk, 'pk miniscript) terminal \<Rightarrow> ext_data" where
  "ext_check L K ctx TrueT = ext_TRUE"
| "ext_check L K ctx FalseT = ext_FALSE"
| "ext_check L K ctx (PkK k) = ext_pk_k (ctx_sig_type ctx) (is_uncompressed K k)"
| "ext_check L K ctx (PkH k) = ext_pk_h (ctx_sig_type ctx) (Some (is_uncompressed K k))"
| "ext_check L K ctx (RawPkH _) = ext_pk_h (ctx_sig_type ctx) None"
| "ext_check L K ctx (Multi t) = ext_multi (is_uncompressed K) t"
| "ext_check L K ctx (MultiA t) = ext_multi_a (thr_k t) (thr_n t)"
| "ext_check L K ctx (After t) = ext_after L t"
| "ext_check L K ctx (Older t) = ext_older L t"
| "ext_check L K ctx (Sha256 _) = ext_sha256"
| "ext_check L K ctx (Hash256 _) = ext_hash256"
| "ext_check L K ctx (Ripemd160 _) = ext_ripemd160"
| "ext_check L K ctx (Hash160 _) = ext_hash160"
| "ext_check L K ctx (TxTemplate _) = ext_tx_template"
| "ext_check L K ctx (InscribePre ins x) = ext_inscribing L (ms_ext x) ins False"
| "ext_check L K ctx (InscribePost ins x) = ext_inscribing L (ms_ext x) ins True"
| "ext_check L K ctx (Alt x) = ext_cast_alt (ms_ext x)"
| "ext_check L K ctx (Swap x) = ext_cast_swap (ms_ext x)"
| "ext_check L K ctx (Check x) = ext_cast_check (ms_ext x)"
| "ext_check L K ctx (DupIf x) = ext_cast_dupif (ms_ext x)"
| "ext_check L K ctx (Verify x) = ext_cast_verify (ms_ext x)"
| "ext_check L K ctx (NonZero x) = ext_cast_nonzero (ms_ext x)"
| "ext_check L K ctx (ZeroNotEqual x) = ext_cast_zeronotequal (ms_ext x)"
| "ext_check L K ctx (AndB l r) = ext_and_b (ms_ext l) (ms_ext r)"
| "ext_check L K ctx (AndV l r) = ext_and_v (ms_ext l) (ms_ext r)"
| "ext_check L K ctx (OrB l r) = ext_or_b (ms_ext l) (ms_ext r)"
| "ext_check L K ctx (OrD l r) = ext_or_d (ms_ext l) (ms_ext r)"
| "ext_check L K ctx (OrC l r) = ext_or_c (ms_ext l) (ms_ext r)"
| "ext_check L K ctx (OrI l r) = ext_or_i (ms_ext l) (ms_ext r)"
| "ext_check L K ctx (AndOr a b c) = ext_and_or (ms_ext a) (ms_ext b) (ms_ext c)"
| "ext_check L K ctx (Thresh t) = ext_threshold (thr_k t) (map ms_ext (thr_data t))"

subsection \<open>Context checks\<close>

definition MAX_OPS_PER_SCRIPT :: nat where "MAX_OPS_PER_SCRIPT = 201"
definition MAX_STANDARD_P2WSH_STACK_ITEMS :: nat where "MAX_STANDARD_P2WSH_STACK_ITEMS = 100"
definition MAX_SCRIPT_SIZE :: nat where "MAX_SCRIPT_SIZE = 10000"
definition MAX_STANDARD_P2WSH_SCRIPT_SIZE :: nat where "MAX_STANDARD_P2WSH_SCRIPT_SIZE = 3600"
definition MAX_SCRIPTSIG_SIZE :: nat where "MAX_SCRIPTSIG_SIZE = 1650"
definition MAX_STACK_SIZE :: nat where "MAX_STACK_SIZE = 1000"
definition MAX_BLOCK_WEIGHT :: nat where "MAX_BLOCK_WEIGHT = 4000000"
definition MAX_PUBKEYS_PER_MULTISIG :: nat where "MAX_PUBKEYS_PER_MULTISIG = 20"
definition MAX_PUBKEYS_IN_CHECKSIGADD :: nat where "MAX_PUBKEYS_IN_CHECKSIGADD = 999"
definition MAX_RECURSION_DEPTH :: nat where "MAX_RECURSION_DEPTH = 402"

lemmas limit_defs = MAX_OPS_PER_SCRIPT_def MAX_STANDARD_P2WSH_STACK_ITEMS_def MAX_SCRIPT_SIZE_def
  MAX_STANDARD_P2WSH_SCRIPT_SIZE_def MAX_SCRIPTSIG_SIZE_def MAX_STACK_SIZE_def MAX_BLOCK_WEIGHT_def
  MAX_PUBKEYS_PER_MULTISIG_def MAX_PUBKEYS_IN_CHECKSIGADD_def MAX_RECURSION_DEPTH_def

text \<open>\<open>ScriptContextError\<close>, without the strings of the messages.\<close>

datatype ctx_error =
    MalleableOrI
  | MalleableDupIf
  | XOnlyKeysNotAllowed
  | UncompressedKeysNotAllowed
  | MaxWitnessItemsExceeded nat nat
  | MaxOpCountExceeded nat nat
  | MaxWitnessScriptSizeExceeded nat nat
  | MaxRedeemScriptSizeExceeded nat nat
  | MaxBareScriptSizeExceeded nat nat
  | MaxScriptSigSizeExceeded nat nat
  | CtxImpossibleSatisfaction
  | TaprootMultiDisabled
  | StackSizeLimitExceeded nat nat
  | MultiANotAllowed

fun check_terminal_non_malleable :: "script_context \<Rightarrow> ('pk, 'c) terminal \<Rightarrow> ctx_error + unit" where
  "check_terminal_non_malleable Legacy (OrI _ _) = Inl MalleableOrI"
| "check_terminal_non_malleable Legacy (DupIf _) = Inl MalleableDupIf"
| "check_terminal_non_malleable _ _ = Inr ()"

fun check_pk :: "script_context \<Rightarrow> 'pk key_ops \<Rightarrow> 'pk \<Rightarrow> ctx_error + unit" where
  "check_pk Legacy K pk = (if is_x_only_key K pk then Inl XOnlyKeysNotAllowed else Inr ())"
| "check_pk Segwitv0 K pk =
     (if is_uncompressed K pk then Inl UncompressedKeysNotAllowed
      else if is_x_only_key K pk then Inl XOnlyKeysNotAllowed else Inr ())"
| "check_pk Tap K pk = (if is_uncompressed K pk then Inl UncompressedKeysNotAllowed else Inr ())"
| "check_pk BareCtx K pk = (if is_x_only_key K pk then Inl XOnlyKeysNotAllowed else Inr ())"
| "check_pk NoChecks K pk = Inr ()"

fun check_pks :: "script_context \<Rightarrow> 'pk key_ops \<Rightarrow> 'pk list \<Rightarrow> ctx_error + unit" where
  "check_pks ctx K [] = Inr ()"
| "check_pks ctx K (pk # pks) =
     (case check_pk ctx K pk of Inl e \<Rightarrow> Inl e | Inr _ \<Rightarrow> check_pks ctx K pks)"

fun check_node :: "script_context \<Rightarrow> 'pk key_ops \<Rightarrow> ('pk, 'c) terminal \<Rightarrow> ctx_error + unit" where
  "check_node ctx K (PkK pk) = check_pk ctx K pk"
| "check_node ctx K (Multi t) =
     (if ctx = Tap then Inl TaprootMultiDisabled else check_pks ctx K (thr_data t))"
| "check_node ctx K (MultiA t) =
     (if ctx = Tap then check_pks ctx K (thr_data t) else Inl MultiANotAllowed)"
| "check_node ctx K _ = Inr ()"

definition size_limit_error :: "script_context \<Rightarrow> nat \<Rightarrow> ctx_error + unit" where
  "size_limit_error ctx cost =
     (case ctx of
        Legacy \<Rightarrow>
          if cost > MAX_SCRIPT_ELEMENT_SIZE
          then Inl (MaxRedeemScriptSizeExceeded MAX_SCRIPT_ELEMENT_SIZE cost) else Inr ()
      | Segwitv0 \<Rightarrow>
          if cost > MAX_SCRIPT_SIZE
          then Inl (MaxWitnessScriptSizeExceeded MAX_SCRIPT_SIZE cost) else Inr ()
      | Tap \<Rightarrow>
          if cost > MAX_BLOCK_WEIGHT
          then Inl (MaxWitnessScriptSizeExceeded MAX_BLOCK_WEIGHT cost) else Inr ()
      | BareCtx \<Rightarrow>
          if cost > MAX_SCRIPT_SIZE
          then Inl (MaxBareScriptSizeExceeded MAX_SCRIPT_SIZE cost) else Inr ()
      | NoChecks \<Rightarrow> Inr ())"

definition check_global_consensus_validity ::
    "script_context \<Rightarrow> 'pk key_ops \<Rightarrow> 'pk miniscript \<Rightarrow> ctx_error + unit" where
  "check_global_consensus_validity ctx K ms =
     (if ctx = NoChecks then Inr ()
      else (case check_node ctx K (ms_node ms) of
              Inl e \<Rightarrow> Inl e
            | Inr _ \<Rightarrow> size_limit_error ctx (pk_cost (ms_ext ms))))"

definition check_global_policy_validity :: "script_context \<Rightarrow> 'pk miniscript \<Rightarrow> ctx_error + unit" where
  "check_global_policy_validity ctx ms =
     (if ctx = Segwitv0 \<and> pk_cost (ms_ext ms) > MAX_STANDARD_P2WSH_SCRIPT_SIZE
      then Inl (MaxWitnessScriptSizeExceeded MAX_STANDARD_P2WSH_SCRIPT_SIZE (pk_cost (ms_ext ms)))
      else Inr ())"

definition check_local_consensus_validity :: "script_context \<Rightarrow> 'pk miniscript \<Rightarrow> ctx_error + unit" where
  "check_local_consensus_validity ctx ms =
     (case ctx of
        NoChecks \<Rightarrow> Inr ()
      | Tap \<Rightarrow>
          (case sat_data (ms_ext ms) of
             None \<Rightarrow> Inr ()
           | Some d \<Rightarrow>
               if max_witness_stack_count d + max_exec_stack_count d > MAX_STACK_SIZE
               then Inl (StackSizeLimitExceeded
                      (max_witness_stack_count d + max_exec_stack_count d) MAX_STACK_SIZE)
               else Inr ())
      | _ \<Rightarrow>
          (case sat_op_count (ms_ext ms) of
             None \<Rightarrow> Inl CtxImpossibleSatisfaction
           | Some c \<Rightarrow>
               if c > MAX_OPS_PER_SCRIPT then Inl (MaxOpCountExceeded c MAX_OPS_PER_SCRIPT)
               else Inr ()))"

text \<open>The outer option is the panic of \<open>NoChecks\<close>.\<close>

definition ctx_max_satisfaction_size :: "script_context \<Rightarrow> 'pk miniscript \<Rightarrow> nat option option" where
  "ctx_max_satisfaction_size ctx ms =
     (case ctx of
        NoChecks \<Rightarrow> None
      | Legacy \<Rightarrow> Some (map_option max_script_sig_size (sat_data (ms_ext ms)))
      | BareCtx \<Rightarrow> Some (map_option max_script_sig_size (sat_data (ms_ext ms)))
      | _ \<Rightarrow> Some (map_option max_witness_stack_size (sat_data (ms_ext ms))))"

definition max_satisfaction_witness_elements :: "'pk miniscript \<Rightarrow> nat option" where
  "max_satisfaction_witness_elements ms =
     map_option (\<lambda>d. max_witness_stack_count d + 1) (sat_data (ms_ext ms))"

definition check_local_policy_validity :: "script_context \<Rightarrow> 'pk miniscript \<Rightarrow> ctx_error + unit" where
  "check_local_policy_validity ctx ms =
     (case ctx of
        Legacy \<Rightarrow>
          (case map_option max_script_sig_size (sat_data (ms_ext ms)) of
             None \<Rightarrow> Inl CtxImpossibleSatisfaction
           | Some sz \<Rightarrow>
               if sz > MAX_SCRIPTSIG_SIZE then Inl (MaxScriptSigSizeExceeded sz MAX_SCRIPTSIG_SIZE)
               else Inr ())
      | Segwitv0 \<Rightarrow>
          (case max_satisfaction_witness_elements ms of
             None \<Rightarrow> Inl CtxImpossibleSatisfaction
           | Some c \<Rightarrow>
               if c > MAX_STANDARD_P2WSH_STACK_ITEMS
               then Inl (MaxWitnessItemsExceeded c MAX_STANDARD_P2WSH_STACK_ITEMS)
               else Inr ())
      | _ \<Rightarrow> Inr ())"

definition and_then_check :: "'e + unit \<Rightarrow> 'e + unit \<Rightarrow> 'e + unit" where
  "and_then_check a b = (case a of Inl e \<Rightarrow> Inl e | Inr _ \<Rightarrow> b)"

definition check_global_validity ::
    "script_context \<Rightarrow> 'pk key_ops \<Rightarrow> 'pk miniscript \<Rightarrow> ctx_error + unit" where
  "check_global_validity ctx K ms =
     and_then_check (check_global_consensus_validity ctx K ms) (check_global_policy_validity ctx ms)"

definition check_local_validity ::
    "script_context \<Rightarrow> 'pk key_ops \<Rightarrow> 'pk miniscript \<Rightarrow> ctx_error + unit" where
  "check_local_validity ctx K ms =
     and_then_check (check_global_consensus_validity ctx K ms)
       (and_then_check (check_global_policy_validity ctx ms)
         (and_then_check (check_local_consensus_validity ctx ms)
           (check_local_policy_validity ctx ms)))"

subsection \<open>Building a miniscript\<close>

datatype ms_error =
    TypeCheckError error_kind
  | MaxRecursiveDepthExceeded
  | ContextError ctx_error
  | NonTopLevel
  | MultipathDescLenMismatch
  | NonStandardBareScript
  | ImpossibleSatisfaction
  | CouldNotSatisfy

definition from_ast ::
    "btc \<Rightarrow> 'pk key_ops \<Rightarrow> script_context \<Rightarrow> ('pk, 'pk miniscript) terminal
      \<Rightarrow> ms_error + 'pk miniscript" where
  "from_ast L K ctx t =
     (case ty_check t of
        Inl e \<Rightarrow> Inl (TypeCheckError e)
      | Inr ty \<Rightarrow>
          (let res = Miniscript t ty (ext_check L K ctx t) in
           if tree_height (ms_ext res) > MAX_RECURSION_DEPTH then Inl MaxRecursiveDepthExceeded
           else (case check_global_validity ctx K res of
                   Inl e \<Rightarrow> Inl (ContextError e)
                 | Inr _ \<Rightarrow> Inr res)))"

subsection \<open>Top-level checks\<close>

text \<open>The number of derivation paths of the keys, recorded by a closure over \<open>for_each_key\<close>.\<close>

datatype multipath_len_checker = SinglePath | MultipathLen nat | LenMismatch

fun multipath_step :: "multipath_len_checker \<Rightarrow> nat \<Rightarrow> multipath_len_checker" where
  "multipath_step c n =
     (if n = 0 \<or> n = 1 then c
      else (case c of
              SinglePath \<Rightarrow> MultipathLen n
            | MultipathLen len \<Rightarrow> (if len \<noteq> n then LenMismatch else MultipathLen len)
            | LenMismatch \<Rightarrow> LenMismatch))"

definition top_level_type_check ::
    "script_context \<Rightarrow> 'pk key_ops \<Rightarrow> 'pk miniscript \<Rightarrow> ms_error + unit" where
  "top_level_type_check ctx K ms =
     (if base (corr (ms_ty ms)) \<noteq> BaseB then Inl NonTopLevel
      else if ctx = NoChecks then Inr ()
      else if foldl multipath_step SinglePath (map (num_der_paths K) (all_keys ms)) = LenMismatch
      then Inl MultipathDescLenMismatch
      else Inr ())"

definition other_top_level_checks :: "script_context \<Rightarrow> 'pk miniscript \<Rightarrow> ms_error + unit" where
  "other_top_level_checks ctx ms =
     (if ctx \<noteq> BareCtx then Inr ()
      else (case ms_node ms of
              Check x \<Rightarrow>
                (case ms_node x of
                   RawPkH _ \<Rightarrow> Inr ()
                 | PkK _ \<Rightarrow> Inr ()
                 | PkH _ \<Rightarrow> Inr ()
                 | _ \<Rightarrow> Inl NonStandardBareScript)
            | Multi t \<Rightarrow> (if thr_n t \<le> 3 then Inr () else Inl NonStandardBareScript)
            | _ \<Rightarrow> Inl NonStandardBareScript))"

definition top_level_checks ::
    "script_context \<Rightarrow> 'pk key_ops \<Rightarrow> 'pk miniscript \<Rightarrow> ms_error + unit" where
  "top_level_checks ctx K ms =
     and_then_check (top_level_type_check ctx K ms) (other_top_level_checks ctx ms)"

end
