(* ===== verification/TypeCheck.thy ===== *)
theory TypeCheck
  imports Ast
begin

section \<open>Well-typed miniscripts\<close>

text \<open>
  What \<open>from_ast\<close> guarantees.  \<open>node_ok\<close> states what the Rust types of the arguments of a
  fragment guarantee already (thresholds made by their validating constructors, hashes of fixed
  length, consensus locktimes); \<open>typed_ms\<close> says that the type cached at every node is the one
  \<open>type_check\<close> computes, \<open>ext_ms\<close> the same for the extra data.
\<close>

fun node_ok :: "('pk, 'c) terminal \<Rightarrow> bool" where
  "node_ok (Thresh t) = wf_threshold 0 t"
| "node_ok (Multi t) = wf_threshold MAX_PUBKEYS_PER_MULTISIG t"
| "node_ok (MultiA t) = wf_threshold MAX_PUBKEYS_IN_CHECKSIGADD t"
| "node_ok (RawPkH h) = (length h = 20)"
| "node_ok (Sha256 h) = (length h = 32)"
| "node_ok (Hash256 h) = (length h = 32)"
| "node_ok (Ripemd160 h) = (length h = 20)"
| "node_ok (Hash160 h) = (length h = 20)"
| "node_ok (TxTemplate h) = (length h = 32)"
| "node_ok _ = True"

fun typed_ms :: "'pk miniscript \<Rightarrow> bool" where
  "typed_ms (Miniscript n ty ext) =
     (node_ok n \<and> ty_check n = Inr ty \<and> (\<forall>c \<in> set (children n). typed_ms c))"

fun ext_ms :: "btc \<Rightarrow> 'pk key_ops \<Rightarrow> script_context \<Rightarrow> 'pk miniscript \<Rightarrow> bool" where
  "ext_ms L K ctx (Miniscript n ty ext) =
     (ext = ext_check L K ctx n \<and> (\<forall>c \<in> set (children n). ext_ms L K ctx c))"

subsection \<open>Types of a fragment\<close>

lemma ty_inv_check:
  assumes "node_ok n" and "\<And>c. c \<in> set (children n) \<Longrightarrow> ty_inv (ms_ty c)" and "ty_check n = Inr ty"
  shows "ty_inv ty"
proof (cases n)
  case (Thresh t)
  with assms have "0 < thr_k t" "thr_data t \<noteq> []"
    by (auto simp: wf_threshold_def thr_n_def)
  moreover have "ty_inv s" if "s \<in> set (map ms_ty (thr_data t))" for s
    using that assms(2) Thresh by auto
  moreover have "ty_threshold (thr_k t) (map ms_ty (thr_data t)) = Inr ty"
    using assms(3) Thresh by simp
  ultimately show ?thesis
    using ty_inv_threshold [of "map ms_ty (thr_data t)" "thr_k t" ty] by blast
next
  case (Alt x) with assms show ?thesis using ty_inv_casts(1) [of "ms_ty x"] by simp
next
  case (Swap x) with assms show ?thesis using ty_inv_casts(2) [of "ms_ty x"] by simp
next
  case (Check x) with assms show ?thesis using ty_inv_casts(3) [of "ms_ty x"] by simp
next
  case (DupIf x) with assms show ?thesis using ty_inv_casts(4) [of "ms_ty x"] by simp
next
  case (Verify x) with assms show ?thesis using ty_inv_casts(5) [of "ms_ty x"] by simp
next
  case (NonZero x) with assms show ?thesis using ty_inv_casts(6) [of "ms_ty x"] by simp
next
  case (ZeroNotEqual x) with assms show ?thesis using ty_inv_casts(7) [of "ms_ty x"] by simp
next
  case (AndB x y) with assms show ?thesis using ty_inv_and_b [of "ms_ty x" "ms_ty y"] by simp
next
  case (AndV x y) with assms show ?thesis using ty_inv_and_v [of "ms_ty x" "ms_ty y"] by simp
next
  case (OrB x y) with assms show ?thesis using ty_inv_or_b [of "ms_ty x" "ms_ty y"] by simp
next
  case (OrD x y) with assms show ?thesis using ty_inv_or_d [of "ms_ty x" "ms_ty y"] by simp
next
  case (OrC x y) with assms show ?thesis using ty_inv_or_c [of "ms_ty x" "ms_ty y"] by simp
next
  case (OrI x y) with assms show ?thesis using ty_inv_or_i [of "ms_ty x" "ms_ty y"] by simp
next
  case (AndOr x y z) with assms show ?thesis using ty_inv_and_or [of "ms_ty x" "ms_ty y" "ms_ty z"] by simp
qed (use assms in \<open>auto split: if_splits\<close>)

lemma typed_ty_inv: "typed_ms ms \<Longrightarrow> ty_inv (ms_ty ms)"
proof (induction ms rule: typed_ms.induct)
  case (1 n ty ext)
  then show ?case by (auto intro: ty_inv_check [of n ty])
qed

lemma typed_children: "typed_ms ms \<Longrightarrow> c \<in> set (children (ms_node ms)) \<Longrightarrow> typed_ms c"
  by (cases ms) auto

lemma typed_pre_order: "typed_ms ms \<Longrightarrow> x \<in> set (pre_order ms) \<Longrightarrow> typed_ms x"
  by (induction ms rule: pre_order.induct) auto

lemma from_ast_Inr:
  assumes "from_ast L K ctx t = Inr ms"
  shows "ms = Miniscript t (ms_ty ms) (ext_check L K ctx t)" "ty_check t = Inr (ms_ty ms)"
    "tree_height (ms_ext ms) \<le> MAX_RECURSION_DEPTH" "check_global_validity ctx K ms = Inr ()"
  using assms by (auto simp: from_ast_def Let_def split: sum.splits if_splits)

lemma from_ast_wf:
  assumes "from_ast L K ctx t = Inr ms" and "node_ok t"
    and "\<And>c. c \<in> set (children t) \<Longrightarrow> typed_ms c \<and> ext_ms L K ctx c"
  shows "typed_ms ms \<and> ext_ms L K ctx ms"
  using from_ast_Inr [OF assms(1)] assms(2,3)
  by (cases ms) auto

subsection \<open>Monotonicity of type checking\<close>

lemma ty_check_mono:
  assumes "rel_terminal (=) (\<lambda>a b. ty_is_subtype (ms_ty a) (ms_ty b)) n' n" and "ty_check n = Inr ty"
  shows "\<exists>ty'. ty_check n' = Inr ty' \<and> ty_is_subtype ty' ty"
proof (cases n)
  case (Thresh t)
  with assms(1) obtain t' where n': "n' = Thresh t'"
    and rel: "rel_threshold (\<lambda>a b. ty_is_subtype (ms_ty a) (ms_ty b)) t' t"
    by (cases n') auto
  then have "thr_k t' = thr_k t" and "list_all2 ty_is_subtype (map ms_ty (thr_data t')) (map ms_ty (thr_data t))"
    by (cases t; cases t'; simp add: list_all2_conv_all_nth)+
  with ty_threshold_mono [of "map ms_ty (thr_data t')" "map ms_ty (thr_data t)" "thr_k t" ty]
    assms(2) Thresh n' show ?thesis by simp
next
  case AndB with assms show ?thesis by (cases n') (auto dest: ty_and_b_mono)
next
  case AndV with assms show ?thesis by (cases n') (auto dest: ty_and_v_mono)
next
  case OrB with assms show ?thesis by (cases n') (auto dest: ty_or_b_mono)
next
  case OrD with assms show ?thesis by (cases n') (auto dest: ty_or_d_mono)
next
  case OrC with assms show ?thesis by (cases n') (auto dest: ty_or_c_mono)
next
  case OrI with assms show ?thesis by (cases n') (auto dest: ty_or_i_mono)
next
  case AndOr with assms show ?thesis by (cases n') (auto dest: ty_and_or_mono)
qed (use assms in \<open>cases n'; auto dest: ty_casts_mono split: if_splits\<close>)+

end
