(* ===== verification/Encode.thy ===== *)
theory Encode
  imports TypeCheck
begin

section \<open>Encoding to Script and the size of the script\<close>

text \<open>
  \<open>Terminal::encode\<close> of \<^verbatim>\<open>miniscript/astelem.rs\<close> with the key-pushing helpers of
  \<^verbatim>\<open>util.rs\<close>, \<open>Miniscript::script_size\<close>, and the theorems that relate the two and
  the \<open>pk_cost\<close> bound that the context checks use.  What the code relies on about the library's
  \<open>script::Builder\<close> is the predicate \<open>builder_laws\<close>.
\<close>

subsection \<open>Encoding\<close>

fun push_ms_key :: "btc \<Rightarrow> 'pk key_ops \<Rightarrow> script_context \<Rightarrow> 'pk \<Rightarrow> builder_call" where
  "push_ms_key L K ctx pk =
     (case ctx_sig_type ctx of
        Ecdsa \<Rightarrow> PushKey (to_public_key K pk)
      | Schnorr \<Rightarrow> PushSlice (xonly_serialize L (to_x_only_pubkey K pk)))"

text \<open>\<open>PubkeyHash\<close> is the \<open>HASH160\<close> of the serialized key.\<close>

fun push_ms_key_hash :: "btc \<Rightarrow> 'pk key_ops \<Rightarrow> script_context \<Rightarrow> 'pk \<Rightarrow> builder_call" where
  "push_ms_key_hash L K ctx pk =
     (case ctx_sig_type ctx of
        Ecdsa \<Rightarrow> PushSlice (hash160_hash L (pubkey_to_bytes L (to_public_key K pk)))
      | Schnorr \<Rightarrow> PushSlice (hash160_hash L (xonly_serialize L (to_x_only_pubkey K pk))))"

definition hash_calls :: "opcode \<Rightarrow> hash \<Rightarrow> builder" where
  "hash_calls op h =
     [PushOpcode OP_SIZE, PushInt 32, PushOpcode OP_EQUALVERIFY, PushOpcode op, PushSlice h,
      PushOpcode OP_EQUAL]"

definition append_inscriptions :: "inscription list \<Rightarrow> builder \<Rightarrow> builder" where
  "append_inscriptions ins b = foldl (\<lambda>b i. append_reveal_script_to_builder i b) b ins"

text \<open>\<open>None\<close> is the index panic on an empty threshold, whose first child (key) is taken apart.\<close>

fun encode ::
    "btc \<Rightarrow> 'pk key_ops \<Rightarrow> script_context \<Rightarrow> builder \<Rightarrow> 'pk miniscript \<Rightarrow> builder option" where
  "encode L K ctx b (Miniscript (PkK pk) ty ext) = Some (b @ [push_ms_key L K ctx pk])"
| "encode L K ctx b (Miniscript (PkH pk) ty ext) =
     Some (b @ [PushOpcode OP_DUP, PushOpcode OP_HASH160, push_ms_key_hash L K ctx pk,
                PushOpcode OP_EQUALVERIFY])"
| "encode L K ctx b (Miniscript (RawPkH h) ty ext) =
     Some (b @ [PushOpcode OP_DUP, PushOpcode OP_HASH160, PushSlice h, PushOpcode OP_EQUALVERIFY])"
| "encode L K ctx b (Miniscript (After t) ty ext) =
     Some (b @ [PushInt (uint (abs_to_consensus_u32 t)), PushOpcode OP_CLTV])"
| "encode L K ctx b (Miniscript (Older t) ty ext) =
     Some (b @ [PushInt (uint (rel_to_consensus_u32 t)), PushOpcode OP_CSV])"
| "encode L K ctx b (Miniscript (Sha256 h) ty ext) = Some (b @ hash_calls OP_SHA256 h)"
| "encode L K ctx b (Miniscript (Hash256 h) ty ext) = Some (b @ hash_calls OP_HASH256 h)"
| "encode L K ctx b (Miniscript (Ripemd160 h) ty ext) = Some (b @ hash_calls OP_RIPEMD160 h)"
| "encode L K ctx b (Miniscript (Hash160 h) ty ext) = Some (b @ hash_calls OP_HASH160 h)"
| "encode L K ctx b (Miniscript (TxTemplate h) ty ext) =
     Some (b @ [PushSlice h, PushOpcode OP_NOP4, PushOpcode OP_DROP])"
| "encode L K ctx b (Miniscript (InscribePre ins x) ty ext) =
     encode L K ctx (append_inscriptions ins b) x"
| "encode L K ctx b (Miniscript (InscribePost ins x) ty ext) =
     do { b \<leftarrow> encode L K ctx b x; Some (append_inscriptions ins b) }"
| "encode L K ctx b (Miniscript TrueT ty ext) = Some (b @ [PushOpcode OP_TRUE])"
| "encode L K ctx b (Miniscript FalseT ty ext) = Some (b @ [PushOpcode OP_FALSE])"
| "encode L K ctx b (Miniscript (Alt x) ty ext) =
     do { b \<leftarrow> encode L K ctx (b @ [PushOpcode OP_TOALTSTACK]) x;
          Some (b @ [PushOpcode OP_FROMALTSTACK]) }"
| "encode L K ctx b (Miniscript (Swap x) ty ext) = encode L K ctx (b @ [PushOpcode OP_SWAP]) x"
| "encode L K ctx b (Miniscript (Check x) ty ext) =
     do { b \<leftarrow> encode L K ctx b x; Some (b @ [PushOpcode OP_CHECKSIG]) }"
| "encode L K ctx b (Miniscript (DupIf x) ty ext) =
     do { b \<leftarrow> encode L K ctx (b @ [PushOpcode OP_DUP, PushOpcode OP_IF]) x;
          Some (b @ [PushOpcode OP_ENDIF]) }"
| "encode L K ctx b (Miniscript (Verify x) ty ext) =
     do { b \<leftarrow> encode L K ctx b x; Some (b @ [PushVerify]) }"
| "encode L K ctx b (Miniscript (NonZero x) ty ext) =
     do { b \<leftarrow> encode L K ctx (b @ [PushOpcode OP_SIZE, PushOpcode OP_0NOTEQUAL, PushOpcode OP_IF]) x;
          Some (b @ [PushOpcode OP_ENDIF]) }"
| "encode L K ctx b (Miniscript (ZeroNotEqual x) ty ext) =
     do { b \<leftarrow> encode L K ctx b x; Some (b @ [PushOpcode OP_0NOTEQUAL]) }"
| "encode L K ctx b (Miniscript (AndV x y) ty ext) =
     do { b \<leftarrow> encode L K ctx b x; encode L K ctx b y }"
| "encode L K ctx b (Miniscript (AndB x y) ty ext) =
     do { b \<leftarrow> encode L K ctx b x; b \<leftarrow> encode L K ctx b y; Some (b @ [PushOpcode OP_BOOLAND]) }"
| "encode L K ctx b (Miniscript (AndOr x y z) ty ext) =
     do { b \<leftarrow> encode L K ctx b x;
          b \<leftarrow> encode L K ctx (b @ [PushOpcode OP_NOTIF]) z;
          b \<leftarrow> encode L K ctx (b @ [PushOpcode OP_ELSE]) y;
          Some (b @ [PushOpcode OP_ENDIF]) }"
| "encode L K ctx b (Miniscript (OrB x y) ty ext) =
     do { b \<leftarrow> encode L K ctx b x; b \<leftarrow> encode L K ctx b y; Some (b @ [PushOpcode OP_BOOLOR]) }"
| "encode L K ctx b (Miniscript (OrD x y) ty ext) =
     do { b \<leftarrow> encode L K ctx b x;
          b \<leftarrow> encode L K ctx (b @ [PushOpcode OP_IFDUP, PushOpcode OP_NOTIF]) y;
          Some (b @ [PushOpcode OP_ENDIF]) }"
| "encode L K ctx b (Miniscript (OrC x y) ty ext) =
     do { b \<leftarrow> encode L K ctx b x;
          b \<leftarrow> encode L K ctx (b @ [PushOpcode OP_NOTIF]) y;
          Some (b @ [PushOpcode OP_ENDIF]) }"
| "encode L K ctx b (Miniscript (OrI x y) ty ext) =
     do { b \<leftarrow> encode L K ctx (b @ [PushOpcode OP_IF]) x;
          b \<leftarrow> encode L K ctx (b @ [PushOpcode OP_ELSE]) y;
          Some (b @ [PushOpcode OP_ENDIF]) }"
| "encode L K ctx b (Miniscript (Thresh (Threshold k xs)) ty ext) =
     (case xs of
        [] \<Rightarrow> None
      | x # rest \<Rightarrow>
          do { b \<leftarrow> encode L K ctx b x;
               b \<leftarrow> foldM (\<lambda>b y. do { b \<leftarrow> encode L K ctx b y; Some (b @ [PushOpcode OP_ADD]) }) b rest;
               Some (b @ [PushInt (int k), PushOpcode OP_EQUAL]) })"
| "encode L K ctx b (Miniscript (Multi t) ty ext) =
     Some (b @ [PushInt (int (thr_k t))]
             @ map (\<lambda>pk. PushKey (to_public_key K pk)) (thr_data t)
             @ [PushInt (int (thr_n t)), PushOpcode OP_CHECKMULTISIG])"
| "encode L K ctx b (Miniscript (MultiA t) ty ext) =
     (case thr_data t of
        [] \<Rightarrow> None
      | pk # rest \<Rightarrow>
          Some (b @ [push_ms_key L K ctx pk, PushOpcode OP_CHECKSIG]
                  @ concat (map (\<lambda>pk. [push_ms_key L K ctx pk, PushOpcode OP_CHECKSIGADD]) rest)
                  @ [PushInt (int (thr_k t)), PushOpcode OP_NUMEQUAL]))"

subsection \<open>Script size\<close>

definition sum_pk_len :: "'pk key_ops \<Rightarrow> script_context \<Rightarrow> 'pk list \<Rightarrow> nat option" where
  "sum_pk_len K ctx pks =
     map_option sum_list (mapM (\<lambda>pk. ctx_pk_len ctx (is_uncompressed K pk)) pks)"

fun node_size :: "btc \<Rightarrow> 'pk key_ops \<Rightarrow> script_context \<Rightarrow> ('pk, 'pk miniscript) terminal \<Rightarrow> nat option"
  where
  "node_size L K ctx (TxTemplate _) = Some 35"
| "node_size L K ctx (InscribePre ins _) = Some (sum_list (map (size_guess L) ins))"
| "node_size L K ctx (InscribePost ins _) = Some (sum_list (map (size_guess L) ins))"
| "node_size L K ctx (AndV _ _) = Some 0"
| "node_size L K ctx TrueT = Some 1"
| "node_size L K ctx FalseT = Some 1"
| "node_size L K ctx (Swap _) = Some 1"
| "node_size L K ctx (Check _) = Some 1"
| "node_size L K ctx (ZeroNotEqual _) = Some 1"
| "node_size L K ctx (AndB _ _) = Some 1"
| "node_size L K ctx (OrB _ _) = Some 1"
| "node_size L K ctx (Alt _) = Some 2"
| "node_size L K ctx (OrC _ _) = Some 2"
| "node_size L K ctx (DupIf _) = Some 3"
| "node_size L K ctx (AndOr _ _ _) = Some 3"
| "node_size L K ctx (OrD _ _) = Some 3"
| "node_size L K ctx (OrI _ _) = Some 3"
| "node_size L K ctx (NonZero _) = Some 4"
| "node_size L K ctx (PkH _) = Some 24"
| "node_size L K ctx (RawPkH _) = Some 24"
| "node_size L K ctx (Ripemd160 _) = Some (21 + 6)"
| "node_size L K ctx (Hash160 _) = Some (21 + 6)"
| "node_size L K ctx (Sha256 _) = Some (33 + 6)"
| "node_size L K ctx (Hash256 _) = Some (33 + 6)"
| "node_size L K ctx (PkK pk) = ctx_pk_len ctx (is_uncompressed K pk)"
| "node_size L K ctx (After t) = Some (script_num_size (unat (abs_to_consensus_u32 t)) + 1)"
| "node_size L K ctx (Older t) = Some (script_num_size (unat (rel_to_consensus_u32 t)) + 1)"
| "node_size L K ctx (Verify x) = Some (if \<not> has_free_verify (ms_ext x) then 1 else 0)"
| "node_size L K ctx (Thresh t) = Some (script_num_size (thr_k t) + 1 + thr_n t - 1)"
| "node_size L K ctx (Multi t) =
     do { keys \<leftarrow> sum_pk_len K ctx (thr_data t);
          Some (script_num_size (thr_k t) + 1 + script_num_size (thr_n t) + keys) }"
| "node_size L K ctx (MultiA t) =
     do { keys \<leftarrow> sum_pk_len K ctx (thr_data t);
          Some (script_num_size (thr_k t) + 1 + keys + thr_n t) }"

definition script_size :: "btc \<Rightarrow> 'pk key_ops \<Rightarrow> script_context \<Rightarrow> 'pk miniscript \<Rightarrow> nat option" where
  "script_size L K ctx ms =
     foldM (\<lambda>len x. do { s \<leftarrow> node_size L K ctx (ms_node x); Some (len + s) }) 0 (pre_order ms)"

subsection \<open>The builder\<close>

definition free_verify_call :: "builder_call \<Rightarrow> bool" where
  "free_verify_call c =
     (c \<in> {PushOpcode OP_EQUAL, PushOpcode OP_NUMEQUAL, PushOpcode OP_CHECKSIG,
           PushOpcode OP_CHECKMULTISIG})"

definition ends_free :: "builder \<Rightarrow> bool" where
  "ends_free b = (b \<noteq> [] \<and> free_verify_call (last b))"

fun call_len :: "builder_call \<Rightarrow> nat" where
  "call_len (PushOpcode _) = 1"
| "call_len (PushSlice x) = push_opcode_size (length x) + length x"
| "call_len (PushInt n) = script_num_size (nat n)"
| "call_len (PushKey pk) = (if compressed pk then 34 else 66)"
| "call_len PushVerify = 1"

text \<open>The calls whose length is documented: a script number of at most five bytes that is not negative, and
  data that fits the largest push opcode.\<close>

fun small_call :: "builder_call \<Rightarrow> bool" where
  "small_call (PushInt n) = (0 \<le> n \<and> n < 2 ^ 39)"
| "small_call (PushSlice x) = (length x < 2 ^ 32)"
| "small_call PushVerify = False"
| "small_call _ = True"

text \<open>The documented behaviour of \<open>script::Builder\<close>: a call appends its bytes, an opcode is one byte, a
  slice follows its push opcode, a small number is an opcode, other numbers are pushed as script numbers, and
  \<open>push_verify\<close> folds into a last opcode that has a \<open>VERIFY\<close> form.  Hashes and x-only keys are byte
  arrays of fixed length.\<close>

definition builder_laws :: "btc \<Rightarrow> bool" where
  "builder_laws L \<longleftrightarrow>
     builder_len L [] = 0
     \<and> (\<forall>b c. c \<noteq> PushVerify \<longrightarrow> builder_len L (b @ [c]) = builder_len L b + builder_len L [c])
     \<and> (\<forall>c. small_call c \<longrightarrow> builder_len L [c] = call_len c)
     \<and> (\<forall>b. builder_len L (b @ [PushVerify]) = builder_len L b + (if ends_free b then 0 else 1))
     \<and> (\<forall>x. length (hash160_hash L x) = 20) \<and> (\<forall>x. length (xonly_serialize L x) = 32)"

definition key_laws :: "'pk key_ops \<Rightarrow> bool" where
  "key_laws K \<longleftrightarrow> (\<forall>pk. is_uncompressed K pk = (\<not> compressed (to_public_key K pk)))"

lemma builder_len_calls:
  assumes "builder_laws L" and "PushVerify \<notin> set cs"
  shows "builder_len L (b @ cs) = builder_len L b + sum_list (map (\<lambda>c. builder_len L [c]) cs)"
  using assms(2)
proof (induction cs arbitrary: b)
  case Nil
  then show ?case by simp
next
  case (Cons c cs)
  have "builder_len L (b @ c # cs) = builder_len L ((b @ [c]) @ cs)" by simp
  also have "\<dots> = builder_len L (b @ [c]) + sum_list (map (\<lambda>c. builder_len L [c]) cs)"
    using Cons.IH [of "b @ [c]"] Cons.prems by simp
  also have "builder_len L (b @ [c]) = builder_len L b + builder_len L [c]"
    using assms(1) Cons.prems by (auto simp: builder_laws_def)
  finally show ?case by simp
qed

lemma builder_len_append:
  assumes "builder_laws L" and "list_all small_call cs"
  shows "builder_len L (b @ cs) = builder_len L b + sum_list (map call_len cs)"
proof -
  have "map (\<lambda>c. builder_len L [c]) cs = map call_len cs"
    using assms by (auto simp: builder_laws_def list_all_iff)
  moreover have "PushVerify \<notin> set cs" using assms(2) by (auto simp: list_all_iff)
  ultimately show ?thesis using builder_len_calls [OF assms(1)] by metis
qed

lemma u32_small [simp]: "uint (w :: u32) < 549755813888"
  using uint_lt2p [of w] by simp

lemma ends_free_append [simp]:
  "ends_free (b @ [c]) = free_verify_call c"
  "cs \<noteq> [] \<Longrightarrow> ends_free (b @ cs) = ends_free cs"
  "ends_free (c # cs) = (if cs = [] then free_verify_call c else ends_free cs)"
  by (auto simp: ends_free_def)

lemma free_verify_call_simps [simp]:
  "free_verify_call (PushOpcode op) =
     (op = OP_EQUAL \<or> op = OP_NUMEQUAL \<or> op = OP_CHECKSIG \<or> op = OP_CHECKMULTISIG)"
  "\<not> free_verify_call (PushSlice x)" "\<not> free_verify_call (PushInt n)"
  "\<not> free_verify_call (PushKey pk)" "\<not> free_verify_call PushVerify"
  by (auto simp: free_verify_call_def)

lemma append_reveal_eq:
  "append_reveal_script_to_builder i b = b @ append_reveal_script_to_builder i []"
  by (simp add: append_reveal_script_to_builder_def)

lemma append_reveal_last: "append_reveal_script_to_builder i b \<noteq> []"
  "last (append_reveal_script_to_builder i b) = PushOpcode OP_ENDIF"
  by (simp_all add: append_reveal_script_to_builder_def)

lemma reveal_no_verify: "PushVerify \<notin> set (append_reveal_script_to_builder i [])"
  by (auto simp: append_reveal_script_to_builder_def tag_encode_def split: option.splits if_splits)

lemma builder_len_inscriptions:
  assumes "builder_laws L"
  shows "builder_len L (append_inscriptions ins b) = builder_len L b + sum_list (map (size_guess L) ins)"
  unfolding append_inscriptions_def
proof (induction ins arbitrary: b)
  case Nil
  then show ?case by simp
next
  case (Cons i ins)
  have "builder_len L (append_reveal_script_to_builder i b) = builder_len L b + size_guess L i"
    using builder_len_calls [OF assms reveal_no_verify, of b i] assms
      builder_len_calls [OF assms reveal_no_verify, of "[]" i]
    by (subst append_reveal_eq) (simp add: size_guess_def builder_laws_def)
  with Cons show ?case by simp
qed

lemma append_inscriptions_ends:
  "ins \<noteq> [] \<Longrightarrow> \<not> ends_free (append_inscriptions ins b)"
  by (cases ins rule: rev_cases)
    (simp_all add: append_inscriptions_def ends_free_def append_reveal_last)

subsection \<open>The size by recursion on the tree\<close>

lemma ms_induct [case_names Node]:
  assumes "\<And>n ty ext. (\<And>c. c \<in> set (children n) \<Longrightarrow> P c) \<Longrightarrow> P (Miniscript n ty ext)"
  shows "P ms"
  by (induction ms rule: pre_order.induct) (rule assms)

lemma script_size_eq:
  "script_size L K ctx ms = map_option sum_list (mapM (\<lambda>x. node_size L K ctx (ms_node x)) (pre_order ms))"
  unfolding script_size_def foldM_sum by simp

lemma map_option_bind: "map_option f (x \<bind> g) = x \<bind> (\<lambda>y. map_option f (g y))"
  by (cases x) auto

lemma mapM_map_option: "mapM (\<lambda>x. map_option f (g x)) xs = map_option (map f) (mapM g xs)"
  by (induction xs) (auto simp: map_option_case split: bind_split option.splits)

lemma sum_list_concat_eq: "sum_list (concat xss) = sum_list (map sum_list xss)" for xss :: "nat list list"
  by (induction xss) auto

lemma script_size_rec:
  "script_size L K ctx (Miniscript n ty ext) =
     do { s \<leftarrow> node_size L K ctx n;
          ss \<leftarrow> mapM (script_size L K ctx) (children n);
          Some (s + sum_list ss) }"
proof -
  let ?f = "\<lambda>x. node_size L K ctx (ms_node x)"
  have "mapM (script_size L K ctx) (children n) =
      map_option (map sum_list) (mapM (mapM ?f \<circ> pre_order) (children n))"
    unfolding script_size_eq mapM_map_option o_def ..
  then show ?thesis
    unfolding script_size_eq
    by (cases "node_size L K ctx n"; cases "mapM (mapM ?f \<circ> pre_order) (children n)")
      (auto simp: mapM_concat mapM_map sum_list_concat_eq)
qed


subsection \<open>What \<open>from_ast\<close> builds\<close>

fun built :: "btc \<Rightarrow> 'pk key_ops \<Rightarrow> script_context \<Rightarrow> 'pk miniscript \<Rightarrow> bool" where
  "built L K ctx (Miniscript n ty ext) =
     (node_ok n \<and> from_ast L K ctx n = Inr (Miniscript n ty ext)
      \<and> (\<forall>c \<in> set (children n). built L K ctx c))"

lemma built_typed: "built L K ctx ms \<Longrightarrow> typed_ms ms \<and> ext_ms L K ctx ms"
proof (induction ms rule: ms_induct)
  case (Node n ty ext)
  then show ?case using from_ast_wf [of L K ctx n "Miniscript n ty ext"] by auto
qed

lemma built_node:
  assumes "built L K ctx (Miniscript n ty ext)" and "ctx \<noteq> NoChecks"
  shows "ext = ext_check L K ctx n" "ty_check n = Inr ty" "node_ok n" "check_node ctx K n = Inr ()"
    "size_limit_error ctx (pk_cost ext) = Inr ()"
    "\<And>c. c \<in> set (children n) \<Longrightarrow> built L K ctx c"
  using assms from_ast_Inr [of L K ctx n "Miniscript n ty ext"]
  by (auto simp: check_global_validity_def check_global_consensus_validity_def and_then_check_def
      split: sum.splits)

lemma check_pks_ok_iff: "check_pks ctx K pks = Inr () \<longleftrightarrow> (\<forall>pk \<in> set pks. check_pk ctx K pk = Inr ())"
  by (induction pks) (auto split: sum.splits)

lemma key_call_len:
  assumes "key_laws K" "builder_laws L" "check_pk ctx K pk = Inr ()" "ctx \<noteq> NoChecks"
  shows "ctx_pk_len ctx (is_uncompressed K pk) = Some (call_len (push_ms_key L K ctx pk))"
  using assms by (cases ctx) (auto simp: key_laws_def builder_laws_def push_opcode_size_def split: if_splits)

lemma sum_pk_len_eq:
  assumes "\<And>pk. pk \<in> set pks \<Longrightarrow> ctx_pk_len ctx (is_uncompressed K pk) = Some (f pk)"
  shows "sum_pk_len K ctx pks = Some (sum_list (map f pks))"
proof -
  have "mapM (\<lambda>pk. ctx_pk_len ctx (is_uncompressed K pk)) pks = mapM (\<lambda>pk. Some (f pk)) pks"
    by (rule mapM_cong) (auto simp: assms)
  then show ?thesis by (simp add: sum_pk_len_def)
qed

subsection \<open>The size is exact\<close>

definition encodes :: "btc \<Rightarrow> 'pk key_ops \<Rightarrow> script_context \<Rightarrow> 'pk miniscript \<Rightarrow> nat \<Rightarrow> bool" where
  "encodes L K ctx ms n \<longleftrightarrow>
     (\<forall>b. \<exists>b'. encode L K ctx b ms = Some b' \<and> builder_len L b' = builder_len L b + n
        \<and> ends_free b' = has_free_verify (ms_ext ms))"

lemma encodesD:
  assumes "encodes L K ctx ms n"
  obtains b' where "encode L K ctx b ms = Some b'" "builder_len L b' = builder_len L b + n"
    "ends_free b' = has_free_verify (ms_ext ms)"
  using assms by (auto simp: encodes_def)

text \<open>A fragment that wraps the code of one child in fixed builder calls.\<close>

lemma encodes_wrap:
  assumes "builder_laws L" "encodes L K ctx x n"
    and "list_all small_call pre" "list_all small_call post"
    and "\<And>b. encode L K ctx b ms = do { b \<leftarrow> encode L K ctx (b @ pre) x; Some (b @ post) }"
    and "has_free_verify (ms_ext ms) = (if post = [] then has_free_verify (ms_ext x) else ends_free post)"
    and "m = sum_list (map call_len (pre @ post)) + n"
  shows "encodes L K ctx ms m"
  unfolding encodes_def
proof
  fix b
  obtain b1 where b1: "encode L K ctx (b @ pre) x = Some b1"
    "builder_len L b1 = builder_len L (b @ pre) + n" "ends_free b1 = has_free_verify (ms_ext x)"
    using assms(2) by (rule encodesD)
  have "encode L K ctx b ms = Some (b1 @ post)" using b1(1) assms(5) by simp
  moreover have "builder_len L (b1 @ post) = builder_len L b + m"
    using assms(7) b1(2) builder_len_append [OF assms(1,3), of b] builder_len_append [OF assms(1,4), of b1]
    by simp
  moreover have "ends_free (b1 @ post) = has_free_verify (ms_ext ms)"
    using assms(6) b1(3) by (cases "post = []") simp_all
  ultimately show "\<exists>b'. encode L K ctx b ms = Some b' \<and> builder_len L b' = builder_len L b + m
      \<and> ends_free b' = has_free_verify (ms_ext ms)" by blast
qed

text \<open>A fragment with two children.\<close>

lemma encodes_wrap2:
  assumes "builder_laws L" "encodes L K ctx x n1" "encodes L K ctx y n2"
    and "list_all small_call pre" "list_all small_call mid" "list_all small_call post"
    and "\<And>b. encode L K ctx b ms =
      do { b \<leftarrow> encode L K ctx (b @ pre) x; b \<leftarrow> encode L K ctx (b @ mid) y; Some (b @ post) }"
    and "has_free_verify (ms_ext ms) = (if post = [] then has_free_verify (ms_ext y) else ends_free post)"
    and "m = sum_list (map call_len (pre @ mid @ post)) + n1 + n2"
  shows "encodes L K ctx ms m"
  unfolding encodes_def
proof
  fix b
  obtain b1 where b1: "encode L K ctx (b @ pre) x = Some b1"
    "builder_len L b1 = builder_len L (b @ pre) + n1"
    using assms(2) by (rule encodesD)
  obtain b2 where b2: "encode L K ctx (b1 @ mid) y = Some b2"
    "builder_len L b2 = builder_len L (b1 @ mid) + n2" "ends_free b2 = has_free_verify (ms_ext y)"
    using assms(3) by (rule encodesD)
  have "encode L K ctx b ms = Some (b2 @ post)" using b1(1) b2(1) assms(7) by simp
  moreover have "builder_len L (b2 @ post) = builder_len L b + m"
    using assms(9) b1(2) b2(2) builder_len_append [OF assms(1,4), of b]
      builder_len_append [OF assms(1,5), of b1] builder_len_append [OF assms(1,6), of b2]
    by simp
  moreover have "ends_free (b2 @ post) = has_free_verify (ms_ext ms)"
    using assms(8) b2(3) by (cases "post = []") simp_all
  ultimately show "\<exists>b'. encode L K ctx b ms = Some b' \<and> builder_len L b' = builder_len L b + m
      \<and> ends_free b' = has_free_verify (ms_ext ms)" by blast
qed

text \<open>A leaf.\<close>

lemma encodes_leaf:
  assumes "builder_laws L" "list_all small_call cs" "cs \<noteq> []"
    and "\<And>b. encode L K ctx b ms = Some (b @ cs)"
    and "has_free_verify (ms_ext ms) = ends_free cs"
    and "m = sum_list (map call_len cs)"
  shows "encodes L K ctx ms m"
  using assms builder_len_append [OF assms(1,2)] by (simp add: encodes_def)

lemma hash_calls_len:
  "sum_list (map call_len (hash_calls op h)) = 6 + call_len (PushSlice h)"
  "list_all small_call (hash_calls op h) \<longleftrightarrow> length h < 2 ^ 32" "ends_free (hash_calls op h)" "hash_calls op h \<noteq> []"
  by (simp_all add: hash_calls_def script_num_size_def)

lemma has_free_verify_casts [simp]:
  "has_free_verify (ext_cast_alt e) = False" "has_free_verify (ext_cast_swap e) = has_free_verify e"
  "has_free_verify (ext_cast_check e) = True" "has_free_verify (ext_cast_dupif e) = False"
  "has_free_verify (ext_cast_verify e) = False" "has_free_verify (ext_cast_nonzero e) = False"
  "has_free_verify (ext_cast_zeronotequal e) = False" "has_free_verify (ext_and_b l r) = False"
  "has_free_verify (ext_and_v l r) = has_free_verify r" "has_free_verify (ext_or_b l r) = False"
  "has_free_verify (ext_or_d l r) = False" "has_free_verify (ext_or_c l r) = False"
  "has_free_verify (ext_or_i l r) = False" "has_free_verify (ext_and_or a l r) = False"
  "has_free_verify (ext_threshold k es) = True"
  "has_free_verify (ext_inscribing L e ins post) = (\<not> post \<and> has_free_verify e)"
  "has_free_verify ext_TRUE = False" "has_free_verify ext_FALSE = False"
  "has_free_verify (ext_pk_k st u) = False" "has_free_verify (ext_pk_h st uo) = False"
  "has_free_verify (ext_multi f th) = True" "has_free_verify (ext_multi_a k m) = True"
  "has_free_verify ext_sha256 = True" "has_free_verify ext_hash256 = True"
  "has_free_verify ext_ripemd160 = True" "has_free_verify ext_hash160 = True"
  "has_free_verify (ext_after L t) = False" "has_free_verify (ext_older L t') = False"
  "has_free_verify ext_tx_template = False"
  by (simp_all add: ext_cast_alt_def ext_cast_swap_def ext_cast_check_def ext_cast_dupif_def
      ext_cast_verify_def ext_cast_nonzero_def ext_cast_zeronotequal_def ext_and_b_def ext_and_v_def
      ext_or_b_def ext_or_d_def ext_or_c_def ext_or_i_def ext_and_or_def ext_threshold_def
      ext_inscribing_def ext_TRUE_def ext_FALSE_def ext_pk_k_def ext_pk_h_def ext_multi_def
      ext_multi_a_def ext_sha256_def ext_hash256_def ext_ripemd160_def ext_hash160_def ext_after_def
      ext_older_def ext_tx_template_def Let_def split: prod.splits)

lemma encodes_verify:
  assumes "builder_laws L" "encodes L K ctx x n" "\<not> has_free_verify ext"
  shows "encodes L K ctx (Miniscript (Verify x) ty ext) ((if \<not> has_free_verify (ms_ext x) then 1 else 0) + n)"
  unfolding encodes_def
proof
  fix b
  obtain b1 where "encode L K ctx b x = Some b1" "builder_len L b1 = builder_len L b + n"
    "ends_free b1 = has_free_verify (ms_ext x)"
    using assms(2) by (rule encodesD)
  with assms(1,3) show "\<exists>b'. encode L K ctx b (Miniscript (Verify x) ty ext) = Some b' \<and>
      builder_len L b' = builder_len L b + ((if \<not> has_free_verify (ms_ext x) then 1 else 0) + n) \<and>
      ends_free b' = has_free_verify (ms_ext (Miniscript (Verify x) ty ext))"
    by (auto simp: builder_laws_def)
qed

lemma encodes_inscribe_pre:
  assumes "builder_laws L" "encodes L K ctx x n" "has_free_verify ext = has_free_verify (ms_ext x)"
  shows "encodes L K ctx (Miniscript (InscribePre ins x) ty ext) (sum_list (map (size_guess L) ins) + n)"
  unfolding encodes_def
proof
  fix b
  obtain b1 where "encode L K ctx (append_inscriptions ins b) x = Some b1"
    "builder_len L b1 = builder_len L (append_inscriptions ins b) + n"
    "ends_free b1 = has_free_verify (ms_ext x)"
    using assms(2) by (rule encodesD)
  with assms(3) show "\<exists>b'. encode L K ctx b (Miniscript (InscribePre ins x) ty ext) = Some b' \<and>
      builder_len L b' = builder_len L b + (sum_list (map (size_guess L) ins) + n) \<and>
      ends_free b' = has_free_verify (ms_ext (Miniscript (InscribePre ins x) ty ext))"
    by (simp add: builder_len_inscriptions [OF assms(1)])
qed

lemma encodes_inscribe_post:
  assumes "builder_laws L" "encodes L K ctx x n" "ins \<noteq> []" "\<not> has_free_verify ext"
  shows "encodes L K ctx (Miniscript (InscribePost ins x) ty ext) (sum_list (map (size_guess L) ins) + n)"
  unfolding encodes_def
proof
  fix b
  obtain b1 where "encode L K ctx b x = Some b1" "builder_len L b1 = builder_len L b + n"
    using assms(2) by (rule encodesD)
  with assms show "\<exists>b'. encode L K ctx b (Miniscript (InscribePost ins x) ty ext) = Some b' \<and>
      builder_len L b' = builder_len L b + (sum_list (map (size_guess L) ins) + n) \<and>
      ends_free b' = has_free_verify (ms_ext (Miniscript (InscribePost ins x) ty ext))"
    by (simp add: builder_len_inscriptions append_inscriptions_ends)
qed

lemma encodes_and_or:
  assumes "builder_laws L" "encodes L K ctx x n1" "encodes L K ctx y n2" "encodes L K ctx z n3"
    "\<not> has_free_verify ext"
  shows "encodes L K ctx (Miniscript (AndOr x y z) ty ext) (3 + (n1 + (n2 + n3)))"
  unfolding encodes_def
proof
  fix b
  obtain b1 where b1: "encode L K ctx b x = Some b1" "builder_len L b1 = builder_len L b + n1"
    using assms(2) by (rule encodesD)
  obtain b2 where b2: "encode L K ctx (b1 @ [PushOpcode OP_NOTIF]) z = Some b2"
    "builder_len L b2 = builder_len L (b1 @ [PushOpcode OP_NOTIF]) + n3"
    using assms(4) by (rule encodesD)
  obtain b3 where b3: "encode L K ctx (b2 @ [PushOpcode OP_ELSE]) y = Some b3"
    "builder_len L b3 = builder_len L (b2 @ [PushOpcode OP_ELSE]) + n2"
    using assms(3) by (rule encodesD)
  have "builder_len L (b @ [PushOpcode op]) = builder_len L b + 1" for b op
    using builder_len_append [OF assms(1), of "[PushOpcode op]"] by simp
  with b1 b2 b3 assms(5) show "\<exists>b'. encode L K ctx b (Miniscript (AndOr x y z) ty ext) = Some b' \<and>
      builder_len L b' = builder_len L b + (3 + (n1 + (n2 + n3))) \<and>
      ends_free b' = has_free_verify (ms_ext (Miniscript (AndOr x y z) ty ext))"
    by simp
qed

lemma encodes_adds:
  assumes "builder_laws L" "\<And>y. y \<in> set ys \<Longrightarrow> encodes L K ctx y (f y)"
  shows "\<exists>b'. foldM (\<lambda>b y. do { b \<leftarrow> encode L K ctx b y; Some (b @ [PushOpcode OP_ADD]) }) b ys = Some b'
    \<and> builder_len L b' = builder_len L b + sum_list (map f ys) + length ys"
  using assms(2)
proof (induction ys arbitrary: b)
  case Nil
  then show ?case by simp
next
  case (Cons y ys)
  then obtain b1 where b1: "encode L K ctx b y = Some b1" "builder_len L b1 = builder_len L b + f y"
    by (meson encodesD list.set_intros(1))
  have "builder_len L (b1 @ [PushOpcode OP_ADD]) = builder_len L b1 + 1"
    using builder_len_append [OF assms(1), of "[PushOpcode OP_ADD]"] by simp
  with b1 Cons.IH [of "b1 @ [PushOpcode OP_ADD]"] Cons.prems show ?case by auto
qed

lemma encodes_thresh:
  assumes "builder_laws L" "\<And>y. y \<in> set xs \<Longrightarrow> encodes L K ctx y (f y)" "xs \<noteq> []" "has_free_verify ext"
    "k < 2 ^ 39"
  shows "encodes L K ctx (Miniscript (Thresh (Threshold k xs)) ty ext)
    (script_num_size k + 1 + length xs - 1 + sum_list (map f xs))"
  unfolding encodes_def
proof
  fix b
  from assms(3) obtain x rest where xs: "xs = x # rest" by (cases xs) auto
  then have "encodes L K ctx x (f x)" using assms(2) by simp
  then obtain b1 where b1: "encode L K ctx b x = Some b1" "builder_len L b1 = builder_len L b + f x"
    by (rule encodesD)
  obtain b2 where b2: "foldM (\<lambda>b y. do { b \<leftarrow> encode L K ctx b y; Some (b @ [PushOpcode OP_ADD]) }) b1 rest
      = Some b2" "builder_len L b2 = builder_len L b1 + sum_list (map f rest) + length rest"
    using encodes_adds [OF assms(1), of rest K ctx f b1] assms(2) xs by auto
  have "builder_len L (b2 @ [PushInt (int k), PushOpcode OP_EQUAL]) = builder_len L b2 + script_num_size k + 1"
    using builder_len_append [OF assms(1), of "[PushInt (int k), PushOpcode OP_EQUAL]" b2] assms(5) by simp
  with b1 b2 assms(4) show "\<exists>b'. encode L K ctx b (Miniscript (Thresh (Threshold k xs)) ty ext) = Some b' \<and>
      builder_len L b' = builder_len L b + (script_num_size k + 1 + length xs - 1 + sum_list (map f xs)) \<and>
      ends_free b' = has_free_verify (ms_ext (Miniscript (Thresh (Threshold k xs)) ty ext))"
    by (simp add: xs)
qed

lemma encodes_swap:
  assumes "builder_laws L" "encodes L K ctx x n" "has_free_verify ext = has_free_verify (ms_ext x)"
  shows "encodes L K ctx (Miniscript (Swap x) ty ext) (Suc n)"
proof (rule encodes_wrap [OF assms(1,2), where pre = "[PushOpcode OP_SWAP]" and post = "[]"])
  show "encode L K ctx b (Miniscript (Swap x) ty ext) =
      encode L K ctx (b @ [PushOpcode OP_SWAP]) x \<bind> (\<lambda>b. Some (b @ []))" for b
    by (cases "encode L K ctx (b @ [PushOpcode OP_SWAP]) x") simp_all
qed (simp_all add: assms(3))

lemma encodes_alt:
  assumes "builder_laws L" "encodes L K ctx x n" "\<not> has_free_verify ext"
  shows "encodes L K ctx (Miniscript (Alt x) ty ext) (Suc (Suc n))"
  by (rule encodes_wrap [OF assms(1,2), where pre = "[PushOpcode OP_TOALTSTACK]"
        and post = "[PushOpcode OP_FROMALTSTACK]"]) (simp_all add: assms(3))

lemma encodes_multi:
  assumes "builder_laws L" "has_free_verify ext" "thr_k t < 2 ^ 39" "thr_n t < 2 ^ 39"
  shows "encodes L K ctx (Miniscript (Multi t) ty ext)
    (script_num_size (thr_k t) + 1 + script_num_size (thr_n t)
     + sum_list (map (\<lambda>pk. call_len (PushKey (to_public_key K pk))) (thr_data t)))"
  using assms(3,4)
  by (intro encodes_leaf [OF assms(1), where cs = "[PushInt (int (thr_k t))]
             @ map (\<lambda>pk. PushKey (to_public_key K pk)) (thr_data t)
             @ [PushInt (int (thr_n t)), PushOpcode OP_CHECKMULTISIG]"])
    (auto simp: assms(2) o_def list_all_iff)

lemma encodes_multi_a:
  assumes "builder_laws L" "has_free_verify ext" "thr_data t \<noteq> []" "thr_k t < 2 ^ 39"
  shows "encodes L K ctx (Miniscript (MultiA t) ty ext)
    (script_num_size (thr_k t) + 1 + sum_list (map (\<lambda>pk. call_len (push_ms_key L K ctx pk)) (thr_data t))
     + thr_n t)"
proof -
  let ?f = "\<lambda>pk. [push_ms_key L K ctx pk, PushOpcode OP_CHECKSIGADD]"
  obtain pk rest where d: "thr_data t = pk # rest" using assms(3) by (cases "thr_data t") auto
  have nv: "small_call (push_ms_key L K ctx pk)" for pk
    using assms(1) by (simp add: builder_laws_def split: sig_type.splits)
  have "sum_list (map call_len (concat (map ?f ys))) =
      sum_list (map (\<lambda>pk. call_len (push_ms_key L K ctx pk)) ys) + length ys" for ys
    by (induction ys) (simp_all del: push_ms_key.simps)
  moreover have "list_all small_call (concat (map ?f ys))" for ys
    using nv by (simp add: list_all_iff del: push_ms_key.simps)
  ultimately show ?thesis
    using nv [of pk] assms(4) by (intro encodes_leaf [OF assms(1), where cs = "[push_ms_key L K ctx pk, PushOpcode OP_CHECKSIG]
        @ concat (map ?f rest) @ [PushInt (int (thr_k t)), PushOpcode OP_NUMEQUAL]"])
      (auto simp: d assms(2) thr_n_def simp del: push_ms_key.simps)
qed

text \<open>The size limits bound the thresholds.\<close>

lemma built_threshold_small:
  assumes "built L K ctx (Miniscript n ty ext)" "ctx \<noteq> NoChecks"
  shows "n = Thresh t \<Longrightarrow> thr_k t < 2 ^ 39" "n = Multi t' \<Longrightarrow> thr_k t' < 2 ^ 39 \<and> thr_n t' < 2 ^ 39"
    "n = MultiA t' \<Longrightarrow> thr_k t' < 2 ^ 39"
proof -
  note b = built_node [OF assms]
  show "n = Multi t' \<Longrightarrow> thr_k t' < 2 ^ 39 \<and> thr_n t' < 2 ^ 39" "n = MultiA t' \<Longrightarrow> thr_k t' < 2 ^ 39"
    using b(3) by (auto simp: wf_threshold_def limit_defs)
  assume n: "n = Thresh t"
  have "pk_cost ext \<le> 4000000"
    using b(5) assms(2) by (cases ctx) (auto simp: size_limit_error_def limit_defs MAX_SCRIPT_ELEMENT_SIZE_def split: if_splits)
  moreover have "thr_n t \<le> pk_cost ext"
    using n by (simp add: b(1) ext_threshold_def Let_def thr_n_def split: prod.splits)
  moreover have "thr_k t \<le> thr_n t" using b(3) n by (auto simp: wf_threshold_def)
  ultimately show "thr_k t < 2 ^ 39" by simp
qed

lemma built_encodes:
  assumes "builder_laws L" "key_laws K" "ctx \<noteq> NoChecks"
  shows "built L K ctx ms \<Longrightarrow> \<exists>n. script_size L K ctx ms = Some n \<and> encodes L K ctx ms n"
proof (induction ms rule: ms_induct)
  case (Node n ty ext)
  note nd = built_node [OF Node.prems assms(3)]
  have IH: "\<exists>m. script_size L K ctx c = Some m \<and> encodes L K ctx c m" if "c \<in> set (children n)" for c
    using Node.IH nd(6) that by blast
  have unary: "\<exists>m. script_size L K ctx (Miniscript n ty ext) = Some m \<and> encodes L K ctx (Miniscript n ty ext) m"
    if "children n = [x]" "node_size L K ctx n = Some s"
      "\<And>m. encodes L K ctx x m \<Longrightarrow> encodes L K ctx (Miniscript n ty ext) (s + m)" for x s
    using IH [of x] that by (auto simp: script_size_rec)
  have binary: "\<exists>m. script_size L K ctx (Miniscript n ty ext) = Some m \<and> encodes L K ctx (Miniscript n ty ext) m"
    if "children n = [x, y]" "node_size L K ctx n = Some s"
      "\<And>m m'. encodes L K ctx x m \<Longrightarrow> encodes L K ctx y m' \<Longrightarrow> encodes L K ctx (Miniscript n ty ext) (s + (m + m'))"
    for x y s
    using IH [of x] IH [of y] that by (auto simp: script_size_rec)
  have leaf: "\<exists>m. script_size L K ctx (Miniscript n ty ext) = Some m \<and> encodes L K ctx (Miniscript n ty ext) m"
    if "children n = []" "node_size L K ctx n = Some s" "encodes L K ctx (Miniscript n ty ext) s" for s
    using that by (auto simp: script_size_rec)
  show ?case
  proof (cases n)
    case (Alt x)
    then have "\<not> has_free_verify ext" by (simp add: nd(1))
    with Alt show ?thesis
      using unary [of x 2] encodes_alt [OF assms(1), of K ctx x _ ext ty] by simp
  next
    case (Swap x)
    then have "has_free_verify ext = has_free_verify (ms_ext x)" by (simp add: nd(1))
    with Swap show ?thesis
      using unary [of x 1] encodes_swap [OF assms(1), of K ctx x _ ext ty] by simp
  next
    case (Check x) then show ?thesis
      by (intro unary [of x 1]) (simp, simp, erule encodes_wrap [OF assms(1), where pre = "[]"
          and post = "[PushOpcode OP_CHECKSIG]"], simp_all add: nd(1))
  next
    case (DupIf x) then show ?thesis
      by (intro unary [of x 3]) (simp, simp, erule encodes_wrap [OF assms(1), where pre = "[PushOpcode OP_DUP, PushOpcode OP_IF]"
          and post = "[PushOpcode OP_ENDIF]"], simp_all add: nd(1))
  next
    case (NonZero x) then show ?thesis
      by (intro unary [of x 4]) (simp, simp, erule encodes_wrap [OF assms(1), where pre = "[PushOpcode OP_SIZE, PushOpcode OP_0NOTEQUAL, PushOpcode OP_IF]"
          and post = "[PushOpcode OP_ENDIF]"], simp_all add: nd(1))
  next
    case (ZeroNotEqual x) then show ?thesis
      by (intro unary [of x 1]) (simp, simp, erule encodes_wrap [OF assms(1), where pre = "[]"
          and post = "[PushOpcode OP_0NOTEQUAL]"], simp_all add: nd(1))
  next
    case (Verify x)
    then have "\<not> has_free_verify ext" by (simp add: nd(1))
    with Verify show ?thesis
      using unary [of x "if \<not> has_free_verify (ms_ext x) then 1 else 0"]
        encodes_verify [OF assms(1), of K ctx x _ ext ty] by simp
  next
    case (InscribePre ins x)
    then have "has_free_verify ext = has_free_verify (ms_ext x)" by (simp add: nd(1))
    with InscribePre show ?thesis
      using unary [of x "sum_list (map (size_guess L) ins)"]
        encodes_inscribe_pre [OF assms(1), of K ctx x _ ext ins ty] by simp
  next
    case (InscribePost ins x)
    with nd(2) have "ins \<noteq> []" by (auto split: if_splits)
    moreover have "\<not> has_free_verify ext" using InscribePost by (simp add: nd(1))
    ultimately show ?thesis
      using InscribePost unary [of x "sum_list (map (size_guess L) ins)"]
        encodes_inscribe_post [OF assms(1), of K ctx x _ ins ext ty] by simp
  next
    case (AndV x y) then show ?thesis
      by (intro binary [of x y 0]) (simp, simp, erule encodes_wrap2 [OF assms(1), where pre = "[]" and mid = "[]" and post = "[]"], assumption, simp_all add: nd(1))
  next
    case (AndB x y) then show ?thesis
      by (intro binary [of x y 1]) (simp, simp, erule encodes_wrap2 [OF assms(1), where pre = "[]" and mid = "[]"
          and post = "[PushOpcode OP_BOOLAND]"], assumption, simp_all add: nd(1))
  next
    case (OrB x y) then show ?thesis
      by (intro binary [of x y 1]) (simp, simp, erule encodes_wrap2 [OF assms(1), where pre = "[]" and mid = "[]"
          and post = "[PushOpcode OP_BOOLOR]"], assumption, simp_all add: nd(1))
  next
    case (OrD x y) then show ?thesis
      by (intro binary [of x y 3]) (simp, simp, erule encodes_wrap2 [OF assms(1), where pre = "[]"
          and mid = "[PushOpcode OP_IFDUP, PushOpcode OP_NOTIF]" and post = "[PushOpcode OP_ENDIF]"], assumption, simp_all add: nd(1))
  next
    case (OrC x y) then show ?thesis
      by (intro binary [of x y 2]) (simp, simp, erule encodes_wrap2 [OF assms(1), where pre = "[]"
          and mid = "[PushOpcode OP_NOTIF]" and post = "[PushOpcode OP_ENDIF]"], assumption, simp_all add: nd(1))
  next
    case (OrI x y) then show ?thesis
      by (intro binary [of x y 3]) (simp, simp, erule encodes_wrap2 [OF assms(1), where pre = "[PushOpcode OP_IF]"
          and mid = "[PushOpcode OP_ELSE]" and post = "[PushOpcode OP_ENDIF]"], assumption, simp_all add: nd(1))
  next
    case (AndOr x y z)
    with IH [of x] IH [of y] IH [of z] obtain m1 m2 m3 where "script_size L K ctx x = Some m1" "encodes L K ctx x m1"
      "script_size L K ctx y = Some m2" "encodes L K ctx y m2"
      "script_size L K ctx z = Some m3" "encodes L K ctx z m3" by auto
    with AndOr encodes_and_or [OF assms(1), of K ctx x m1 y m2 z m3 ext] show ?thesis
      by (simp add: script_size_rec nd(1))
  next
    case (Thresh t)
    obtain k xs where t: "t = Threshold k xs" by (cases t)
    from IH Thresh t obtain f where f: "\<And>y. y \<in> set xs \<Longrightarrow> script_size L K ctx y = Some (f y) \<and> encodes L K ctx y (f y)"
      by simp metis
    then have "mapM (script_size L K ctx) xs = mapM (\<lambda>y. Some (f y)) xs"
      by (intro mapM_cong) auto
    moreover have "xs \<noteq> []" using nd(3) Thresh t by (auto simp: wf_threshold_def thr_n_def)
    ultimately show ?thesis
      using Thresh t f encodes_thresh [OF assms(1), of xs K ctx f ext k ty] built_threshold_small(1) [OF Node.prems assms(3)]
      by (simp add: script_size_rec nd(1) thr_n_def)
  next
    case (Multi t)
    with nd(4) have ks: "\<And>pk. pk \<in> set (thr_data t) \<Longrightarrow> check_pk ctx K pk = Inr ()" and "ctx \<noteq> Tap"
      by (auto simp: check_pks_ok_iff split: if_splits)
    have "push_ms_key L K ctx pk = PushKey (to_public_key K pk)" for pk
      using \<open>ctx \<noteq> Tap\<close> by (cases ctx) auto
    with ks have "sum_pk_len K ctx (thr_data t) =
        Some (sum_list (map (\<lambda>pk. call_len (PushKey (to_public_key K pk))) (thr_data t)))"
      using key_call_len [OF assms(2,1) _ assms(3)] by (intro sum_pk_len_eq) auto
    moreover have "has_free_verify ext" using Multi by (simp add: nd(1))
    ultimately show ?thesis
      using Multi encodes_multi [OF assms(1), of ext t K ctx ty] built_threshold_small(2) [OF Node.prems assms(3)]
      by (intro leaf) auto
  next
    case (MultiA t)
    with nd(4) have "\<And>pk. pk \<in> set (thr_data t) \<Longrightarrow> check_pk ctx K pk = Inr ()"
      by (auto simp: check_pks_ok_iff split: if_splits)
    then have "sum_pk_len K ctx (thr_data t) =
        Some (sum_list (map (\<lambda>pk. call_len (push_ms_key L K ctx pk)) (thr_data t)))"
      using key_call_len [OF assms(2,1) _ assms(3)] by (intro sum_pk_len_eq) auto
    moreover have "thr_data t \<noteq> []" using nd(3) MultiA by (auto simp: wf_threshold_def thr_n_def)
    moreover have "has_free_verify ext" using MultiA by (simp add: nd(1))
    ultimately show ?thesis
      using encodes_multi_a [OF assms(1), of ext t K ctx ty] MultiA built_threshold_small(3) [OF Node.prems assms(3)]
      by (intro leaf) (auto simp del: push_ms_key.simps encode.simps)
  next
    case (PkK pk)
    have "length (xonly_serialize L x) = 32" for x using assms(1) by (simp add: builder_laws_def)
    with PkK nd(4) key_call_len [OF assms(2,1) _ assms(3)] show ?thesis
      by (intro leaf) (auto intro!: encodes_leaf [OF assms(1), where cs = "[push_ms_key L K ctx pk]"]
          simp: nd(1) split: sig_type.splits)
  next
    case (PkH pk)
    with assms(1) show ?thesis
      by (intro leaf) (auto intro!: encodes_leaf [OF assms(1), where cs = "[PushOpcode OP_DUP, PushOpcode OP_HASH160,
          push_ms_key_hash L K ctx pk, PushOpcode OP_EQUALVERIFY]"]
          simp: nd(1) builder_laws_def push_opcode_size_def split: sig_type.splits)
  next
    case (RawPkH h)
    with nd(3) show ?thesis
      by (intro leaf) (auto intro!: encodes_leaf [OF assms(1), where cs = "[PushOpcode OP_DUP, PushOpcode OP_HASH160,
          PushSlice h, PushOpcode OP_EQUALVERIFY]"] simp: nd(1) push_opcode_size_def)
  next
    case (After t) then show ?thesis
      by (intro leaf) (auto intro!: encodes_leaf [OF assms(1), where cs = "[PushInt (uint (abs_to_consensus_u32 t)),
          PushOpcode OP_CLTV]"] simp: nd(1))
  next
    case (Older t) then show ?thesis
      by (intro leaf) (auto intro!: encodes_leaf [OF assms(1), where cs = "[PushInt (uint (rel_to_consensus_u32 t)),
          PushOpcode OP_CSV]"] simp: nd(1))
  next
    case (Sha256 h) with nd(3) show ?thesis
      by (intro leaf) (auto intro!: encodes_leaf [OF assms(1), where cs = "hash_calls OP_SHA256 h"]
          simp: nd(1) hash_calls_len push_opcode_size_def)
  next
    case (Hash256 h) with nd(3) show ?thesis
      by (intro leaf) (auto intro!: encodes_leaf [OF assms(1), where cs = "hash_calls OP_HASH256 h"]
          simp: nd(1) hash_calls_len push_opcode_size_def)
  next
    case (Ripemd160 h) with nd(3) show ?thesis
      by (intro leaf) (auto intro!: encodes_leaf [OF assms(1), where cs = "hash_calls OP_RIPEMD160 h"]
          simp: nd(1) hash_calls_len push_opcode_size_def)
  next
    case (Hash160 h) with nd(3) show ?thesis
      by (intro leaf) (auto intro!: encodes_leaf [OF assms(1), where cs = "hash_calls OP_HASH160 h"]
          simp: nd(1) hash_calls_len push_opcode_size_def)
  next
    case (TxTemplate h) with nd(3) show ?thesis
      by (intro leaf) (auto intro!: encodes_leaf [OF assms(1), where cs = "[PushSlice h, PushOpcode OP_NOP4, PushOpcode OP_DROP]"]
          simp: nd(1) push_opcode_size_def)
  next
    case TrueT then show ?thesis
      by (intro leaf) (auto intro!: encodes_leaf [OF assms(1), where cs = "[PushOpcode OP_TRUE]"] simp: nd(1))
  next
    case FalseT then show ?thesis
      by (intro leaf) (auto intro!: encodes_leaf [OF assms(1), where cs = "[PushOpcode OP_FALSE]"] simp: nd(1))
  qed
qed

subsection \<open>The cost bound\<close>

text \<open>\<open>pk_cost\<close> bounds the size from above, provided no key is uncompressed.\<close>

lemma sum_list_le: "(\<And>x. x \<in> set xs \<Longrightarrow> f x \<le> g x) \<Longrightarrow> sum_list (map f xs) \<le> sum_list (map g xs)"
  for f :: "'a \<Rightarrow> nat"
  by (rule sum_list_mono)

lemma mapM_SomeD: "mapM f xs = Some ys \<Longrightarrow> ys = map (the \<circ> f) xs \<and> (\<forall>x \<in> set xs. f x = Some (the (f x)))"
  by (induction xs arbitrary: ys) (auto split: bind_splits)

lemma pk_cost_simps [simp]:
  "pk_cost ext_TRUE = 1" "pk_cost ext_FALSE = 1" "pk_cost ext_tx_template = 35"
  "pk_cost (ext_inscribing L e ins post) = pk_cost e + sum_list (map (size_guess L) ins)"
  "pk_cost (ext_pk_k st u) = (case st of Ecdsa \<Rightarrow> (if u then 65 else 34) | Schnorr \<Rightarrow> 33)"
  "pk_cost (ext_pk_h st uo) = 24" "pk_cost ext_sha256 = 39" "pk_cost ext_hash256 = 39"
  "pk_cost ext_ripemd160 = 27" "pk_cost ext_hash160 = 27"
  "pk_cost (ext_after L t) = script_num_size (unat (abs_to_consensus_u32 t)) + 1"
  "pk_cost (ext_older L t') = script_num_size (unat (rel_to_consensus_u32 t')) + 1"
  "pk_cost (ext_cast_alt e) = pk_cost e + 2" "pk_cost (ext_cast_swap e) = pk_cost e + 1"
  "pk_cost (ext_cast_check e) = pk_cost e + 1" "pk_cost (ext_cast_dupif e) = pk_cost e + 3"
  "pk_cost (ext_cast_verify e) = pk_cost e + (if \<not> has_free_verify e then 1 else 0)"
  "pk_cost (ext_cast_nonzero e) = pk_cost e + 4" "pk_cost (ext_cast_zeronotequal e) = pk_cost e + 1"
  "pk_cost (ext_and_b l r) = pk_cost l + pk_cost r + 1" "pk_cost (ext_and_v l r) = pk_cost l + pk_cost r"
  "pk_cost (ext_or_b l r) = pk_cost l + pk_cost r + 1" "pk_cost (ext_or_d l r) = pk_cost l + pk_cost r + 3"
  "pk_cost (ext_or_c l r) = pk_cost l + pk_cost r + 2" "pk_cost (ext_or_i l r) = pk_cost l + pk_cost r + 3"
  "pk_cost (ext_and_or a l r) = pk_cost a + pk_cost l + pk_cost r + 3"
  "pk_cost (ext_threshold k es) = 1 + script_num_size k + sum_list (map pk_cost es) + length es - 1"
  by (simp_all add: ext_cast_alt_def ext_cast_swap_def ext_cast_check_def ext_cast_dupif_def
      ext_cast_verify_def ext_cast_nonzero_def ext_cast_zeronotequal_def ext_and_b_def ext_and_v_def
      ext_or_b_def ext_or_d_def ext_or_c_def ext_or_i_def ext_and_or_def ext_threshold_def
      ext_inscribing_def ext_TRUE_def ext_FALSE_def ext_pk_k_def ext_pk_h_def
      ext_sha256_def ext_hash256_def ext_ripemd160_def ext_hash160_def ext_after_def
      ext_older_def ext_tx_template_def Let_def split: prod.splits sig_type.splits option.splits)

lemma all_keys_node:
  "all_keys (Miniscript n ty ext) = node_keys n @ concat (map all_keys (children n))"
proof -
  have "concat (map (node_keys \<circ> ms_node) (concat (map pre_order cs))) = concat (map all_keys cs)"
    for cs :: "'a miniscript list"
    by (induction cs) (auto simp: all_keys_def o_def)
  then show ?thesis by (simp add: all_keys_def)
qed

lemma multi_cost_le:
  assumes "node_ok (Multi t)"
  shows "script_num_size (thr_k t) + script_num_size (thr_n t) \<le> multi_num_cost (thr_k t) (thr_n t)"
  using assms by (auto simp: wf_threshold_def limit_defs script_num_size_def multi_num_cost_def
      split: bool.splits)

lemma multi_a_cost_le:
  assumes "node_ok (MultiA t)"
  shows "script_num_size (thr_k t) + 1 \<le> multi_num_cost (thr_k t) (thr_n t)"
  using assms by (auto simp: wf_threshold_def limit_defs script_num_size_def multi_num_cost_def
      split: bool.splits)

lemma built_size_le_cost:
  assumes "ctx \<noteq> NoChecks"
  shows "built L K ctx ms \<Longrightarrow> (\<And>pk. pk \<in> set (all_keys ms) \<Longrightarrow> \<not> is_uncompressed K pk) \<Longrightarrow>
    script_size L K ctx ms = Some n \<Longrightarrow> n \<le> pk_cost (ms_ext ms)"
proof (induction ms arbitrary: n rule: ms_induct)
  case (Node nd ty ext n)
  note b = built_node [OF Node.prems(1) assms]
  obtain s ss where s: "node_size L K ctx nd = Some s" "mapM (script_size L K ctx) (children nd) = Some ss"
    and n: "n = s + sum_list ss"
    using Node.prems(3) by (auto simp: script_size_rec split: bind_splits)
  have ss: "ss = map (the \<circ> script_size L K ctx) (children nd)"
    and "\<And>c. c \<in> set (children nd) \<Longrightarrow> script_size L K ctx c = Some (the (script_size L K ctx c))"
    using mapM_SomeD [OF s(2)] by auto
  then have IH: "the (script_size L K ctx c) \<le> pk_cost (ms_ext c)" if "c \<in> set (children nd)" for c
    using Node.IH [OF that b(6) [OF that]] Node.prems(2) that by (fastforce simp: all_keys_node)
  have le: "sum_list ss \<le> sum_list (map (pk_cost \<circ> ms_ext) (children nd))"
    unfolding ss by (rule sum_list_le) (simp add: IH)
  have keys: "\<not> is_uncompressed K pk" if "pk \<in> set (node_keys nd)" for pk
    using Node.prems(2) that by (simp add: all_keys_node)
  show ?case
  proof (cases nd)
    case (Thresh t)
    moreover have "0 < thr_n t" using b(3) Thresh by (auto simp: wf_threshold_def)
    ultimately show ?thesis using le s n by (simp add: b(1) thr_n_def o_def)
  next
    case (Multi t)
    with b(4) have nt: "ctx \<noteq> Tap" by auto
    with Multi keys assms have "ctx_pk_len ctx (is_uncompressed K pk) = Some 34" if "pk \<in> set (thr_data t)" for pk
      using that by (cases ctx) auto
    then have "sum_pk_len K ctx (thr_data t) = Some (34 * thr_n t)"
      using sum_pk_len_eq [of "thr_data t" ctx K "\<lambda>_. 34"] by (simp add: sum_list_triv thr_n_def)
    moreover have "sum_list (map (\<lambda>pk. if is_uncompressed K pk then 65 else 34::nat) (thr_data t)) =
        sum_list (map (\<lambda>pk. 34) (thr_data t))"
      by (rule arg_cong [where f = sum_list], rule map_cong) (use keys Multi in auto)
    then have "sum_list (map (\<lambda>pk. if is_uncompressed K pk then 65 else 34::nat) (thr_data t)) = 34 * thr_n t"
      by (simp only: sum_list_triv thr_n_def of_nat_id mult.commute)
    moreover have "pk_cost ext = multi_num_cost (thr_k t) (thr_n t)
        + sum_list (map (\<lambda>pk. if is_uncompressed K pk then 65 else 34) (thr_data t)) + 1"
      using Multi by (simp add: b(1) ext_multi_def Let_def)
    ultimately have "pk_cost ext = multi_num_cost (thr_k t) (thr_n t) + 34 * thr_n t + 1"
      and "s = script_num_size (thr_k t) + 1 + script_num_size (thr_n t) + 34 * thr_n t"
      using s Multi by (simp_all add: sum_list_triv thr_n_def)
    with multi_cost_le [of t] b(3) Multi s n show ?thesis by simp
  next
    case (MultiA t)
    with b(4) have "ctx = Tap" by (auto split: if_splits)
    then have "sum_pk_len K ctx (thr_data t) = Some (33 * thr_n t)"
      using sum_pk_len_eq [of "thr_data t" ctx K "\<lambda>_. 33"] by (simp add: sum_list_triv thr_n_def)
    moreover have "0 < thr_n t" using b(3) MultiA by (auto simp: wf_threshold_def)
    ultimately show ?thesis
      using multi_a_cost_le [of t] b(3) MultiA s n by (auto simp: b(1) ext_multi_a_def)
  next
    case (PkK pk)
    with keys assms s n show ?thesis by (cases ctx) (auto simp: b(1))
  qed (use le s n in \<open>auto simp: b(1)\<close>)
qed

end
