(* ===== verification/Satisfy.thy ===== *)
theory Satisfy
  imports Encode "HOL-Library.Product_Lexorder"
begin

section \<open>The satisfier\<close>

text \<open>
  The module \<^verbatim>\<open>miniscript/satisfy.rs\<close>: witness templates of placeholders, their
  algebra, the two strategies for choosing between satisfactions (non-malleable and malleable),
  the mutually recursive helpers that compute a satisfaction and a dissatisfaction of every
  fragment, and the completion of a template from the data of a satisfier.  The blanket
  implementation of \<open>AssetProvider\<close> for every \<open>Satisfier\<close> is in
  \<^verbatim>\<open>plan.rs\<close>.

  A panic (a failing \<open>assert!\<close>, an \<open>expect\<close>, an index out of range, \<open>pk_len\<close> in the
  \<open>NoChecks\<close> context) is the value \<open>None\<close>.  Signatures are the byte strings of their \<open>to_vec\<close>.
\<close>

subsection \<open>What the caller provides\<close>

record 'pk satisfier =
  lookup_ecdsa_sig :: "'pk \<Rightarrow> bytes option"
  lookup_tap_key_spend_sig :: "'pk \<Rightarrow> bytes option"
  lookup_tap_leaf_script_sig :: "'pk \<Rightarrow> hash \<Rightarrow> bytes option"
  lookup_raw_pkh_pk :: "hash \<Rightarrow> pubkey option"
  lookup_raw_pkh_x_only_pk :: "hash \<Rightarrow> xonly option"
  lookup_raw_pkh_ecdsa_sig :: "hash \<Rightarrow> (pubkey \<times> bytes) option"
  lookup_raw_pkh_tap_leaf_script_sig :: "hash \<times> hash \<Rightarrow> (xonly \<times> bytes) option"
  lookup_sha256 :: "hash \<Rightarrow> bytes option"
  lookup_hash256 :: "hash \<Rightarrow> bytes option"
  lookup_ripemd160 :: "hash \<Rightarrow> bytes option"
  lookup_hash160 :: "hash \<Rightarrow> bytes option"
  sat_check_older :: "rel_lock \<Rightarrow> bool"
  sat_check_after :: "abs_lock \<Rightarrow> bool"
  sat_check_tx_template :: "hash \<Rightarrow> bool"

record 'pk asset_provider =
  provider_lookup_ecdsa_sig :: "'pk \<Rightarrow> bool"
  provider_lookup_tap_key_spend_sig :: "'pk \<Rightarrow> nat option"
  provider_lookup_tap_leaf_script_sig :: "'pk \<Rightarrow> hash \<Rightarrow> nat option"
  provider_lookup_raw_pkh_pk :: "hash \<Rightarrow> pubkey option"
  provider_lookup_raw_pkh_x_only_pk :: "hash \<Rightarrow> xonly option"
  provider_lookup_raw_pkh_ecdsa_sig :: "hash \<Rightarrow> pubkey option"
  provider_lookup_raw_pkh_tap_leaf_script_sig :: "hash \<times> hash \<Rightarrow> (xonly \<times> nat) option"
  provider_lookup_sha256 :: "hash \<Rightarrow> bool"
  provider_lookup_hash256 :: "hash \<Rightarrow> bool"
  provider_lookup_ripemd160 :: "hash \<Rightarrow> bool"
  provider_lookup_hash160 :: "hash \<Rightarrow> bool"
  check_older :: "rel_lock \<Rightarrow> bool"
  check_after :: "abs_lock \<Rightarrow> bool"
  check_tx_template :: "hash \<Rightarrow> bool"

definition provider_of :: "'pk satisfier \<Rightarrow> 'pk asset_provider" where
  "provider_of S =
     \<lparr>provider_lookup_ecdsa_sig = (\<lambda>pk. lookup_ecdsa_sig S pk \<noteq> None),
      provider_lookup_tap_key_spend_sig = (\<lambda>pk. map_option length (lookup_tap_key_spend_sig S pk)),
      provider_lookup_tap_leaf_script_sig =
        (\<lambda>pk lh. map_option length (lookup_tap_leaf_script_sig S pk lh)),
      provider_lookup_raw_pkh_pk = lookup_raw_pkh_pk S,
      provider_lookup_raw_pkh_x_only_pk = lookup_raw_pkh_x_only_pk S,
      provider_lookup_raw_pkh_ecdsa_sig = (\<lambda>h. map_option fst (lookup_raw_pkh_ecdsa_sig S h)),
      provider_lookup_raw_pkh_tap_leaf_script_sig =
        (\<lambda>h. map_option (\<lambda>(pk, sig). (pk, length sig)) (lookup_raw_pkh_tap_leaf_script_sig S h)),
      provider_lookup_sha256 = (\<lambda>h. lookup_sha256 S h \<noteq> None),
      provider_lookup_hash256 = (\<lambda>h. lookup_hash256 S h \<noteq> None),
      provider_lookup_ripemd160 = (\<lambda>h. lookup_ripemd160 S h \<noteq> None),
      provider_lookup_hash160 = (\<lambda>h. lookup_hash160 S h \<noteq> None),
      check_older = sat_check_older S,
      check_after = sat_check_after S,
      check_tx_template = sat_check_tx_template S\<rparr>"

subsection \<open>Placeholders\<close>

datatype schnorr_sig_type = KeySpend "hash option" | ScriptSpend hash

datatype 'pk placeholder =
    Pubkey 'pk nat
  | PubkeyHash hash nat
  | EcdsaSigPk 'pk
  | EcdsaSigPkHash hash
  | SchnorrSigPk 'pk schnorr_sig_type nat
  | SchnorrSigPkHash hash hash nat
  | Sha256Preimage hash
  | Hash256Preimage hash
  | Ripemd160Preimage hash
  | Hash160Preimage hash
  | HashDissatisfaction
  | PushOne
  | PushZero
  | TapScript bytes
  | TapControlBlock bytes

fun placeholder_size :: "btc \<Rightarrow> 'pk placeholder \<Rightarrow> nat" where
  "placeholder_size L (Pubkey _ sz) = sz"
| "placeholder_size L (PubkeyHash _ sz) = sz"
| "placeholder_size L (EcdsaSigPk _) = 73"
| "placeholder_size L (EcdsaSigPkHash _) = 73"
| "placeholder_size L (SchnorrSigPk _ _ sz) = sz + 1"
| "placeholder_size L (SchnorrSigPkHash _ _ sz) = sz + 1"
| "placeholder_size L HashDissatisfaction = 33"
| "placeholder_size L (Sha256Preimage _) = 33"
| "placeholder_size L (Hash256Preimage _) = 33"
| "placeholder_size L (Ripemd160Preimage _) = 33"
| "placeholder_size L (Hash160Preimage _) = 33"
| "placeholder_size L PushOne = 2"
| "placeholder_size L PushZero = 1"
| "placeholder_size L (TapScript s) = length s + varint_size L (length s)"
| "placeholder_size L (TapControlBlock b) = length b + varint_size L (length b)"

definition witness_size :: "btc \<Rightarrow> 'pk placeholder list \<Rightarrow> nat" where
  "witness_size L ps = sum_list (map (placeholder_size L) ps) + varint_size L (length ps)"

text \<open>\<open>satisfy_self\<close>; \<open>or\<close> is the option combinator of the same name.\<close>

fun option_or :: "'a option \<Rightarrow> 'a option \<Rightarrow> 'a option" where
  "option_or (Some x) _ = Some x"
| "option_or None y = y"

fun satisfy_self :: "btc \<Rightarrow> 'pk key_ops \<Rightarrow> 'pk satisfier \<Rightarrow> 'pk placeholder \<Rightarrow> bytes option" where
  "satisfy_self L K S (Pubkey pk sz) =
     (if sz = 33 then Some (xonly_serialize L (to_x_only_pubkey K pk))
      else Some (pubkey_to_bytes L (to_public_key K pk)))"
| "satisfy_self L K S (PubkeyHash pkh sz) =
     map_option (pubkey_to_bytes L)
       (option_or (lookup_raw_pkh_pk S pkh) (map_option fst (lookup_raw_pkh_ecdsa_sig S pkh)))"
| "satisfy_self L K S (Hash256Preimage h) = lookup_hash256 S h"
| "satisfy_self L K S (Sha256Preimage h) = lookup_sha256 S h"
| "satisfy_self L K S (Hash160Preimage h) = lookup_hash160 S h"
| "satisfy_self L K S (Ripemd160Preimage h) = lookup_ripemd160 S h"
| "satisfy_self L K S (EcdsaSigPk pk) = lookup_ecdsa_sig S pk"
| "satisfy_self L K S (EcdsaSigPkHash pkh) = map_option snd (lookup_raw_pkh_ecdsa_sig S pkh)"
| "satisfy_self L K S (SchnorrSigPk pk (ScriptSpend lh) sz) = lookup_tap_leaf_script_sig S pk lh"
| "satisfy_self L K S (SchnorrSigPk pk (KeySpend _) sz) = lookup_tap_key_spend_sig S pk"
| "satisfy_self L K S (SchnorrSigPkHash pkh lh sz) =
     map_option snd (lookup_raw_pkh_tap_leaf_script_sig S (pkh, lh))"
| "satisfy_self L K S HashDissatisfaction = Some (replicate 32 0)"
| "satisfy_self L K S PushZero = Some []"
| "satisfy_self L K S PushOne = Some [1]"
| "satisfy_self L K S (TapScript s) = Some s"
| "satisfy_self L K S (TapControlBlock b) = Some b"

subsection \<open>Witnesses\<close>

datatype 'a witness = Stack "'a list" | Unavailable | Impossible

text \<open>\<open>Ord for Witness\<close>: the test \<open>a < b\<close>.\<close>

fun witness_less :: "btc \<Rightarrow> 'pk placeholder witness \<Rightarrow> 'pk placeholder witness \<Rightarrow> bool" where
  "witness_less L (Stack v1) (Stack v2) = (witness_size L v1 < witness_size L v2)"
| "witness_less L (Stack _) _ = True"
| "witness_less L _ (Stack _) = False"
| "witness_less L Impossible Unavailable = True"
| "witness_less L _ _ = False"

fun combine :: "'a witness \<Rightarrow> 'a witness \<Rightarrow> 'a witness" where
  "combine Impossible _ = Impossible"
| "combine _ Impossible = Impossible"
| "combine Unavailable _ = Unavailable"
| "combine _ Unavailable = Unavailable"
| "combine (Stack a) (Stack b) = Stack (a @ b)"

definition push_1 :: "'pk placeholder witness" where "push_1 = Stack [PushOne]"
definition push_0 :: "'pk placeholder witness" where "push_0 = Stack [PushZero]"
definition wit_empty :: "'pk placeholder witness" where "wit_empty = Stack []"
definition hash_dissatisfaction :: "'pk placeholder witness" where
  "hash_dissatisfaction = Stack [HashDissatisfaction]"

subsection \<open>Satisfactions\<close>

record 'a satisfaction =
  sat_stack :: "'a witness"
  has_sig :: bool
  absolute_timelock :: "abs_lock_time option"
  relative_timelock :: "rel_lock_time option"

type_synonym 'pk template = "'pk placeholder satisfaction"

abbreviation mk_satisfaction ::
    "'a witness \<Rightarrow> bool \<Rightarrow> abs_lock_time option \<Rightarrow> rel_lock_time option \<Rightarrow> 'a satisfaction" where
  "mk_satisfaction w s a r \<equiv>
     \<lparr>sat_stack = w, has_sig = s, absolute_timelock = a, relative_timelock = r\<rparr>"

definition sat_empty :: "'pk template" where
  "sat_empty = mk_satisfaction (Stack []) False None None"

definition concatenate_rev :: "'pk template \<Rightarrow> 'pk template \<Rightarrow> 'pk template" where
  "concatenate_rev this other =
     mk_satisfaction (combine (sat_stack other) (sat_stack this)) (has_sig this \<or> has_sig other)
       (max (absolute_timelock this) (absolute_timelock other))
       (max (relative_timelock this) (relative_timelock other))"

text \<open>The environment that the helpers thread: the library, the key traits, the context, the asset
  provider, the two flags, and the two strategies.\<close>

record 'pk sat_env =
  env_lib :: btc
  env_keys :: "'pk key_ops"
  env_ctx :: script_context
  env_provider :: "'pk asset_provider"
  env_root_has_sig :: bool
  env_leaf_hash :: hash
  env_min :: "'pk template \<Rightarrow> 'pk template \<Rightarrow> 'pk template"
  env_thresh :: "nat \<Rightarrow> 'pk template list \<Rightarrow> 'pk template list \<Rightarrow> 'pk template option"

definition signature :: "'pk sat_env \<Rightarrow> 'pk \<Rightarrow> 'pk placeholder witness" where
  "signature E pk =
     (case ctx_sig_type (env_ctx E) of
        Ecdsa \<Rightarrow>
          (if provider_lookup_ecdsa_sig (env_provider E) pk then Stack [EcdsaSigPk pk] else Impossible)
      | Schnorr \<Rightarrow>
          (case provider_lookup_tap_leaf_script_sig (env_provider E) pk (env_leaf_hash E) of
             Some sz \<Rightarrow> Stack [SchnorrSigPk pk (ScriptSpend (env_leaf_hash E)) sz]
           | None \<Rightarrow> Impossible))"

text \<open>The key found for a raw key hash is a \<open>bitcoin::PublicKey\<close> or an x-only key; only the
  former can be uncompressed.\<close>

definition pkh_public_key :: "'pk sat_env \<Rightarrow> hash \<Rightarrow> 'pk placeholder witness option" where
  "pkh_public_key E pkh =
     (case ctx_sig_type (env_ctx E) of
        Ecdsa \<Rightarrow>
          (case provider_lookup_raw_pkh_pk (env_provider E) pkh of
             Some pk \<Rightarrow> do { n \<leftarrow> ctx_pk_len (env_ctx E) (\<not> compressed pk); Some (Stack [PubkeyHash pkh n]) }
           | None \<Rightarrow> Some Unavailable)
      | Schnorr \<Rightarrow>
          (case provider_lookup_raw_pkh_x_only_pk (env_provider E) pkh of
             Some pk \<Rightarrow> do { n \<leftarrow> ctx_pk_len (env_ctx E) False; Some (Stack [PubkeyHash pkh n]) }
           | None \<Rightarrow> Some Unavailable))"

definition pkh_signature :: "'pk sat_env \<Rightarrow> hash \<Rightarrow> 'pk placeholder witness option" where
  "pkh_signature E pkh =
     (case ctx_sig_type (env_ctx E) of
        Ecdsa \<Rightarrow>
          (case provider_lookup_raw_pkh_ecdsa_sig (env_provider E) pkh of
             Some pk \<Rightarrow> do { n \<leftarrow> ctx_pk_len (env_ctx E) (\<not> compressed pk);
                             Some (Stack [EcdsaSigPkHash pkh, PubkeyHash pkh n]) }
           | None \<Rightarrow> Some Impossible)
      | Schnorr \<Rightarrow>
          (case provider_lookup_raw_pkh_tap_leaf_script_sig (env_provider E) (pkh, env_leaf_hash E) of
             Some (pk, sz) \<Rightarrow> do { n \<leftarrow> ctx_pk_len (env_ctx E) False;
                                   Some (Stack [SchnorrSigPkHash pkh (env_leaf_hash E) sz, PubkeyHash pkh n]) }
           | None \<Rightarrow> Some Impossible))"

definition ripemd160_preimage :: "'pk sat_env \<Rightarrow> hash \<Rightarrow> 'pk placeholder witness" where
  "ripemd160_preimage E h =
     (if provider_lookup_ripemd160 (env_provider E) h then Stack [Ripemd160Preimage h] else Unavailable)"

definition hash160_preimage :: "'pk sat_env \<Rightarrow> hash \<Rightarrow> 'pk placeholder witness" where
  "hash160_preimage E h =
     (if provider_lookup_hash160 (env_provider E) h then Stack [Hash160Preimage h] else Unavailable)"

definition sha256_preimage :: "'pk sat_env \<Rightarrow> hash \<Rightarrow> 'pk placeholder witness" where
  "sha256_preimage E h =
     (if provider_lookup_sha256 (env_provider E) h then Stack [Sha256Preimage h] else Unavailable)"

definition hash256_preimage :: "'pk sat_env \<Rightarrow> hash \<Rightarrow> 'pk placeholder witness" where
  "hash256_preimage E h =
     (if provider_lookup_hash256 (env_provider E) h then Stack [Hash256Preimage h] else Unavailable)"

subsection \<open>Choosing between two satisfactions\<close>

definition no_template :: "'pk placeholder witness \<Rightarrow> 'pk template" where
  "no_template w = mk_satisfaction w False None None"

definition minimum :: "btc \<Rightarrow> 'pk template \<Rightarrow> 'pk template \<Rightarrow> 'pk template" where
  "minimum L sat1 sat2 =
     (if sat_stack sat1 = Impossible then sat2
      else if sat_stack sat2 = Impossible then sat1
      else (case (has_sig sat1, has_sig sat2) of
              (False, False) \<Rightarrow> no_template Unavailable
            | (False, True) \<Rightarrow>
                mk_satisfaction (sat_stack sat1) False (absolute_timelock sat1) (relative_timelock sat1)
            | (True, False) \<Rightarrow>
                mk_satisfaction (sat_stack sat2) False (absolute_timelock sat2) (relative_timelock sat2)
            | (True, True) \<Rightarrow>
                (if witness_less L (sat_stack sat1) (sat_stack sat2)
                 then mk_satisfaction (sat_stack sat1) True (absolute_timelock sat1) (relative_timelock sat1)
                 else mk_satisfaction (sat_stack sat2) True (absolute_timelock sat2) (relative_timelock sat2))))"

definition minimum_mall :: "btc \<Rightarrow> 'pk template \<Rightarrow> 'pk template \<Rightarrow> 'pk template" where
  "minimum_mall L sat1 sat2 =
     (if sat_stack sat1 = Impossible \<or> sat_stack sat1 = Unavailable then sat2
      else if sat_stack sat2 = Impossible \<or> sat_stack sat2 = Unavailable then sat1
      else if witness_less L (sat_stack sat1) (sat_stack sat2)
      then mk_satisfaction (sat_stack sat1) (has_sig sat1 \<and> has_sig sat2)
             (absolute_timelock sat1) (relative_timelock sat1)
      else mk_satisfaction (sat_stack sat2) (has_sig sat1 \<and> has_sig sat2)
             (absolute_timelock sat2) (relative_timelock sat2))"

subsection \<open>Choosing the children of a threshold\<close>

definition I64_MAX :: int where "I64_MAX = 2 ^ 63 - 1"
definition I64_MIN :: int where "I64_MIN = - (2 ^ 63)"

definition stack_weight :: "btc \<Rightarrow> 'pk template \<Rightarrow> 'pk template \<Rightarrow> int" where
  "stack_weight L sat dis =
     (case (sat_stack sat, sat_stack dis) of
        (Unavailable, _) \<Rightarrow> I64_MAX
      | (Impossible, _) \<Rightarrow> I64_MAX
      | (_, Unavailable) \<Rightarrow> I64_MIN
      | (_, Impossible) \<Rightarrow> I64_MIN
      | (Stack s, Stack d) \<Rightarrow> int (witness_size L s) - int (witness_size L d))"

text \<open>The swapping loop over the first \<open>k\<close> of the sorted indices: it exchanges entries of the two
  vectors, first the one to return and then the one of the satisfactions.\<close>

definition swap_entries :: "nat list \<Rightarrow> 'a list \<times> 'a list \<Rightarrow> 'a list \<times> 'a list" where
  "swap_entries idx rs =
     foldl (\<lambda>(ret, sats) j. (ret[j := sats ! j], sats[j := ret ! j])) rs idx"

definition thresh_nonmall ::
    "btc \<Rightarrow> nat \<Rightarrow> 'pk template list \<Rightarrow> 'pk template list \<Rightarrow> 'pk template option" where
  "thresh_nonmall L k sats dissats =
     (let n = length sats;
          idx = sort_key (\<lambda>i. (sat_stack (sats ! i) = Impossible, has_sig (sats ! i),
                               stack_weight L (sats ! i) (dissats ! i))) [0..<n];
          (ret, sats') = swap_entries (take k idx) (dissats, sats)
      in if k = 0 \<or> n < k then None
         else if sat_stack (sats' ! (idx ! (k - 1))) = Impossible then Some (no_template Impossible)
         else if n \<le> k then None
         else if \<not> has_sig (sats' ! (idx ! k)) \<and> sat_stack (sats' ! (idx ! k)) \<noteq> Impossible
         then (if list_ex has_sig ret then None else Some (no_template Unavailable))
         else Some (foldl concatenate_rev sat_empty ret))"

definition thresh_mall ::
    "btc \<Rightarrow> nat \<Rightarrow> 'pk template list \<Rightarrow> 'pk template list \<Rightarrow> 'pk template option" where
  "thresh_mall L k sats dissats =
     (let n = length sats;
          idx = sort_key (\<lambda>i. stack_weight L (sats ! i) (dissats ! i)) [0..<n];
          (ret, sats') = swap_entries (take k idx) (dissats, sats)
      in if n < k then None else Some (foldl concatenate_rev sat_empty ret))"

subsection \<open>Signatures of multisignature fragments\<close>

text \<open>\<open>multi\<close>: collect, then throw away the longest ones, the last among equals
  (\<open>max_by_key\<close> returns the last maximum).\<close>

fun multi_collect :: "'pk sat_env \<Rightarrow> 'pk list \<Rightarrow> 'pk placeholder list list option" where
  "multi_collect E [] = Some []"
| "multi_collect E (pk # pks) =
     (case signature E pk of
        Stack sig \<Rightarrow> do { rest \<leftarrow> multi_collect E pks; Some (sig # rest) }
      | Impossible \<Rightarrow> multi_collect E pks
      | Unavailable \<Rightarrow> None)"

fun last_max_idx :: "nat \<Rightarrow> nat \<Rightarrow> nat \<Rightarrow> 'a list list \<Rightarrow> nat" where
  "last_max_idx i best len [] = best"
| "last_max_idx i best len (v # vs) =
     (if length v \<ge> len then last_max_idx (Suc i) i (length v) vs
      else last_max_idx (Suc i) best len vs)"

fun drop_most_expensive :: "nat \<Rightarrow> 'a list list \<Rightarrow> 'a list list" where
  "drop_most_expensive 0 sigs = sigs"
| "drop_most_expensive (Suc c) sigs =
     drop_most_expensive c (sigs[last_max_idx 0 0 0 sigs := []])"

definition satisfy_multi :: "'pk sat_env \<Rightarrow> 'pk threshold \<Rightarrow> 'pk template option" where
  "satisfy_multi E t =
     do { sigs \<leftarrow> multi_collect E (thr_data t);
          Some (if length sigs < thr_k t then no_template Impossible
                else mk_satisfaction
                       (foldl (\<lambda>acc sig. combine acc (Stack sig)) push_0
                          (drop_most_expensive (length sigs - thr_k t) sigs))
                       True None None) }"

text \<open>\<open>multi_a\<close>: the keys in reverse order, each position filled as its signature is found, until
  \<open>k\<close> of them are.\<close>

fun multi_a_collect ::
    "'pk sat_env \<Rightarrow> nat \<Rightarrow> nat \<Rightarrow> nat \<Rightarrow> 'pk placeholder list list \<Rightarrow> 'pk list
      \<Rightarrow> (nat \<times> 'pk placeholder list list) option" where
  "multi_a_collect E k i count sigs [] = Some (count, sigs)"
| "multi_a_collect E k i count sigs (pk # pks) =
     (case signature E pk of
        Stack sig \<Rightarrow>
          (if Suc count = k then Some (Suc count, sigs[i := sig])
           else multi_a_collect E k (Suc i) (Suc count) (sigs[i := sig]) pks)
      | Impossible \<Rightarrow> multi_a_collect E k (Suc i) count sigs pks
      | Unavailable \<Rightarrow> None)"

definition satisfy_multi_a :: "'pk sat_env \<Rightarrow> 'pk threshold \<Rightarrow> 'pk template option" where
  "satisfy_multi_a E t =
     do { (count, sigs) \<leftarrow>
            multi_a_collect E (thr_k t) 0 0 (replicate (thr_n t) [PushZero]) (rev (thr_data t));
          Some (if count < thr_k t then no_template Impossible
                else mk_satisfaction (foldl (\<lambda>acc sig. combine acc (Stack sig)) wit_empty sigs)
                       True None None) }"

subsection \<open>Timelocks\<close>

definition satisfy_after :: "'pk sat_env \<Rightarrow> abs_lock_time \<Rightarrow> 'pk template" where
  "satisfy_after E t =
     (if check_after (env_provider E) (abs_lock_of (env_lib E) t)
      then mk_satisfaction wit_empty False (Some t) None
      else if env_root_has_sig E then no_template Impossible
      else no_template Unavailable)"

definition satisfy_older :: "'pk sat_env \<Rightarrow> rel_lock_time \<Rightarrow> 'pk template option" where
  "satisfy_older E t =
     do { lock \<leftarrow> rel_lock_of (env_lib E) t;
          Some (if check_older (env_provider E) lock
                then mk_satisfaction wit_empty False None (Some t)
                else if env_root_has_sig E then no_template Impossible
                else no_template Unavailable) }"

subsection \<open>Satisfying and dissatisfying a fragment\<close>

definition with_top :: "'pk template \<Rightarrow> 'pk placeholder witness \<Rightarrow> 'pk template" where
  "with_top s w = s\<lparr>sat_stack := combine (sat_stack s) w\<rparr>"

definition pubkey_of :: "'pk sat_env \<Rightarrow> 'pk \<Rightarrow> 'pk placeholder witness option" where
  "pubkey_of E pk =
     do { n \<leftarrow> ctx_pk_len (env_ctx E) (is_uncompressed (env_keys E) pk); Some (Stack [Pubkey pk n]) }"

fun satisfy_helper :: "'pk sat_env \<Rightarrow> 'pk miniscript \<Rightarrow> 'pk template option"
  and dissatisfy_helper :: "'pk sat_env \<Rightarrow> 'pk miniscript \<Rightarrow> 'pk template option" where
  "satisfy_helper E (Miniscript (PkK pk) ty ext) =
     Some (mk_satisfaction (signature E pk) True None None)"
| "satisfy_helper E (Miniscript (PkH pk) ty ext) =
     do { w \<leftarrow> pubkey_of E pk; Some (mk_satisfaction (combine (signature E pk) w) True None None) }"
| "satisfy_helper E (Miniscript (RawPkH h) ty ext) =
     do { w \<leftarrow> pkh_signature E h; Some (mk_satisfaction w True None None) }"
| "satisfy_helper E (Miniscript (After t) ty ext) = Some (satisfy_after E t)"
| "satisfy_helper E (Miniscript (Older t) ty ext) = satisfy_older E t"
| "satisfy_helper E (Miniscript (Ripemd160 h) ty ext) = Some (no_template (ripemd160_preimage E h))"
| "satisfy_helper E (Miniscript (Hash160 h) ty ext) = Some (no_template (hash160_preimage E h))"
| "satisfy_helper E (Miniscript (Sha256 h) ty ext) = Some (no_template (sha256_preimage E h))"
| "satisfy_helper E (Miniscript (Hash256 h) ty ext) = Some (no_template (hash256_preimage E h))"
| "satisfy_helper E (Miniscript (TxTemplate h) ty ext) =
     Some (no_template (if check_tx_template (env_provider E) h then wit_empty else Impossible))"
| "satisfy_helper E (Miniscript TrueT ty ext) = Some (no_template wit_empty)"
| "satisfy_helper E (Miniscript FalseT ty ext) = Some (no_template Impossible)"
| "satisfy_helper E (Miniscript (InscribePre ins x) ty ext) = satisfy_helper E x"
| "satisfy_helper E (Miniscript (InscribePost ins x) ty ext) = satisfy_helper E x"
| "satisfy_helper E (Miniscript (Alt x) ty ext) = satisfy_helper E x"
| "satisfy_helper E (Miniscript (Swap x) ty ext) = satisfy_helper E x"
| "satisfy_helper E (Miniscript (Check x) ty ext) = satisfy_helper E x"
| "satisfy_helper E (Miniscript (Verify x) ty ext) = satisfy_helper E x"
| "satisfy_helper E (Miniscript (NonZero x) ty ext) = satisfy_helper E x"
| "satisfy_helper E (Miniscript (ZeroNotEqual x) ty ext) = satisfy_helper E x"
| "satisfy_helper E (Miniscript (DupIf x) ty ext) =
     do { sat \<leftarrow> satisfy_helper E x; Some (with_top sat push_1) }"
| "satisfy_helper E (Miniscript (AndV l r) ty ext) =
     do { l_sat \<leftarrow> satisfy_helper E l; r_sat \<leftarrow> satisfy_helper E r; Some (concatenate_rev l_sat r_sat) }"
| "satisfy_helper E (Miniscript (AndB l r) ty ext) =
     do { l_sat \<leftarrow> satisfy_helper E l; r_sat \<leftarrow> satisfy_helper E r; Some (concatenate_rev l_sat r_sat) }"
| "satisfy_helper E (Miniscript (AndOr a b c) ty ext) =
     do { a_sat \<leftarrow> satisfy_helper E a; a_nsat \<leftarrow> dissatisfy_helper E a;
          b_sat \<leftarrow> satisfy_helper E b; c_sat \<leftarrow> satisfy_helper E c;
          Some (env_min E (concatenate_rev a_sat b_sat) (concatenate_rev a_nsat c_sat)) }"
| "satisfy_helper E (Miniscript (OrB l r) ty ext) =
     do { l_sat \<leftarrow> satisfy_helper E l; r_sat \<leftarrow> satisfy_helper E r;
          l_nsat \<leftarrow> dissatisfy_helper E l; r_nsat \<leftarrow> dissatisfy_helper E r;
          if has_sig l_nsat \<or> has_sig r_nsat then None
          else Some (env_min E (concatenate_rev l_nsat r_sat) (concatenate_rev l_sat r_nsat)) }"
| "satisfy_helper E (Miniscript (OrD l r) ty ext) =
     do { l_sat \<leftarrow> satisfy_helper E l; r_sat \<leftarrow> satisfy_helper E r; l_nsat \<leftarrow> dissatisfy_helper E l;
          if has_sig l_nsat then None else Some (env_min E l_sat (concatenate_rev l_nsat r_sat)) }"
| "satisfy_helper E (Miniscript (OrC l r) ty ext) =
     do { l_sat \<leftarrow> satisfy_helper E l; r_sat \<leftarrow> satisfy_helper E r; l_nsat \<leftarrow> dissatisfy_helper E l;
          if has_sig l_nsat then None else Some (env_min E l_sat (concatenate_rev l_nsat r_sat)) }"
| "satisfy_helper E (Miniscript (OrI l r) ty ext) =
     do { l_sat \<leftarrow> satisfy_helper E l; r_sat \<leftarrow> satisfy_helper E r;
          Some (env_min E (with_top l_sat push_1) (with_top r_sat push_0)) }"
| "satisfy_helper E (Miniscript (Thresh (Threshold k xs)) ty ext) =
     (if k = length xs
      then do { sats \<leftarrow> mapM (satisfy_helper E) xs; Some (foldl concatenate_rev sat_empty sats) }
      else do { sats \<leftarrow> mapM (satisfy_helper E) xs; dissats \<leftarrow> mapM (dissatisfy_helper E) xs;
                env_thresh E k sats dissats })"
| "satisfy_helper E (Miniscript (Multi t) ty ext) = satisfy_multi E t"
| "satisfy_helper E (Miniscript (MultiA t) ty ext) = satisfy_multi_a E t"
| "dissatisfy_helper E (Miniscript (PkK pk) ty ext) = Some (no_template push_0)"
| "dissatisfy_helper E (Miniscript (PkH pk) ty ext) =
     do { w \<leftarrow> pubkey_of E pk; Some (no_template (combine push_0 w)) }"
| "dissatisfy_helper E (Miniscript (RawPkH h) ty ext) =
     do { w \<leftarrow> pkh_public_key E h; Some (no_template (combine push_0 w)) }"
| "dissatisfy_helper E (Miniscript FalseT ty ext) = Some (no_template wit_empty)"
| "dissatisfy_helper E (Miniscript TrueT ty ext) = Some (no_template Impossible)"
| "dissatisfy_helper E (Miniscript (TxTemplate h) ty ext) = Some (no_template Impossible)"
| "dissatisfy_helper E (Miniscript (Older t) ty ext) = Some (no_template Impossible)"
| "dissatisfy_helper E (Miniscript (After t') ty ext) = Some (no_template Impossible)"
| "dissatisfy_helper E (Miniscript (Verify x) ty ext) = Some (no_template Impossible)"
| "dissatisfy_helper E (Miniscript (OrC l r) ty ext) = Some (no_template Impossible)"
| "dissatisfy_helper E (Miniscript (Sha256 h) ty ext) = Some (no_template hash_dissatisfaction)"
| "dissatisfy_helper E (Miniscript (Hash256 h) ty ext) = Some (no_template hash_dissatisfaction)"
| "dissatisfy_helper E (Miniscript (Ripemd160 h) ty ext) = Some (no_template hash_dissatisfaction)"
| "dissatisfy_helper E (Miniscript (Hash160 h) ty ext) = Some (no_template hash_dissatisfaction)"
| "dissatisfy_helper E (Miniscript (InscribePre ins x) ty ext) = dissatisfy_helper E x"
| "dissatisfy_helper E (Miniscript (InscribePost ins x) ty ext) = dissatisfy_helper E x"
| "dissatisfy_helper E (Miniscript (Alt x) ty ext) = dissatisfy_helper E x"
| "dissatisfy_helper E (Miniscript (Swap x) ty ext) = dissatisfy_helper E x"
| "dissatisfy_helper E (Miniscript (Check x) ty ext) = dissatisfy_helper E x"
| "dissatisfy_helper E (Miniscript (ZeroNotEqual x) ty ext) = dissatisfy_helper E x"
| "dissatisfy_helper E (Miniscript (DupIf x) ty ext) = Some (no_template push_0)"
| "dissatisfy_helper E (Miniscript (NonZero x) ty ext) = Some (no_template push_0)"
| "dissatisfy_helper E (Miniscript (AndV v r) ty ext) =
     do { vsat \<leftarrow> satisfy_helper E v; odissat \<leftarrow> dissatisfy_helper E r;
          Some (concatenate_rev vsat odissat) }"
| "dissatisfy_helper E (Miniscript (AndB l r) ty ext) =
     do { lnsat \<leftarrow> dissatisfy_helper E l; rnsat \<leftarrow> dissatisfy_helper E r;
          Some (concatenate_rev lnsat rnsat) }"
| "dissatisfy_helper E (Miniscript (OrB l r) ty ext) =
     do { lnsat \<leftarrow> dissatisfy_helper E l; rnsat \<leftarrow> dissatisfy_helper E r;
          Some (concatenate_rev lnsat rnsat) }"
| "dissatisfy_helper E (Miniscript (OrD l r) ty ext) =
     do { lnsat \<leftarrow> dissatisfy_helper E l; rnsat \<leftarrow> dissatisfy_helper E r;
          Some (concatenate_rev lnsat rnsat) }"
| "dissatisfy_helper E (Miniscript (AndOr l m r) ty ext) =
     do { lnsat \<leftarrow> dissatisfy_helper E l; rnsat \<leftarrow> dissatisfy_helper E r;
          Some (concatenate_rev lnsat rnsat) }"
| "dissatisfy_helper E (Miniscript (OrI l r) ty ext) =
     do { lnsat \<leftarrow> dissatisfy_helper E l; rnsat \<leftarrow> dissatisfy_helper E r;
          Some (minimum_mall (env_lib E)
                  (mk_satisfaction (combine (sat_stack lnsat) push_1) (has_sig lnsat) None None)
                  (mk_satisfaction (combine (sat_stack rnsat) push_0) (has_sig rnsat) None None)) }"
| "dissatisfy_helper E (Miniscript (Thresh (Threshold k xs)) ty ext) =
     do { dissats \<leftarrow> mapM (dissatisfy_helper E) xs; Some (foldl concatenate_rev sat_empty dissats) }"
| "dissatisfy_helper E (Miniscript (Multi t) ty ext) =
     Some (no_template (Stack (replicate (thr_k t + 1) PushZero)))"
| "dissatisfy_helper E (Miniscript (MultiA t) ty ext) =
     Some (no_template (Stack (replicate (thr_n t) PushZero)))"

subsection \<open>Entry points\<close>

definition sat_env_nonmall ::
    "btc \<Rightarrow> 'pk key_ops \<Rightarrow> script_context \<Rightarrow> 'pk asset_provider \<Rightarrow> bool \<Rightarrow> hash \<Rightarrow> 'pk sat_env" where
  "sat_env_nonmall L K ctx P root_sig lh =
     \<lparr>env_lib = L, env_keys = K, env_ctx = ctx, env_provider = P, env_root_has_sig = root_sig,
      env_leaf_hash = lh, env_min = minimum L, env_thresh = thresh_nonmall L\<rparr>"

definition sat_env_mall ::
    "btc \<Rightarrow> 'pk key_ops \<Rightarrow> script_context \<Rightarrow> 'pk asset_provider \<Rightarrow> bool \<Rightarrow> hash \<Rightarrow> 'pk sat_env" where
  "sat_env_mall L K ctx P root_sig lh =
     \<lparr>env_lib = L, env_keys = K, env_ctx = ctx, env_provider = P, env_root_has_sig = root_sig,
      env_leaf_hash = lh, env_min = minimum_mall L, env_thresh = thresh_mall L\<rparr>"

definition build_template where
  "build_template L K ctx P root_sig lh ms = satisfy_helper (sat_env_nonmall L K ctx P root_sig lh) ms"

definition build_template_mall where
  "build_template_mall L K ctx P root_sig lh ms = satisfy_helper (sat_env_mall L K ctx P root_sig lh) ms"

fun complete_witness ::
    "btc \<Rightarrow> 'pk key_ops \<Rightarrow> 'pk satisfier \<Rightarrow> 'pk placeholder witness \<Rightarrow> bytes witness option" where
  "complete_witness L K S (Stack ps) = do { items \<leftarrow> mapM (satisfy_self L K S) ps; Some (Stack items) }"
| "complete_witness L K S Unavailable = Some Unavailable"
| "complete_witness L K S Impossible = Some Impossible"

definition try_completing ::
    "btc \<Rightarrow> 'pk key_ops \<Rightarrow> 'pk satisfier \<Rightarrow> 'pk template \<Rightarrow> bytes satisfaction option" where
  "try_completing L K S t =
     do { w \<leftarrow> complete_witness L K S (sat_stack t);
          Some (mk_satisfaction w (has_sig t) (absolute_timelock t) (relative_timelock t)) }"

text \<open>\<open>Miniscript::satisfy\<close>: the outer option is a panic, among them the \<open>expect\<close> that the same
  satisfier completes its own template.\<close>

definition witness_result :: "bytes satisfaction \<Rightarrow> ms_error + bytes list" where
  "witness_result s = (case sat_stack s of Stack st \<Rightarrow> Inr st | _ \<Rightarrow> Inl CouldNotSatisfy)"

definition satisfy ::
    "btc \<Rightarrow> 'pk key_ops \<Rightarrow> script_context \<Rightarrow> 'pk satisfier \<Rightarrow> 'pk miniscript
      \<Rightarrow> (ms_error + bytes list) option" where
  "satisfy L K ctx S ms =
     do { script \<leftarrow> encode L K ctx [] ms;
          t \<leftarrow> build_template L K ctx (provider_of S) (safe (mall (ms_ty ms))) (tap_leaf_hash L script) ms;
          s \<leftarrow> try_completing L K S t;
          Some (witness_result s) }"

definition satisfy_malleable ::
    "btc \<Rightarrow> 'pk key_ops \<Rightarrow> script_context \<Rightarrow> 'pk satisfier \<Rightarrow> 'pk miniscript
      \<Rightarrow> (ms_error + bytes list) option" where
  "satisfy_malleable L K ctx S ms =
     do { script \<leftarrow> encode L K ctx [] ms;
          t \<leftarrow> build_template_mall L K ctx (provider_of S) (safe (mall (ms_ty ms))) (tap_leaf_hash L script) ms;
          s \<leftarrow> try_completing L K S t;
          Some (witness_result s) }"

end
