(* ===== verification/SatChoice.thy ===== *)
theory SatChoice
  imports Satisfy "HOL-Library.Sublist"
begin

section \<open>Choosing satisfactions\<close>

text \<open>
  The interface between the recursive helpers of the satisfier and the two strategies they are
  called with, \<open>min_fn\<close> and \<open>thresh_fn\<close> in the code: the locale \<open>sat_strategy\<close> states what a
  strategy promises (it returns one of its arguments, and exactly \<open>k\<close> satisfactions of a
  threshold), and the interpretations prove it of the non-malleable and of the malleable strategy.
\<close>

subsection \<open>The algebra of witnesses\<close>

lemma combine_Stack [sat_simps]:
  "combine a b = Stack ps \<longleftrightarrow> (\<exists>as bs. a = Stack as \<and> b = Stack bs \<and> ps = as @ bs)"
  by (cases a; cases b) auto

lemma sat_stack_concatenate_rev [sat_simps]:
  "sat_stack (concatenate_rev a b) = combine (sat_stack b) (sat_stack a)"
  by (simp add: concatenate_rev_def)

lemma combine_assoc: "combine (combine a b) c = combine a (combine b c)"
  by (cases a; cases b; cases c) simp_all

lemma combine_empty: "combine (Stack []) a = a" "combine a (Stack []) = a"
  by (cases a; simp)+

lemma combine_Impossible: "combine a Impossible = Impossible"
  by (cases a) simp_all

text \<open>Folding \<open>concatenate_rev\<close> over the parts of a threshold reverses the order of the stacks.\<close>

lemma foldl_concatenate_rev:
  "sat_stack (foldl concatenate_rev s0 ss) = Stack ps \<longleftrightarrow>
     (\<exists>ps0 ws. sat_stack s0 = Stack ps0 \<and> map sat_stack ss = map Stack ws \<and> ps = concat (rev ws) @ ps0)"
proof (induction ss arbitrary: s0)
  case Nil
  then show ?case by auto
next
  case (Cons s ss)
  show ?case (is "?l \<longleftrightarrow> ?r")
  proof
    assume ?l
    then obtain ps0 ws where w: "sat_stack (concatenate_rev s0 s) = Stack ps0"
        "map sat_stack ss = map Stack ws" "ps = concat (rev ws) @ ps0"
      using Cons.IH by auto
    then obtain a b where "sat_stack s0 = Stack a" "sat_stack s = Stack b" "ps0 = b @ a"
      by (auto simp: sat_simps)
    with w show ?r by (intro exI [of _ a] exI [of _ "b # ws"]) simp
  next
    assume ?r
    then obtain ps0 ws where w: "sat_stack s0 = Stack ps0" "map sat_stack (s # ss) = map Stack ws"
      "ps = concat (rev ws) @ ps0" by blast
    then obtain b ws' where b: "ws = b # ws'" by (cases ws) auto
    with w have "sat_stack (concatenate_rev s0 s) = Stack (b @ ps0)"
      "map sat_stack ss = map Stack ws'" "ps = concat (rev ws') @ (b @ ps0)"
      by (auto simp: sat_simps)
    then show ?l using Cons.IH by auto
  qed
qed

lemma foldl_concatenate_rev_empty:
  "sat_stack (foldl concatenate_rev sat_empty ss) = Stack ps \<longleftrightarrow>
     (\<exists>ws. map sat_stack ss = map Stack ws \<and> ps = concat (rev ws))"
  by (auto simp: foldl_concatenate_rev sat_empty_def)

subsection \<open>The contract of a strategy\<close>

text \<open>\<open>chosen sats dissats bs ws\<close>: the stacks \<open>ws\<close> are those of the satisfactions at the positions
  that \<open>bs\<close> marks and of the dissatisfactions at the others.\<close>

definition chosen ::
    "'a satisfaction list \<Rightarrow> 'a satisfaction list \<Rightarrow> bool list \<Rightarrow> 'a list list \<Rightarrow> bool" where
  "chosen sats dissats bs ws \<longleftrightarrow>
     length bs = length sats \<and> length ws = length sats
     \<and> (\<forall>i < length sats. sat_stack ((if bs ! i then sats else dissats) ! i) = Stack (ws ! i))"

locale sat_strategy =
  fixes minf :: "'pk template \<Rightarrow> 'pk template \<Rightarrow> 'pk template"
    and threshf :: "nat \<Rightarrow> 'pk template list \<Rightarrow> 'pk template list \<Rightarrow> 'pk template option"
  assumes min_picks:
      "sat_stack (minf a b) = Stack ps \<Longrightarrow> sat_stack a = Stack ps \<or> sat_stack b = Stack ps"
    and thresh_picks:
      "threshf k sats dissats = Some t \<Longrightarrow> sat_stack t = Stack ps \<Longrightarrow> length dissats = length sats \<Longrightarrow>
         k \<le> length sats \<Longrightarrow>
         \<exists>bs ws. chosen sats dissats bs ws \<and> count_true bs = k \<and> ps = concat (rev ws)"

subsection \<open>The swapping loop\<close>

lemma swap_entries_eq:
  assumes "distinct idx" "set idx \<subseteq> {..<length ret}" "length sats = length ret"
  shows "swap_entries idx (ret, sats) =
    (map (\<lambda>i. (if i \<in> set idx then sats else ret) ! i) [0..<length ret],
     map (\<lambda>i. (if i \<in> set idx then ret else sats) ! i) [0..<length ret])"
  using assms
proof (induction idx arbitrary: ret sats)
  case Nil
  have "map (\<lambda>i. ret ! i) [0..<length ret] = ret" "map (\<lambda>i. sats ! i) [0..<length ret] = sats"
    using map_nth [of ret] map_nth [of sats] Nil.prems(3) by simp_all
  then show ?case by (simp add: swap_entries_def)
next
  case (Cons j idx)
  let ?ret = "ret[j := sats ! j]" and ?sats = "sats[j := ret ! j]"
  have "swap_entries (j # idx) (ret, sats) = swap_entries idx (?ret, ?sats)"
    by (simp add: swap_entries_def)
  also have "\<dots> = (map (\<lambda>i. (if i \<in> set idx then ?sats else ?ret) ! i) [0..<length ret],
      map (\<lambda>i. (if i \<in> set idx then ?ret else ?sats) ! i) [0..<length ret])"
    by (rule Cons.IH [of ?ret ?sats, unfolded length_list_update]) (use Cons.prems in simp_all)
  also have "\<dots> = (map (\<lambda>i. (if i \<in> set (j # idx) then sats else ret) ! i) [0..<length ret],
      map (\<lambda>i. (if i \<in> set (j # idx) then ret else sats) ! i) [0..<length ret])"
    using Cons.prems by (auto simp: nth_list_update)
  finally show ?case .
qed

text \<open>Whatever the order of the indices, the loop over the first \<open>k\<close> of them leaves a choice of \<open>k\<close>
  satisfactions.\<close>

lemma swap_entries_chosen:
  fixes f :: "nat \<Rightarrow> 'b::linorder"
  assumes idx: "idx = sort_key f [0..<length sats]" and len: "length dissats = length sats"
    and k: "k \<le> length sats"
    and ps: "sat_stack (foldl concatenate_rev sat_empty (fst (swap_entries (take k idx) (dissats, sats)))) = Stack ps"
  shows "\<exists>bs ws. chosen sats dissats bs ws \<and> count_true bs = k \<and> ps = concat (rev ws)"
proof -
  let ?S = "set (take k idx)" and ?n = "length sats"
  have d: "distinct idx" "set idx = {..<?n}" "length idx = ?n"
    by (simp_all add: idx distinct_sort atLeast0LessThan)
  have sub: "?S \<subseteq> {..<?n}" using set_take_subset [of k idx] d(2) by simp
  have "swap_entries (take k idx) (dissats, sats) =
    (map (\<lambda>i. (if i \<in> ?S then sats else dissats) ! i) [0..<?n],
     map (\<lambda>i. (if i \<in> ?S then dissats else sats) ! i) [0..<?n])"
    using swap_entries_eq [of "take k idx" dissats sats, unfolded len, OF distinct_take [OF d(1)] sub refl] .
  then have "sat_stack (foldl concatenate_rev sat_empty
      (map (\<lambda>i. (if i \<in> ?S then sats else dissats) ! i) [0..<?n])) = Stack ps"
    using ps by (simp only: fst_conv)
  then obtain ws where ws:
      "map sat_stack (map (\<lambda>i. (if i \<in> ?S then sats else dissats) ! i) [0..<?n]) = map Stack ws"
      "ps = concat (rev ws)"
    unfolding foldl_concatenate_rev_empty by blast
  let ?bs = "map (\<lambda>i. i \<in> ?S) [0..<?n]"
  have lw: "length ws = ?n" using map_eq_imp_length_eq [OF ws(1)] by simp
  have "chosen sats dissats ?bs ws"
    unfolding chosen_def
  proof (intro conjI allI impI)
    fix i assume "i < ?n"
    then show "sat_stack ((if ?bs ! i then sats else dissats) ! i) = Stack (ws ! i)"
      using arg_cong [OF ws(1), of "\<lambda>xs. xs ! i"] lw by simp
  qed (simp_all add: lw)
  moreover have "count_true ?bs = k"
  proof -
    have "count_true ?bs = length (filter (\<lambda>i. i \<in> ?S) [0..<?n])"
      by (simp add: count_true_def filter_map comp_def)
    also have "\<dots> = card (set (filter (\<lambda>i. i \<in> ?S) [0..<?n]))"
      by (rule distinct_card [symmetric]) simp
    also have "set (filter (\<lambda>i. i \<in> ?S) [0..<?n]) = ?S" using sub by auto
    also have "card ?S = k" using d k by (simp add: distinct_card)
    finally show ?thesis .
  qed
  ultimately show ?thesis using ws(2) by blast
qed

subsection \<open>The two strategies of the code\<close>

lemma minimum_picks:
  "sat_stack (minimum L a b) = Stack ps \<Longrightarrow> sat_stack a = Stack ps \<or> sat_stack b = Stack ps"
  by (auto simp: minimum_def no_template_def split: if_splits bool.splits)

lemma minimum_mall_picks:
  "sat_stack (minimum_mall L a b) = Stack ps \<Longrightarrow> sat_stack a = Stack ps \<or> sat_stack b = Stack ps"
  by (auto simp: minimum_mall_def split: if_splits)

lemma thresh_nonmall_picks:
  assumes "thresh_nonmall L k sats dissats = Some t" "sat_stack t = Stack ps"
    "length dissats = length sats" "k \<le> length sats"
  shows "\<exists>bs ws. chosen sats dissats bs ws \<and> count_true bs = k \<and> ps = concat (rev ws)"
proof (rule swap_entries_chosen [OF refl assms(3,4)])
  let ?idx = "sort_key (\<lambda>i. (sat_stack (sats ! i) = Impossible, has_sig (sats ! i),
                              stack_weight L (sats ! i) (dissats ! i))) [0..<length sats]"
  have "t = foldl concatenate_rev sat_empty (fst (swap_entries (take k ?idx) (dissats, sats)))"
    using assms(1,2)
    by (auto simp: thresh_nonmall_def Let_def no_template_def split: prod.splits if_splits)
  then show "sat_stack (foldl concatenate_rev sat_empty (fst (swap_entries (take k ?idx) (dissats, sats)))) = Stack ps"
    using assms(2) by simp
qed

lemma thresh_mall_picks:
  assumes "thresh_mall L k sats dissats = Some t" "sat_stack t = Stack ps"
    "length dissats = length sats" "k \<le> length sats"
  shows "\<exists>bs ws. chosen sats dissats bs ws \<and> count_true bs = k \<and> ps = concat (rev ws)"
proof (rule swap_entries_chosen [OF refl assms(3,4)])
  let ?idx = "sort_key (\<lambda>i. stack_weight L (sats ! i) (dissats ! i)) [0..<length sats]"
  have "t = foldl concatenate_rev sat_empty (fst (swap_entries (take k ?idx) (dissats, sats)))"
    using assms(1) by (auto simp: thresh_mall_def Let_def split: prod.splits if_splits)
  then show "sat_stack (foldl concatenate_rev sat_empty (fst (swap_entries (take k ?idx) (dissats, sats)))) = Stack ps"
    using assms(2) by simp
qed

interpretation nonmall: sat_strategy "minimum L" "thresh_nonmall L" for L
  by unfold_locales (blast dest: minimum_picks intro: thresh_nonmall_picks)+

interpretation malleable: sat_strategy "minimum_mall L" "thresh_mall L" for L
  by unfold_locales (blast dest: minimum_mall_picks intro: thresh_mall_picks)+

end
