(* ===== verification/SatMulti.thy ===== *)
theory SatMulti
  imports SatChoice
begin

section \<open>Satisfying multisignatures\<close>

text \<open>
  What the two loops over the keys of a multisignature return: \<open>multi\<close> keeps \<open>k\<close> available
  signatures in the order of their keys, \<open>multi_a\<close> fills \<open>k\<close> positions and leaves the empty vector
  in the others.
\<close>

subsection \<open>Available signatures\<close>

definition available :: "'pk sat_env \<Rightarrow> 'pk \<Rightarrow> bool" where
  "available E pk \<longleftrightarrow> signature E pk \<noteq> Impossible"

definition sig_ph :: "'pk sat_env \<Rightarrow> 'pk \<Rightarrow> 'pk placeholder" where
  "sig_ph E pk = (case signature E pk of Stack (p # _) \<Rightarrow> p | _ \<Rightarrow> PushZero)"

lemma signature_eq: "signature E pk = (if available E pk then Stack [sig_ph E pk] else Impossible)"
  by (auto simp: signature_def available_def sig_ph_def split: sig_type.splits option.splits)

lemma sig_ph_not_zero: "available E pk \<Longrightarrow> sig_ph E pk \<noteq> PushZero"
  by (auto simp: signature_def available_def sig_ph_def split: sig_type.splits option.splits if_splits)

subsection \<open>Dropping the most expensive signatures\<close>

lemma last_max_idx_picks:
  "(last_max_idx i best len vs = best \<and> (\<forall>v \<in> set vs. length v < len))
   \<or> (\<exists>j < length vs. last_max_idx i best len vs = i + j \<and> len \<le> length (vs ! j)
        \<and> (\<forall>v \<in> set vs. length v \<le> length (vs ! j)))"
proof (induction vs arbitrary: i best len)
  case Nil
  then show ?case by simp
next
  case (Cons v vs)
  show ?case
  proof (cases "len \<le> length v")
    case True
    consider "last_max_idx (Suc i) i (length v) vs = i" "\<forall>u \<in> set vs. length u < length v"
      | j where "j < length vs" "last_max_idx (Suc i) i (length v) vs = Suc i + j"
        "length v \<le> length (vs ! j)" "\<forall>u \<in> set vs. length u \<le> length (vs ! j)"
      using Cons.IH [of "Suc i" i "length v"] by blast
    then show ?thesis
    proof cases
      case 1
      with True show ?thesis by (intro disjI2 exI [of _ 0]) auto
    next
      case 2
      with True show ?thesis by (intro disjI2 exI [of _ "Suc j"]) auto
    qed
  next
    case False
    consider "last_max_idx (Suc i) best len vs = best" "\<forall>u \<in> set vs. length u < len"
      | j where "j < length vs" "last_max_idx (Suc i) best len vs = Suc i + j"
        "len \<le> length (vs ! j)" "\<forall>u \<in> set vs. length u \<le> length (vs ! j)"
      using Cons.IH [of "Suc i" best len] by blast
    then show ?thesis
    proof cases
      case 1
      with False show ?thesis by auto
    next
      case 2
      with False show ?thesis by (intro disjI2 exI [of _ "Suc j"]) auto
    qed
  qed
qed

lemma concat_update_Nil:
  assumes "j < length vs"
  shows "subseq (concat (vs[j := []])) (concat vs)"
    and "length (concat (vs[j := []])) + length (vs ! j) = length (concat vs)"
proof -
  have "vs = take j vs @ vs ! j # drop (Suc j) vs" using assms by (rule id_take_nth_drop)
  moreover have "vs[j := []] = take j vs @ [] # drop (Suc j) vs" using assms by (rule upd_conv_take_nth_drop)
  ultimately have eq: "concat vs = concat (take j vs) @ vs ! j @ concat (drop (Suc j) vs)"
    "concat (vs[j := []]) = concat (take j vs) @ concat (drop (Suc j) vs)"
    by (metis concat.simps(2) concat_append, simp)
  show "subseq (concat (vs[j := []])) (concat vs)"
    unfolding eq by (intro list_emb_append_mono) auto
  show "length (concat (vs[j := []])) + length (vs ! j) = length (concat vs)"
    unfolding eq by simp
qed

lemma drop_most_expensive_concat:
  assumes "\<And>v. v \<in> set sigs \<Longrightarrow> length v \<le> 1" "c \<le> length (concat sigs)"
  shows "subseq (concat (drop_most_expensive c sigs)) (concat sigs)
    \<and> length (concat (drop_most_expensive c sigs)) = length (concat sigs) - c"
  using assms
proof (induction c arbitrary: sigs)
  case 0
  then show ?case by simp
next
  case (Suc c)
  let ?j = "last_max_idx 0 0 0 sigs" and ?sigs = "sigs[last_max_idx 0 0 0 sigs := []]"
  have j: "?j < length sigs" "\<forall>v \<in> set sigs. length v \<le> length (sigs ! ?j)"
    using last_max_idx_picks [of 0 0 0 sigs] Suc.prems(2) by auto
  obtain v where "v \<in> set sigs" "v \<noteq> []"
    using Suc.prems(2) by (metis Suc_le_D concat_eq_Nil_conv length_0_conv nat.distinct(1))
  then have one: "length (sigs ! ?j) = 1"
    using j Suc.prems(1) [of "sigs ! ?j"] by (metis One_nat_def Suc_leI le_antisym le_trans length_greater_0_conv nth_mem)
  have "\<And>v. v \<in> set ?sigs \<Longrightarrow> length v \<le> 1"
    using Suc.prems(1) set_update_subset_insert [of sigs ?j "[]"] by (metis insertE list.size(3) subsetD zero_le_one)
  moreover have "c \<le> length (concat ?sigs)" using concat_update_Nil(2) [OF j(1)] Suc.prems(2) one by linarith
  ultimately have "subseq (concat (drop_most_expensive c ?sigs)) (concat ?sigs)"
    "length (concat (drop_most_expensive c ?sigs)) = length (concat ?sigs) - c" using Suc.IH [of ?sigs] by blast+
  with concat_update_Nil [OF j(1)] one show ?case
    by (auto intro: subseq_order.trans)
qed

lemma foldl_combine_Stack:
  "foldl (\<lambda>acc sig. combine acc (Stack sig)) (Stack a) sigs = Stack (a @ concat sigs)"
  by (induction sigs arbitrary: a) simp_all

lemma multi_collect_eq:
  "multi_collect E pks = Some (map (\<lambda>pk. [sig_ph E pk]) (filter (available E) pks))"
  by (induction pks) (simp_all add: signature_eq)

lemma subseq_mapE:
  assumes "subseq xs (map f ys)"
  obtains zs where "subseq zs ys" "xs = map f zs"
  using assms by (auto simp: subseq_conv_nths nths_map)

lemma satisfy_multi_shape:
  assumes "satisfy_multi E t = Some s" "sat_stack s = Stack ps"
  obtains pks where "subseq pks (thr_data t)" "length pks = thr_k t"
    "\<And>pk. pk \<in> set pks \<Longrightarrow> available E pk" "ps = PushZero # map (sig_ph E) pks"
proof -
  let ?av = "filter (available E) (thr_data t)"
  let ?sigs = "map (\<lambda>pk. [sig_ph E pk]) ?av"
  let ?kept = "drop_most_expensive (length ?sigs - thr_k t) ?sigs"
  have c: "concat ?sigs = map (sig_ph E) ?av" by (induction "thr_data t") auto
  have k: "thr_k t \<le> length ?av" and ps: "ps = PushZero # concat ?kept"
    using assms
    by (auto simp: satisfy_multi_def multi_collect_eq no_template_def push_0_def foldl_combine_Stack
        split: if_splits)
  have "subseq (concat ?kept) (concat ?sigs) \<and> length (concat ?kept) = length (concat ?sigs) - (length ?sigs - thr_k t)"
    by (rule drop_most_expensive_concat) (auto simp: c)
  with c k have sub: "subseq (concat ?kept) (map (sig_ph E) ?av)" and len: "length (concat ?kept) = thr_k t"
    by simp_all
  from sub obtain zs where zs: "subseq zs ?av" "concat ?kept = map (sig_ph E) zs"
    by (rule subseq_mapE)
  have "subseq ?av (thr_data t)" by simp
  with zs(1) have "subseq zs (thr_data t)" by (rule subseq_order.trans)
  moreover have "length zs = thr_k t" using len zs(2) by simp
  moreover have "available E pk" if "pk \<in> set zs" for pk
    using that zs(1) set_nths_subset [of ?av] by (fastforce simp: subseq_conv_nths)
  ultimately show thesis using that zs(2) ps by simp
qed

subsection \<open>Filling the positions of \<open>multi_a\<close>\<close>

definition slot :: "'pk sat_env \<Rightarrow> 'pk \<Rightarrow> bool \<Rightarrow> 'pk placeholder" where
  "slot E pk b = (if b then sig_ph E pk else PushZero)"

definition marks_ok :: "'pk sat_env \<Rightarrow> 'pk list \<Rightarrow> bool list \<Rightarrow> bool" where
  "marks_ok E keys bs \<longleftrightarrow> list_all2 (\<lambda>pk b. b \<longrightarrow> available E pk) keys bs"

lemma count_true_update:
  "i < length bs \<Longrightarrow> \<not> bs ! i \<Longrightarrow> count_true (bs[i := True]) = Suc (count_true bs)"
  by (induction bs arbitrary: i) (auto simp: count_true_def split: nat.splits)

lemma count_true_rev: "count_true (rev bs) = count_true bs"
  by (simp add: count_true_def rev_filter [symmetric])

lemma multi_a_collect_shape:
  assumes "multi_a_collect E k i count (map2 (\<lambda>pk b. [slot E pk b]) keys bs) pks = Some (c, sigs)"
    and "pks = drop i keys" "marks_ok E keys bs" "count = count_true bs" "count < k"
    and "\<And>j. i \<le> j \<Longrightarrow> j < length keys \<Longrightarrow> \<not> bs ! j"
  shows "\<exists>bs'. sigs = map2 (\<lambda>pk b. [slot E pk b]) keys bs' \<and> marks_ok E keys bs' \<and> c = count_true bs' \<and> c \<le> k"
  using assms
proof (induction pks arbitrary: i count bs)
  case Nil
  then show ?case by auto
next
  case (Cons pk pks)
  note collect = Cons.prems(1) and ok0 = Cons.prems(3) and fresh = Cons.prems(6)
  have i: "i < length keys" "keys ! i = pk" "pks = drop (Suc i) keys"
    using Cons.prems(2) by (metis drop_eq_Nil leI list.distinct(1), metis nth_via_drop, metis drop_Suc tl_drop list.sel(3))
  have lb: "length bs = length keys" using ok0 by (auto simp: marks_ok_def dest: list_all2_lengthD)
  show ?case
  proof (cases "available E pk")
    case False
    then have "multi_a_collect E k (Suc i) count (map2 (\<lambda>pk b. [slot E pk b]) keys bs) pks = Some (c, sigs)"
      using collect by (simp add: signature_eq)
    from Cons.IH [OF this i(3) ok0 Cons.prems(4,5)] fresh show ?thesis by simp
  next
    case True
    let ?bs = "bs[i := True]"
    have upd: "(map2 (\<lambda>pk b. [slot E pk b]) keys bs)[i := [sig_ph E pk]] = map2 (\<lambda>pk b. [slot E pk b]) keys ?bs"
      using i lb by (auto simp: list_eq_iff_nth_eq nth_list_update slot_def)
    have ok: "marks_ok E keys ?bs"
      using ok0 True i by (auto simp: marks_ok_def list_all2_conv_all_nth nth_list_update)
    have cnt: "count_true ?bs = Suc count"
      using count_true_update [of i bs] fresh [of i] Cons.prems(4) i lb by simp
    show ?thesis
    proof (cases "Suc count = k")
      case k: True
      with collect True upd have "sigs = map2 (\<lambda>pk b. [slot E pk b]) keys ?bs" "c = Suc count"
        by (auto simp: signature_eq)
      with ok cnt k show ?thesis by auto
    next
      case False
      with collect True upd have
        "multi_a_collect E k (Suc i) (Suc count) (map2 (\<lambda>pk b. [slot E pk b]) keys ?bs) pks = Some (c, sigs)"
        by (simp add: signature_eq)
      moreover have "\<not> ?bs ! j" if "Suc i \<le> j" "j < length keys" for j
        using fresh [of j] that by simp
      moreover have "Suc count < k" using False Cons.prems(5) by simp
      ultimately show ?thesis using Cons.IH [OF _ i(3) ok cnt [symmetric]] by blast
    qed
  qed
qed

lemma satisfy_multi_a_shape:
  assumes "satisfy_multi_a E t = Some s" "sat_stack s = Stack ps" "0 < thr_k t"
  obtains bs where "marks_ok E (thr_data t) bs" "count_true bs = thr_k t"
    "ps = rev (map2 (slot E) (thr_data t) bs)"
proof -
  let ?keys = "rev (thr_data t)" and ?bs = "replicate (thr_n t) False"
  have init: "replicate (thr_n t) [PushZero] = map2 (\<lambda>pk b. [slot E pk b]) ?keys ?bs"
    by (auto simp: list_eq_iff_nth_eq slot_def thr_n_def)
  obtain c sigs where run: "multi_a_collect E (thr_k t) 0 0 (map2 (\<lambda>pk b. [slot E pk b]) ?keys ?bs) ?keys = Some (c, sigs)"
    "thr_k t \<le> c" "ps = concat sigs"
    using assms(1,2) init
    by (auto simp: satisfy_multi_a_def no_template_def wit_empty_def foldl_combine_Stack bind_eq_Some_conv
        split: if_splits)
  have "marks_ok E ?keys ?bs" by (simp add: marks_ok_def list_all2_conv_all_nth thr_n_def)
  from multi_a_collect_shape [OF run(1) _ this] assms(3)
  obtain bs where bs: "sigs = map2 (\<lambda>pk b. [slot E pk b]) ?keys bs" "marks_ok E ?keys bs"
    "c = count_true bs" "c \<le> thr_k t"
    by (auto simp: count_true_def thr_n_def)
  have lb: "length bs = length ?keys" using bs(2) by (auto simp: marks_ok_def dest: list_all2_lengthD)
  have "marks_ok E (thr_data t) (rev bs)"
    using bs(2) list_all2_rev1 by (auto simp: marks_ok_def list_all2_rev1)
  moreover have "count_true (rev bs) = thr_k t" using bs run(2) by (simp add: count_true_rev)
  moreover have "ps = rev (map2 (slot E) (thr_data t) (rev bs))"
  proof -
    have "concat (map2 (\<lambda>pk b. [slot E pk b]) ks bs) = map2 (slot E) ks bs" for ks
      by (induction ks bs rule: list_induct2') auto
    then show ?thesis using run(3) bs(1) lb by (simp add: rev_map zip_rev [symmetric])
  qed
  ultimately show thesis using that by blast
qed

end
