(* ===== verification/SatStacks.thy ===== *)
theory SatStacks
  imports SatMulti
begin

section \<open>The stacks the satisfier returns\<close>

text \<open>
  \<open>sats E ms ps\<close> says that the satisfier returns the stack \<open>ps\<close> of placeholders as a satisfaction of
  \<open>ms\<close>, \<open>dissats E ms ps\<close> as a dissatisfaction.  For every fragment one lemma says how such a stack
  is made from those of the children; the lemmas on the fragments with a choice are proved from the
  contract of the strategy.
\<close>

definition gives :: "'pk template option \<Rightarrow> 'pk placeholder list \<Rightarrow> bool" where
  "gives r ps \<longleftrightarrow> (\<exists>t. r = Some t \<and> sat_stack t = Stack ps)"

abbreviation sats :: "'pk sat_env \<Rightarrow> 'pk miniscript \<Rightarrow> 'pk placeholder list \<Rightarrow> bool" where
  "sats E ms ps \<equiv> gives (satisfy_helper E ms) ps"

abbreviation dissats :: "'pk sat_env \<Rightarrow> 'pk miniscript \<Rightarrow> 'pk placeholder list \<Rightarrow> bool" where
  "dissats E ms ps \<equiv> gives (dissatisfy_helper E ms) ps"

lemma gives_simps [simp]:
  "\<not> gives None ps" "gives (Some t) ps \<longleftrightarrow> sat_stack t = Stack ps"
  by (auto simp: gives_def)

lemma givesI: "r = Some t \<Longrightarrow> sat_stack t = Stack ps \<Longrightarrow> gives r ps"
  by (simp add: gives_def)

lemma gives_bind: "gives (r \<bind> f) ps \<longleftrightarrow> (\<exists>t. r = Some t \<and> gives (f t) ps)"
  by (cases r) (auto simp: gives_def)

lemma no_template_stack [sat_simps]: "sat_stack (no_template w) = w"
  by (simp add: no_template_def)

lemma with_top_stack [sat_simps]: "sat_stack (with_top s w) = combine (sat_stack s) w"
  by (simp add: with_top_def)

lemmas push_defs [sat_simps] = push_0_def push_1_def wit_empty_def hash_dissatisfaction_def

subsection \<open>Leaves\<close>

lemma stacks_key:
  "sats E (Miniscript (PkK pk) ty ext) ps \<longleftrightarrow> available E pk \<and> ps = [sig_ph E pk]"
  "dissats E (Miniscript (PkK pk) ty ext) ps \<longleftrightarrow> ps = [PushZero]"
  "sats E (Miniscript (PkH pk) ty ext) ps \<longleftrightarrow>
     (\<exists>n. ctx_pk_len (env_ctx E) (is_uncompressed (env_keys E) pk) = Some n
        \<and> available E pk \<and> ps = [sig_ph E pk, Pubkey pk n])"
  "dissats E (Miniscript (PkH pk) ty ext) ps \<longleftrightarrow>
     (\<exists>n. ctx_pk_len (env_ctx E) (is_uncompressed (env_keys E) pk) = Some n
        \<and> ps = [PushZero, Pubkey pk n])"
  by (auto simp: gives_bind pubkey_of_def sat_simps signature_eq split: if_splits)

lemma stacks_raw_pkh:
  "sats E (Miniscript (RawPkH h) ty ext) ps \<longleftrightarrow> (\<exists>w. pkh_signature E h = Some w \<and> w = Stack ps)"
  "dissats E (Miniscript (RawPkH h) ty ext) ps \<longleftrightarrow>
     (\<exists>w qs. pkh_public_key E h = Some w \<and> w = Stack qs \<and> ps = PushZero # qs)"
  by (auto simp: gives_bind sat_simps)

lemma stacks_time:
  "sats E (Miniscript (After t) ty ext) ps \<longleftrightarrow>
     check_after (env_provider E) (abs_lock_of (env_lib E) t) \<and> ps = []"
  "sats E (Miniscript (Older r) ty ext) ps \<longleftrightarrow>
     (\<exists>n. rel_lock_of (env_lib E) r = Some n \<and> check_older (env_provider E) n \<and> ps = [])"
  "sats E (Miniscript (TxTemplate h) ty ext) ps \<longleftrightarrow> check_tx_template (env_provider E) h \<and> ps = []"
  by (auto simp: gives_bind satisfy_after_def satisfy_older_def sat_simps)

lemma stacks_hash:
  "sats E (Miniscript (Sha256 h) ty ext) ps \<longleftrightarrow> provider_lookup_sha256 (env_provider E) h \<and> ps = [Sha256Preimage h]"
  "sats E (Miniscript (Hash256 h) ty ext) ps \<longleftrightarrow> provider_lookup_hash256 (env_provider E) h \<and> ps = [Hash256Preimage h]"
  "sats E (Miniscript (Hash160 h) ty ext) ps \<longleftrightarrow> provider_lookup_hash160 (env_provider E) h \<and> ps = [Hash160Preimage h]"
  "sats E (Miniscript (Ripemd160 h) ty ext) ps \<longleftrightarrow> provider_lookup_ripemd160 (env_provider E) h \<and> ps = [Ripemd160Preimage h]"
  "dissats E (Miniscript (Sha256 h) ty ext) ps \<longleftrightarrow> ps = [HashDissatisfaction]"
  "dissats E (Miniscript (Hash256 h) ty ext) ps \<longleftrightarrow> ps = [HashDissatisfaction]"
  "dissats E (Miniscript (Hash160 h) ty ext) ps \<longleftrightarrow> ps = [HashDissatisfaction]"
  "dissats E (Miniscript (Ripemd160 h) ty ext) ps \<longleftrightarrow> ps = [HashDissatisfaction]"
  by (auto simp: sat_simps sha256_preimage_def hash256_preimage_def hash160_preimage_def ripemd160_preimage_def)

lemma stacks_const:
  "sats E (Miniscript TrueT ty ext) ps \<longleftrightarrow> ps = []"
  "\<not> dissats E (Miniscript TrueT ty ext) ps"
  "\<not> sats E (Miniscript FalseT ty ext) ps"
  "dissats E (Miniscript FalseT ty ext) ps \<longleftrightarrow> ps = []"
  "\<not> dissats E (Miniscript (After t) ty ext) ps" "\<not> dissats E (Miniscript (Older r) ty ext) ps"
  "\<not> dissats E (Miniscript (TxTemplate h) ty ext) ps"
  by (auto simp: sat_simps)

lemma stacks_multi:
  "sats E (Miniscript (Multi t) ty ext) ps \<Longrightarrow>
     \<exists>pks. subseq pks (thr_data t) \<and> length pks = thr_k t \<and> (\<forall>pk \<in> set pks. available E pk)
        \<and> ps = PushZero # map (sig_ph E) pks"
  "dissats E (Miniscript (Multi t) ty ext) ps \<longleftrightarrow> ps = replicate (thr_k t + 1) PushZero"
  "0 < thr_k t \<Longrightarrow> sats E (Miniscript (MultiA t) ty ext) ps \<Longrightarrow>
     \<exists>bs. marks_ok E (thr_data t) bs \<and> count_true bs = thr_k t \<and> ps = rev (map2 (slot E) (thr_data t) bs)"
  "dissats E (Miniscript (MultiA t) ty ext) ps \<longleftrightarrow> ps = replicate (thr_n t) PushZero"
  by (auto simp: gives_def sat_simps elim!: satisfy_multi_shape satisfy_multi_a_shape)

subsection \<open>Wrappers\<close>

lemma stacks_pass:
  "sats E (Miniscript (InscribePre ins x) ty ext) ps = sats E x ps"
  "dissats E (Miniscript (InscribePre ins x) ty ext) ps = dissats E x ps"
  "sats E (Miniscript (InscribePost ins x) ty ext) ps = sats E x ps"
  "dissats E (Miniscript (InscribePost ins x) ty ext) ps = dissats E x ps"
  "sats E (Miniscript (Alt x) ty ext) ps = sats E x ps"
  "dissats E (Miniscript (Alt x) ty ext) ps = dissats E x ps"
  "sats E (Miniscript (Swap x) ty ext) ps = sats E x ps"
  "dissats E (Miniscript (Swap x) ty ext) ps = dissats E x ps"
  "sats E (Miniscript (Check x) ty ext) ps = sats E x ps"
  "dissats E (Miniscript (Check x) ty ext) ps = dissats E x ps"
  "sats E (Miniscript (ZeroNotEqual x) ty ext) ps = sats E x ps"
  "dissats E (Miniscript (ZeroNotEqual x) ty ext) ps = dissats E x ps"
  "sats E (Miniscript (Verify x) ty ext) ps = sats E x ps"
  "\<not> dissats E (Miniscript (Verify x) ty ext) ps"
  "sats E (Miniscript (NonZero x) ty ext) ps = sats E x ps"
  "dissats E (Miniscript (NonZero x) ty ext) ps \<longleftrightarrow> ps = [PushZero]"
  "sats E (Miniscript (DupIf x) ty ext) ps \<longleftrightarrow> (\<exists>qs. sats E x qs \<and> ps = qs @ [PushOne])"
  "dissats E (Miniscript (DupIf x) ty ext) ps \<longleftrightarrow> ps = [PushZero]"
  by (auto simp: gives_def bind_eq_Some_conv sat_simps)

subsection \<open>Conjunctions\<close>

lemma gives_concatenate_rev:
  "gives (do { a \<leftarrow> l; b \<leftarrow> r; Some (concatenate_rev a b) }) ps \<longleftrightarrow>
     (\<exists>pl pr. gives l pl \<and> gives r pr \<and> ps = pr @ pl)"
  by (auto simp: gives_def bind_eq_Some_conv sat_simps)

lemma stacks_and:
  "sats E (Miniscript (AndV l r) ty ext) ps \<longleftrightarrow> (\<exists>pl pr. sats E l pl \<and> sats E r pr \<and> ps = pr @ pl)"
  "sats E (Miniscript (AndB l r) ty ext) ps \<longleftrightarrow> (\<exists>pl pr. sats E l pl \<and> sats E r pr \<and> ps = pr @ pl)"
  "dissats E (Miniscript (AndV l r) ty ext) ps \<longleftrightarrow> (\<exists>pl pr. sats E l pl \<and> dissats E r pr \<and> ps = pr @ pl)"
  "dissats E (Miniscript (AndB l r) ty ext) ps \<longleftrightarrow> (\<exists>pl pr. dissats E l pl \<and> dissats E r pr \<and> ps = pr @ pl)"
  "dissats E (Miniscript (OrB l r) ty ext) ps \<longleftrightarrow> (\<exists>pl pr. dissats E l pl \<and> dissats E r pr \<and> ps = pr @ pl)"
  "dissats E (Miniscript (OrD l r) ty ext) ps \<longleftrightarrow> (\<exists>pl pr. dissats E l pl \<and> dissats E r pr \<and> ps = pr @ pl)"
  "dissats E (Miniscript (AndOr l m r) ty ext) ps \<longleftrightarrow> (\<exists>pl pr. dissats E l pl \<and> dissats E r pr \<and> ps = pr @ pl)"
  by (simp_all add: gives_concatenate_rev)

lemma stacks_or_dissat:
  "\<not> dissats E (Miniscript (OrC l r) ty ext) ps"
  "dissats E (Miniscript (OrI l r) ty ext) ps \<Longrightarrow>
     \<exists>b qs. dissats E (if b then l else r) qs \<and> ps = qs @ [if b then PushOne else PushZero]"
  by (auto simp: gives_def bind_eq_Some_conv sat_simps dest!: minimum_mall_picks)
    (metis, metis)?

declare satisfy_helper.simps [simp del] dissatisfy_helper.simps [simp del]

text \<open>A threshold: one stack per child, with the mark of those that are satisfactions.\<close>

definition child_stack :: "'pk sat_env \<Rightarrow> 'pk miniscript \<Rightarrow> 'pk placeholder list \<times> bool \<Rightarrow> bool" where
  "child_stack E x wb = (if snd wb then sats E x (fst wb) else dissats E x (fst wb))"

lemma gives_fold:
  assumes "gives (do { ts \<leftarrow> mapM f xs; Some (foldl concatenate_rev sat_empty ts) }) ps"
  shows "\<exists>ws. list_all2 (\<lambda>x. gives (f x)) xs ws \<and> ps = concat (rev ws)"
proof -
  obtain ts ws where ts: "mapM f xs = Some ts" "map sat_stack ts = map Stack ws" "ps = concat (rev ws)"
    using assms by (auto simp: gives_def bind_eq_Some_conv foldl_concatenate_rev_empty)
  have len: "length ts = length xs" "length ts = length ws"
    using ts(1,2) mapM_length map_eq_imp_length_eq by blast+
  have "gives (f (xs ! i)) (ws ! i)" if "i < length xs" for i
    using that mapM_nth [OF ts(1) that] arg_cong [OF ts(2), of "\<lambda>l. l ! i"] len by (simp add: gives_def)
  with len have "list_all2 (\<lambda>x. gives (f x)) xs ws" by (simp add: list_all2_conv_all_nth)
  with ts(3) show ?thesis by blast
qed

lemma dissats_thresh:
  assumes "dissats E (Miniscript (Thresh (Threshold k xs)) ty ext) ps"
  shows "\<exists>wbs. list_all2 (child_stack E) xs wbs \<and> count_true (map snd wbs) = 0 \<and> ps = concat (rev (map fst wbs))"
proof -
  obtain ws where ws: "list_all2 (\<lambda>x. dissats E x) xs ws" "ps = concat (rev ws)"
    using assms gives_fold [of "dissatisfy_helper E" xs ps] by (auto simp: dissatisfy_helper.simps)
  then show ?thesis
    by (intro exI [of _ "map (\<lambda>w. (w, False)) ws"])
      (auto simp: list_all2_map2 child_stack_def count_true_def comp_def)
qed

lemma raw_pkh_stack:
  "sats E (Miniscript (RawPkH h) ty ext) ps \<Longrightarrow>
     \<exists>p n. ps = [p, PubkeyHash h n] \<and>
       (p = EcdsaSigPkHash h \<or> (\<exists>lh sz. p = SchnorrSigPkHash h lh sz))"
  "dissats E (Miniscript (RawPkH h) ty ext) ps \<Longrightarrow> \<exists>n. ps = [PushZero, PubkeyHash h n]"
  by (auto simp: stacks_raw_pkh pkh_signature_def pkh_public_key_def bind_eq_Some_conv
      split: sig_type.splits option.splits)

subsection \<open>Fragments with a choice\<close>

context sat_strategy
begin

lemma gives_min:
  assumes "sat_stack (minf a b) = Stack ps"
  obtains "sat_stack a = Stack ps" | "sat_stack b = Stack ps"
  using min_picks [OF assms] by blast

lemma sats_and_or:
  assumes "env_min E = minf" "sats E (Miniscript (AndOr a b c) ty ext) ps"
  shows "(\<exists>pa pb. sats E a pa \<and> sats E b pb \<and> ps = pb @ pa)
    \<or> (\<exists>pa pc. dissats E a pa \<and> sats E c pc \<and> ps = pc @ pa)"
  using assms(2) by (auto simp: assms(1) satisfy_helper.simps gives_def bind_eq_Some_conv sat_simps dest!: min_picks)

lemma sats_or_b:
  assumes "env_min E = minf" "sats E (Miniscript (OrB l r) ty ext) ps"
  shows "(\<exists>pl pr. dissats E l pl \<and> sats E r pr \<and> ps = pr @ pl)
    \<or> (\<exists>pl pr. sats E l pl \<and> dissats E r pr \<and> ps = pr @ pl)"
  using assms(2) by (auto simp: assms(1) satisfy_helper.simps gives_def bind_eq_Some_conv sat_simps dest!: min_picks split: if_splits)

lemma sats_or_d:
  assumes "env_min E = minf" "sats E (Miniscript (OrD l r) ty ext) ps"
  shows "sats E l ps \<or> (\<exists>pl pr. dissats E l pl \<and> sats E r pr \<and> ps = pr @ pl)"
  using assms(2) by (auto simp: assms(1) satisfy_helper.simps gives_def bind_eq_Some_conv sat_simps dest!: min_picks split: if_splits)

lemma sats_or_c:
  assumes "env_min E = minf" "sats E (Miniscript (OrC l r) ty ext) ps"
  shows "sats E l ps \<or> (\<exists>pl pr. dissats E l pl \<and> sats E r pr \<and> ps = pr @ pl)"
  using assms(2) by (auto simp: assms(1) satisfy_helper.simps gives_def bind_eq_Some_conv sat_simps dest!: min_picks split: if_splits)

lemma sats_or_i:
  assumes "env_min E = minf" "sats E (Miniscript (OrI l r) ty ext) ps"
  shows "\<exists>b qs. sats E (if b then l else r) qs \<and> ps = qs @ [if b then PushOne else PushZero]"
proof -
  obtain tl tr where t: "satisfy_helper E l = Some tl" "satisfy_helper E r = Some tr"
    "sat_stack (minf (with_top tl push_1) (with_top tr push_0)) = Stack ps"
    using assms by (auto simp: satisfy_helper.simps gives_def bind_eq_Some_conv)
  from t(3) show ?thesis
  proof (rule gives_min)
    assume "sat_stack (with_top tl push_1) = Stack ps"
    then obtain qs where "sat_stack tl = Stack qs" "ps = qs @ [PushOne]" by (auto simp: sat_simps)
    with t(1) show ?thesis by (intro exI [of _ True] exI [of _ qs]) (simp add: gives_def)
  next
    assume "sat_stack (with_top tr push_0) = Stack ps"
    then obtain qs where "sat_stack tr = Stack qs" "ps = qs @ [PushZero]" by (auto simp: sat_simps)
    with t(2) show ?thesis by (intro exI [of _ False] exI [of _ qs]) (simp add: gives_def)
  qed
qed

lemma sats_thresh:
  assumes "env_thresh E = threshf" "k \<le> length xs"
    and "sats E (Miniscript (Thresh (Threshold k xs)) ty ext) ps"
  shows "\<exists>wbs. list_all2 (child_stack E) xs wbs \<and> count_true (map snd wbs) = k \<and> ps = concat (rev (map fst wbs))"
proof (cases "k = length xs")
  case True
  then obtain ws where ws: "list_all2 (\<lambda>x. sats E x) xs ws" "ps = concat (rev ws)"
    using assms(3) gives_fold [of "satisfy_helper E" xs ps] by (auto simp: satisfy_helper.simps)
  have "length ws = k" using list_all2_lengthD [OF ws(1)] True by simp
  with ws show ?thesis
    by (intro exI [of _ "map (\<lambda>w. (w, True)) ws"])
      (auto simp: list_all2_map2 child_stack_def count_true_def comp_def)
next
  case False
  then obtain ss ds t where s: "mapM (satisfy_helper E) xs = Some ss" "mapM (dissatisfy_helper E) xs = Some ds"
    "threshf k ss ds = Some t" "sat_stack t = Stack ps"
    using assms by (auto simp: satisfy_helper.simps gives_def bind_eq_Some_conv)
  have len: "length ss = length xs" "length ds = length xs" using s(1,2) mapM_length by blast+
  obtain bs ws where c: "chosen ss ds bs ws" "count_true bs = k" "ps = concat (rev ws)"
    using thresh_picks [OF s(3,4)] len assms(2) by auto
  have lc: "length bs = length xs" "length ws = length xs" using c(1) len by (simp_all add: chosen_def)
  have "child_stack E (xs ! i) (ws ! i, bs ! i)" if "i < length xs" for i
    using c(1) that mapM_nth [OF s(1) that] mapM_nth [OF s(2) that] len
    by (auto simp: chosen_def child_stack_def gives_def)
  with lc c show ?thesis
    by (intro exI [of _ "zip ws bs"]) (simp add: list_all2_conv_all_nth)
qed

end

end
