(* ===== verification/SatShape.thy ===== *)
theory SatShape
  imports SatStacks
begin

section \<open>Input types and witness stacks\<close>

text \<open>
  The \<open>Input\<close> part of the type promises how many stack elements a fragment consumes and whether
  the top one can be the empty vector.  This theory shows that the satisfier keeps the promise:
  every satisfaction and dissatisfaction it computes has the promised number of elements, and no
  satisfaction of an \<open>n\<close> fragment has the empty vector on top.
\<close>

definition args_ok :: "input_type \<Rightarrow> nat \<Rightarrow> bool" where
  "args_ok i n \<longleftrightarrow> (corr_num_args i < 2 \<longrightarrow> n = corr_num_args i)"

definition nonzero_input :: "input_type \<Rightarrow> bool" where
  "nonzero_input i \<longleftrightarrow> i = OneNonZero \<or> i = AnyNonZero"

definition top_nonzero :: "'pk placeholder list \<Rightarrow> bool" where
  "top_nonzero ps \<longleftrightarrow> ps \<noteq> [] \<and> last ps \<noteq> PushZero"

definition sat_shape :: "input_type \<Rightarrow> 'pk placeholder list \<Rightarrow> bool" where
  "sat_shape i ps \<longleftrightarrow> args_ok i (length ps) \<and> (nonzero_input i \<longrightarrow> top_nonzero ps)"

text \<open>The shapes of what the satisfier returns for one node.\<close>

definition sat_shape_of :: "'pk sat_env \<Rightarrow> 'pk miniscript \<Rightarrow> bool" where
  "sat_shape_of E ms \<longleftrightarrow>
     (\<forall>ps. sats E ms ps \<longrightarrow> sat_shape (input (corr (ms_ty ms))) ps)
     \<and> (\<forall>ps. dissats E ms ps \<longrightarrow> args_ok (input (corr (ms_ty ms))) (length ps))"

subsection \<open>The input tables\<close>

lemma args_ok_simps [simp]:
  "args_ok Zero n = (n = 0)" "args_ok One n = (n = 1)" "args_ok OneNonZero n = (n = 1)"
  "args_ok Any n" "args_ok AnyNonZero n"
  by (simp_all add: args_ok_def)

lemma nonzero_input_simps [simp]:
  "\<not> nonzero_input Zero" "\<not> nonzero_input One" "\<not> nonzero_input Any"
  "nonzero_input OneNonZero" "nonzero_input AnyNonZero"
  by (simp_all add: nonzero_input_def)

lemma top_nonzero_simps [simp]:
  "\<not> top_nonzero []" "top_nonzero (ps @ [p]) = (p \<noteq> PushZero)" "top_nonzero [p] = (p \<noteq> PushZero)"
  by (simp_all add: top_nonzero_def)

lemma top_nonzero_append: "top_nonzero ps \<Longrightarrow> top_nonzero (qs @ ps)"
  by (auto simp: top_nonzero_def)

lemma conj_shape:
  "args_ok i (length ps) \<Longrightarrow> args_ok j (length qs) \<Longrightarrow> args_ok (conj_input i j) (length (qs @ ps))"
  "sat_shape i ps \<Longrightarrow> sat_shape j qs \<Longrightarrow> sat_shape (conj_input i j) (qs @ ps)"
  by (cases i; cases j; auto simp: sat_shape_def top_nonzero_append)+

lemma or_b_shape:
  "args_ok i (length ps) \<Longrightarrow> args_ok j (length qs) \<Longrightarrow> args_ok (or_b_input i j) (length (qs @ ps))"
  "\<not> nonzero_input (or_b_input i j)"
  by (cases i; cases j; simp)+

lemma or_d_shape:
  "args_ok i (length ps) \<Longrightarrow> args_ok j (length qs) \<Longrightarrow> args_ok (or_d_input i j) (length (qs @ ps))"
  "args_ok i (length ps) \<Longrightarrow> args_ok (or_d_input i j) (length ps)"
  "\<not> nonzero_input (or_d_input i j)"
  by (cases i; cases j; simp)+

lemma and_or_shape:
  "args_ok i (length ps) \<Longrightarrow> args_ok j (length qs) \<or> args_ok l (length qs) \<Longrightarrow>
     args_ok (and_or_input i j l) (length (qs @ ps))"
  "\<not> nonzero_input (and_or_input i j l)"
  by (cases i; cases j; cases l; simp)+

text \<open>A threshold consumes the sum of its children's arguments.\<close>

definition thresh_input :: "input_type list \<Rightarrow> input_type" where
  "thresh_input is = (let n = sum_list (map corr_num_args is) in
     if n = 0 then Zero else if n = 1 then One else Any)"

lemma args_ok_by_count:
  "(n < 2 \<Longrightarrow> m = n) \<Longrightarrow> args_ok (if n = 0 then Zero else if n = 1 then One else Any) m"
  by (cases "n = 0"; cases "n = 1"; simp)

lemma thresh_shape:
  assumes "list_all2 (\<lambda>i ps. args_ok i (length ps)) is ws"
  shows "args_ok (thresh_input is) (length (concat (rev ws)))" and "\<not> nonzero_input (thresh_input is)"
proof -
  let ?n = "sum_list (map corr_num_args is)"
  have "?n < 2 \<Longrightarrow> sum_list (map length ws) = ?n"
    using assms
  proof (induction rule: list_all2_induct)
    case Nil
    then show ?case by simp
  next
    case (Cons i "is" ps ws)
    then have "args_ok i (length ps)" "corr_num_args i < 2" by simp_all
    with Cons show ?case by (simp add: args_ok_def)
  qed
  moreover have "length (concat (rev ws)) = sum_list (map length ws)"
    by (simp add: length_concat rev_map [symmetric] sum_list_rev)
  ultimately have "?n < 2 \<Longrightarrow> length (concat (rev ws)) = ?n" by simp
  then show "args_ok (thresh_input is) (length (concat (rev ws)))"
    unfolding thresh_input_def Let_def by (rule args_ok_by_count)
  show "\<not> nonzero_input (thresh_input is)" by (simp add: thresh_input_def Let_def)
qed

lemma ty_threshold_input:
  "ty_threshold k ss = Inr t \<Longrightarrow> input (corr t) = thresh_input (map (input \<circ> corr) ss)"
  by (simp add: ty_threshold_Inr thresh_input_def comp_assoc)

lemma child_stack_shapes:
  assumes "list_all2 (child_stack E) xs wbs" "\<And>c. c \<in> set xs \<Longrightarrow> sat_shape_of E c"
  shows "list_all2 (\<lambda>i ps. args_ok i (length ps)) (map (\<lambda>x. input (corr (ms_ty x))) xs) (map fst wbs)"
  using assms
proof (induction xs wbs rule: list_all2_induct)
  case Nil
  then show ?case by simp
next
  case (Cons x xs wb wbs)
  have "sat_shape_of E x" using Cons.prems by simp
  then have "args_ok (input (corr (ms_ty x))) (length (fst wb))"
    using Cons.hyps(1) by (auto simp: sat_shape_of_def sat_shape_def child_stack_def split: if_splits)
  with Cons show ?case by simp
qed

text \<open>The type tables of the leaves.\<close>

lemmas ty_leaf_defs = ty_TRUE_def ty_FALSE_def ty_pk_k_def ty_pk_h_def ty_multi_def ty_multi_a_def
  ty_hash_def ty_time_def ty_tx_template_def corr_TRUE_def corr_FALSE_def corr_pk_k_def corr_pk_h_def
  corr_multi_def corr_multi_a_def corr_hash_def corr_time_def

subsection \<open>The promise is kept\<close>

context sat_strategy
begin

lemma thresh_sat_shape:
  assumes "\<And>c. c \<in> set xs \<Longrightarrow> sat_shape_of E c" and "env_thresh E = threshf"
    and "ty_threshold k (map ms_ty xs) = Inr ty" and "k \<le> length xs"
  shows "sat_shape_of E (Miniscript (Thresh (Threshold k xs)) ty ext)"
proof -
  let ?ms = "Miniscript (Thresh (Threshold k xs)) ty ext"
  let ?is = "map (\<lambda>x. input (corr (ms_ty x))) xs"
  have inp: "input (corr ty) = thresh_input ?is"
    using ty_threshold_input [OF assms(3)] by (simp add: comp_def)
  have "args_ok (thresh_input ?is) (length ps)" if st: "sats E ?ms ps \<or> dissats E ?ms ps" for ps
  proof -
    obtain wbs where "list_all2 (child_stack E) xs wbs" "ps = concat (rev (map fst wbs))"
      using st sats_thresh [OF assms(2,4)] dissats_thresh by blast
    then show ?thesis using thresh_shape(1) child_stack_shapes assms(1) by blast
  qed
  then show ?thesis
    using thresh_shape(2) inp by (simp add: sat_shape_of_def sat_shape_def thresh_input_def Let_def)
qed

lemma sat_shape_typed:
  assumes "typed_ms ms" "env_min E = minf" "env_thresh E = threshf"
  shows "sat_shape_of E ms"
  using assms(1)
proof (induction ms rule: ms_induct)
  case (Node n ty ext)
  have ok: "node_ok n" and ty: "ty_check n = Inr ty" using Node.prems by simp_all
  have IH: "sat_shape_of E c" if "c \<in> set (children n)" for c
    using Node that by simp
  show ?case
  proof (cases n)
    case (Thresh t)
    obtain k xs where t: "t = Threshold k xs" by (cases t)
    show ?thesis
      using thresh_sat_shape [of xs E k ty ext] IH Thresh t assms(3) ty ok
      by (simp add: wf_threshold_def thr_n_def)
  next
    case (Multi t)
    have "top_nonzero ps" if st: "sats E (Miniscript n ty ext) ps" for ps
    proof -
      obtain pks where pks: "length pks = thr_k t" "\<forall>pk \<in> set pks. available E pk" "ps = PushZero # map (sig_ph E) pks"
        using stacks_multi(1) st Multi by blast
      have "pks \<noteq> []" using pks(1) ok Multi by (auto simp: wf_threshold_def)
      then show ?thesis using pks(2,3) by (simp add: top_nonzero_def last_map sig_ph_not_zero)
    qed
    then show ?thesis using ty Multi by (auto simp: sat_shape_of_def sat_shape_def ty_leaf_defs)
  next
    case (MultiA t)
    with ty show ?thesis by (auto simp: sat_shape_of_def sat_shape_def ty_leaf_defs)
  next
    case (RawPkH h)
    with ty show ?thesis
      by (auto simp: sat_shape_of_def sat_shape_def ty_leaf_defs top_nonzero_def dest!: raw_pkh_stack)
  next
    case (DupIf x)
    then show ?thesis using IH [of x] ty by (auto simp: sat_shape_of_def sat_shape_def ty_Inr stacks_pass)
  next
    case (AndV l r)
    then show ?thesis
      using IH [of l] IH [of r] ty
      by (auto simp: sat_shape_of_def ty_Inr stacks_and simp del: length_append intro!: conj_shape)
        (auto simp: sat_shape_def)
  next
    case (AndB l r)
    then show ?thesis
      using IH [of l] IH [of r] ty
      by (auto simp: sat_shape_of_def ty_Inr stacks_and simp del: length_append intro!: conj_shape)
  next
    case (OrB l r)
    then show ?thesis
      using IH [of l] IH [of r] ty
      by (auto simp: sat_shape_of_def sat_shape_def ty_Inr stacks_and or_b_shape(2) simp del: length_append
          intro!: or_b_shape(1) dest!: sats_or_b [OF assms(2)])
  next
    case (OrD l r)
    then show ?thesis
      using IH [of l] IH [of r] ty
      by (auto simp: sat_shape_of_def sat_shape_def ty_Inr stacks_and or_d_shape(3) simp del: length_append
          intro!: or_d_shape(1) intro: or_d_shape(2) dest!: sats_or_d [OF assms(2)])
  next
    case (OrC l r)
    then show ?thesis
      using IH [of l] IH [of r] ty
      by (auto simp: sat_shape_of_def sat_shape_def ty_Inr stacks_or_dissat(1) or_d_shape(3) simp del: length_append
          intro!: or_d_shape(1) intro: or_d_shape(2) dest!: sats_or_c [OF assms(2)])
  next
    case (OrI l r)
    then show ?thesis
      using IH [of l] IH [of r] ty
      by (auto simp: sat_shape_of_def sat_shape_def ty_Inr split: if_splits
          dest!: sats_or_i [OF assms(2)] stacks_or_dissat(2))
  next
    case (AndOr a b c)
    then show ?thesis
      using IH [of a] IH [of b] IH [of c] ty
      by (auto simp: sat_shape_of_def sat_shape_def ty_Inr stacks_and and_or_shape(2) simp del: length_append
          intro!: and_or_shape(1) dest!: sats_and_or [OF assms(2)])
  qed (use IH ty in \<open>auto simp: sat_shape_of_def sat_shape_def ty_Inr ty_leaf_defs stacks_pass stacks_key
        stacks_time stacks_hash stacks_const sig_ph_not_zero top_nonzero_def split: if_splits\<close>)
qed

end

end
