(* ===== verification/InterpStack.thy ===== *)
theory InterpStack
  imports Ast
begin

section \<open>The stack of the interpreter\<close>

text \<open>
  \<^verbatim>\<open>interpreter/stack.rs\<close> with the signature check of
  \<^verbatim>\<open>interpreter/mod.rs\<close>.  The vector of the code is the reversed list here: the head
  is the top of the stack.  An operation that the code gives the type
  \<open>Option<Result<SatisfiedConstraint, Error>>\<close> returns the new stack beside that option; the
  signature-checking closure is a function of the key-signature pair.
\<close>

subsection \<open>Keys, signatures and constraints\<close>

datatype bitcoin_key = Fullkey pubkey | XOnlyPublicKey xonly

datatype key_sig_pair = EcdsaPair pubkey bytes | SchnorrPair xonly bytes

datatype hash_lock_type = LockSha256 hash | LockHash256 hash | LockHash160 hash | LockRipemd160 hash

datatype satisfied_constraint =
    CTxTemplate hash
  | CPublicKey key_sig_pair
  | CPublicKeyHash hash key_sig_pair
  | CHashLock hash_lock_type bytes
  | CRelativeTimelock rel_lock
  | CAbsoluteTimelock abs_lock

datatype interp_error =
    AbsoluteLockTimeNotMet abs_lock
  | AbsoluteLockTimeComparisonInvalid abs_lock abs_lock
  | CouldNotEvaluate
  | EcdsaSig
  | SchnorrSig
  | HashPreimageLengthMismatch
  | InsufficientSignaturesMultiSig
  | InvalidEcdsaSignature pubkey
  | InvalidSchnorrSignature xonly
  | MissingExtraZeroMultiSig
  | MultiSigEvaluationError
  | PkEvaluationError bitcoin_key
  | PkHashVerifyFail hash
  | PubkeyParseError
  | RelativeLockTimeNotMet rel_lock
  | RelativeLockTimeDisabled rel_lock
  | ScriptSatisfactionError
  | TxTemplateHashWrong
  | UnexpectedStackBoolean
  | UnexpectedStackEnd
  | UnexpectedStackElementPush
  | VerifyFailed

text \<open>\<open>to_pubkeyhash\<close> of the trait \<open>ToPublicKey\<close>, through the two conversions of \<open>BitcoinKey\<close>.\<close>

fun bk_to_public_key :: "btc \<Rightarrow> bitcoin_key \<Rightarrow> pubkey" where
  "bk_to_public_key L (Fullkey pk) = pk"
| "bk_to_public_key L (XOnlyPublicKey x) = xonly_to_pubkey L x"

fun bk_to_x_only :: "btc \<Rightarrow> bitcoin_key \<Rightarrow> xonly" where
  "bk_to_x_only L (Fullkey pk) = pubkey_to_xonly L pk"
| "bk_to_x_only L (XOnlyPublicKey x) = x"

definition to_pubkeyhash :: "btc \<Rightarrow> sig_type \<Rightarrow> bitcoin_key \<Rightarrow> hash" where
  "to_pubkeyhash L st key =
     (case st of
        Ecdsa \<Rightarrow> hash160_hash L (pubkey_to_bytes L (bk_to_public_key L key))
      | Schnorr \<Rightarrow> hash160_hash L (xonly_serialize L (bk_to_x_only L key)))"

subsection \<open>Elements\<close>

datatype element = Satisfied | Dissatisfied | Push bytes

definition element_from :: "bytes \<Rightarrow> element" where
  "element_from v = (if v = [1] then Satisfied else if v = [] then Dissatisfied else Push v)"

type_synonym istack = "element list"

type_synonym eval_result = "(interp_error + satisfied_constraint) option"

definition verify_sersig ::
    "btc \<Rightarrow> (key_sig_pair \<Rightarrow> bool) \<Rightarrow> bitcoin_key \<Rightarrow> bytes \<Rightarrow> interp_error + key_sig_pair" where
  "verify_sersig L verify_sig key sigser =
     (case key of
        Fullkey pk \<Rightarrow>
          (case ecdsa_from_slice L sigser of
             None \<Rightarrow> Inl EcdsaSig
           | Some sig \<Rightarrow>
               if verify_sig (EcdsaPair pk sig) then Inr (EcdsaPair pk sig)
               else Inl (InvalidEcdsaSignature pk))
      | XOnlyPublicKey x \<Rightarrow>
          (case schnorr_from_slice L sigser of
             None \<Rightarrow> Inl SchnorrSig
           | Some sig \<Rightarrow>
               if verify_sig (SchnorrPair x sig) then Inr (SchnorrPair x sig)
               else Inl (InvalidSchnorrSignature x)))"

subsection \<open>Evaluating leaves\<close>

fun evaluate_pk ::
    "btc \<Rightarrow> (key_sig_pair \<Rightarrow> bool) \<Rightarrow> bitcoin_key \<Rightarrow> istack \<Rightarrow> istack \<times> eval_result" where
  "evaluate_pk L verify_sig pk [] = ([], Some (Inl UnexpectedStackEnd))"
| "evaluate_pk L verify_sig pk (Dissatisfied # s) = (Dissatisfied # s, None)"
| "evaluate_pk L verify_sig pk (Push sigser # s) =
     (case verify_sersig L verify_sig pk sigser of
        Inr key_sig \<Rightarrow> (Satisfied # s, Some (Inr (CPublicKey key_sig)))
      | Inl e \<Rightarrow> (s, Some (Inl e)))"
| "evaluate_pk L verify_sig pk (Satisfied # s) = (s, Some (Inl (PkEvaluationError pk)))"

definition bitcoin_key_from_slice :: "btc \<Rightarrow> bytes \<Rightarrow> sig_type \<Rightarrow> bitcoin_key option" where
  "bitcoin_key_from_slice L sl st =
     (case st of
        Schnorr \<Rightarrow> map_option XOnlyPublicKey (xonly_from_slice L sl)
      | Ecdsa \<Rightarrow> map_option Fullkey (pubkey_from_slice L sl))"

definition evaluate_pkh ::
    "btc \<Rightarrow> (key_sig_pair \<Rightarrow> bool) \<Rightarrow> hash \<Rightarrow> sig_type \<Rightarrow> istack \<Rightarrow> istack \<times> eval_result" where
  "evaluate_pkh L verify_sig pkh st s0 =
     (case s0 of
        Push pk # s \<Rightarrow>
          (if hash160_hash L pk \<noteq> pkh then (s, Some (Inl (PkHashVerifyFail pkh)))
           else (case bitcoin_key_from_slice L pk st of
                   None \<Rightarrow> (s, Some (Inl PubkeyParseError))
                 | Some key \<Rightarrow>
                     (case s of
                        [] \<Rightarrow> ([], Some (Inl UnexpectedStackEnd))
                      | Dissatisfied # s' \<Rightarrow> (Dissatisfied # s', None)
                      | Push sigser # s' \<Rightarrow>
                          (case verify_sersig L verify_sig key sigser of
                             Inr key_sig \<Rightarrow> (Satisfied # s', Some (Inr (CPublicKeyHash pkh key_sig)))
                           | Inl e \<Rightarrow> (s', Some (Inl e)))
                      | Satisfied # s' \<Rightarrow> (s', Some (Inl (PkEvaluationError key))))))
      | _ # s \<Rightarrow> (s, Some (Inl UnexpectedStackEnd))
      | [] \<Rightarrow> ([], Some (Inl UnexpectedStackEnd)))"

definition evaluate_after :: "abs_lock \<Rightarrow> abs_lock \<Rightarrow> istack \<Rightarrow> istack \<times> eval_result" where
  "evaluate_after n lock_time s =
     (case (case (n, lock_time) of
              (Blocks a, Blocks b) \<Rightarrow> Some (a \<le> b)
            | (Seconds a, Seconds b) \<Rightarrow> Some (a \<le> b)
            | _ \<Rightarrow> None) of
        None \<Rightarrow> (s, Some (Inl (AbsoluteLockTimeComparisonInvalid n lock_time)))
      | Some is_satisfied \<Rightarrow>
          if is_satisfied then (Satisfied # s, Some (Inr (CAbsoluteTimelock n)))
          else (s, Some (Inl (AbsoluteLockTimeNotMet n))))"

definition evaluate_older :: "btc \<Rightarrow> rel_lock \<Rightarrow> u32 \<Rightarrow> istack \<Rightarrow> istack \<times> eval_result" where
  "evaluate_older L n sequence s =
     (case seq_to_relative L sequence of
        Some tx_locktime \<Rightarrow>
          if rel_is_implied_by L n tx_locktime then (Satisfied # s, Some (Inr (CRelativeTimelock n)))
          else (s, Some (Inl (RelativeLockTimeNotMet n)))
      | None \<Rightarrow> (s, Some (Inl (RelativeLockTimeDisabled n))))"

definition evaluate_sha256 :: "btc \<Rightarrow> hash \<Rightarrow> istack \<Rightarrow> istack \<times> eval_result" where
  "evaluate_sha256 L h s0 =
     (case s0 of
        Push preimage # s \<Rightarrow>
          (if length preimage \<noteq> 32 then (s, Some (Inl HashPreimageLengthMismatch))
           else if sha256_hash L preimage = h
           then (Satisfied # s, Some (Inr (CHashLock (LockSha256 h) preimage)))
           else (Dissatisfied # s, None))
      | _ \<Rightarrow> (tl s0, Some (Inl UnexpectedStackEnd)))"

definition evaluate_hash256 :: "btc \<Rightarrow> hash \<Rightarrow> istack \<Rightarrow> istack \<times> eval_result" where
  "evaluate_hash256 L h s0 =
     (case s0 of
        Push preimage # s \<Rightarrow>
          (if length preimage \<noteq> 32 then (s, Some (Inl HashPreimageLengthMismatch))
           else if hash256_hash L preimage = h
           then (Satisfied # s, Some (Inr (CHashLock (LockHash256 h) preimage)))
           else (Dissatisfied # s, None))
      | _ \<Rightarrow> (tl s0, Some (Inl UnexpectedStackEnd)))"

definition evaluate_hash160 :: "btc \<Rightarrow> hash \<Rightarrow> istack \<Rightarrow> istack \<times> eval_result" where
  "evaluate_hash160 L h s0 =
     (case s0 of
        Push preimage # s \<Rightarrow>
          (if length preimage \<noteq> 32 then (s, Some (Inl HashPreimageLengthMismatch))
           else if hash160_hash L preimage = h
           then (Satisfied # s, Some (Inr (CHashLock (LockHash160 h) preimage)))
           else (Dissatisfied # s, None))
      | _ \<Rightarrow> (tl s0, Some (Inl UnexpectedStackEnd)))"

definition evaluate_ripemd160 :: "btc \<Rightarrow> hash \<Rightarrow> istack \<Rightarrow> istack \<times> eval_result" where
  "evaluate_ripemd160 L h s0 =
     (case s0 of
        Push preimage # s \<Rightarrow>
          (if length preimage \<noteq> 32 then (s, Some (Inl HashPreimageLengthMismatch))
           else if ripemd160_hash L preimage = h
           then (Satisfied # s, Some (Inr (CHashLock (LockRipemd160 h) preimage)))
           else (Dissatisfied # s, None))
      | _ \<Rightarrow> (tl s0, Some (Inl UnexpectedStackEnd)))"

text \<open>A signature that does not match is pushed back, for the next key.\<close>

fun evaluate_multi ::
    "btc \<Rightarrow> (key_sig_pair \<Rightarrow> bool) \<Rightarrow> bitcoin_key \<Rightarrow> istack \<Rightarrow> istack \<times> eval_result" where
  "evaluate_multi L verify_sig pk [] = ([], Some (Inl UnexpectedStackEnd))"
| "evaluate_multi L verify_sig pk (Push sigser # s) =
     (case verify_sersig L verify_sig pk sigser of
        Inr key_sig \<Rightarrow> (s, Some (Inr (CPublicKey key_sig)))
      | Inl _ \<Rightarrow> (Push sigser # s, None))"
| "evaluate_multi L verify_sig pk (_ # s) = (s, Some (Inl UnexpectedStackBoolean))"

end
