(* ===== verification/Interp.thy ===== *)
theory Interp
  imports InterpStack
begin

section \<open>The interpreter\<close>

text \<open>
  The iterator \<open>Iter\<close> of \<^verbatim>\<open>interpreter/mod.rs\<close>, a stack machine over the nodes of a
  miniscript.  \<open>step\<close> is one pass through the loop of \<open>iter_next\<close>, \<open>iter_next\<close> the loop with the
  final checks, \<open>next\<close> the iterator method, and \<open>collect_iter\<close> what a client gets that drains
  the iterator.  An index out of range is the outcome \<open>Panic\<close>.

  The machine does not read the cached types of a node.
\<close>

subsection \<open>State\<close>

type_synonym interp_ms = "bitcoin_key miniscript"

record node_state =
  ns_node :: interp_ms
  n_evaluated :: nat
  n_satisfied :: nat

abbreviation mk_node :: "interp_ms \<Rightarrow> nat \<Rightarrow> nat \<Rightarrow> node_state" where
  "mk_node ms i j \<equiv> \<lparr>ns_node = ms, n_evaluated = i, n_satisfied = j\<rparr>"

text \<open>What does not change during a run.\<close>

record interp_env =
  ie_lib :: btc
  ie_verify_sig :: "key_sig_pair \<Rightarrow> bool"
  ie_sequence :: u32
  ie_lock_time :: abs_lock
  ie_tx_template :: "hash option"
  ie_sig_type :: sig_type

record interp_state =
  ist_public_key :: "bitcoin_key option"
  ist_state :: "node_state list"
  ist_stack :: istack
  ist_has_errored :: bool

datatype outcome =
    Cont interp_state
  | Yield satisfied_constraint interp_state
  | Fail interp_error interp_state
  | Panic

text \<open>The helpers of the model: continue with these nodes pushed and this stack, and hand on the
  result of a leaf.\<close>

definition cont :: "interp_state \<Rightarrow> node_state list \<Rightarrow> istack \<Rightarrow> outcome" where
  "cont s ns st = Cont (s\<lparr>ist_state := ns @ ist_state s, ist_stack := st\<rparr>)"

definition fail :: "interp_state \<Rightarrow> interp_error \<Rightarrow> istack \<Rightarrow> outcome" where
  "fail s e st = Fail e (s\<lparr>ist_stack := st\<rparr>)"

definition leaf_result :: "interp_state \<Rightarrow> istack \<times> eval_result \<Rightarrow> outcome" where
  "leaf_result s r =
     (case snd r of
        None \<Rightarrow> cont s [] (fst r)
      | Some (Inr c) \<Rightarrow> Yield c (s\<lparr>ist_stack := fst r\<rparr>)
      | Some (Inl e) \<Rightarrow> fail s e (fst r))"

text \<open>Popping an element that must be a Boolean.\<close>

definition pop_bool :: "interp_state \<Rightarrow> (istack \<Rightarrow> outcome) \<Rightarrow> (istack \<Rightarrow> outcome) \<Rightarrow> outcome" where
  "pop_bool s on_sat on_dissat =
     (case ist_stack s of
        Satisfied # st \<Rightarrow> on_sat st
      | Dissatisfied # st \<Rightarrow> on_dissat st
      | Push _ # st \<Rightarrow> fail s UnexpectedStackElementPush st
      | [] \<Rightarrow> fail s UnexpectedStackEnd [])"

subsection \<open>Multisignatures\<close>

text \<open>\<open>multi_a\<close>: each key is evaluated like a \<open>pk\<close> and its result popped again.\<close>

definition step_multi_a ::
    "interp_env \<Rightarrow> interp_ms \<Rightarrow> bitcoin_key threshold \<Rightarrow> nat \<Rightarrow> nat \<Rightarrow> interp_state \<Rightarrow> outcome" where
  "step_multi_a I node t i j s =
     (if i = thr_n t
      then cont s [] ((if j = thr_k t then Satisfied else Dissatisfied) # ist_stack s)
      else if i > thr_n t then Panic
      else (case evaluate_pk (ie_lib I) (ie_verify_sig I) (thr_data t ! i) (ist_stack s) of
              (st, Some (Inr c)) \<Rightarrow>
                (let s' = s\<lparr>ist_state := mk_node node (i + 1) (j + 1) # ist_state s\<rparr> in
                 case st of
                   _ # st' \<Rightarrow> Yield c (s'\<lparr>ist_stack := st'\<rparr>)
                 | [] \<Rightarrow> fail s' UnexpectedStackEnd [])
            | (st, None) \<Rightarrow>
                (case st of
                   _ # st' \<Rightarrow> cont s [mk_node node (i + 1) j] st'
                 | [] \<Rightarrow> fail (s\<lparr>ist_state := mk_node node (i + 1) j # ist_state s\<rparr>) UnexpectedStackEnd [])
            | (st, Some (Inl e)) \<Rightarrow> fail s e st))"

text \<open>One signature check of \<open>multi\<close> against the key at \<open>n - i - 1\<close>.\<close>

definition multi_check ::
    "interp_env \<Rightarrow> interp_ms \<Rightarrow> bitcoin_key threshold \<Rightarrow> nat \<Rightarrow> nat \<Rightarrow> interp_state \<Rightarrow> outcome" where
  "multi_check I node t i j s =
     (if thr_n t < i + 1 then Panic
      else (case evaluate_multi (ie_lib I) (ie_verify_sig I) (thr_data t ! (thr_n t - i - 1)) (ist_stack s) of
              (st, Some (Inr c)) \<Rightarrow>
                Yield c (s\<lparr>ist_state := mk_node node (i + 1) (j + 1) # ist_state s, ist_stack := st\<rparr>)
            | (st, None) \<Rightarrow> cont s [mk_node node (i + 1) j] st
            | (st, Some (Inl e)) \<Rightarrow> fail s e st))"

definition step_multi ::
    "interp_env \<Rightarrow> interp_ms \<Rightarrow> bitcoin_key threshold \<Rightarrow> nat \<Rightarrow> nat \<Rightarrow> interp_state \<Rightarrow> outcome" where
  "step_multi I node t i j s =
     (if i = 0 then
        (if length (ist_stack s) < thr_k t + 1 then fail s InsufficientSignaturesMultiSig (ist_stack s)
         else (case ist_stack s of
                 Dissatisfied # _ \<Rightarrow>
                   (let sigs = take (thr_k t + 1) (ist_stack s);
                        rest = drop (thr_k t + 1) (ist_stack s);
                        nonsat = length (filter (\<lambda>e. e = Dissatisfied) sigs)
                    in if nonsat = thr_k t + 1 then cont s [] (Dissatisfied # rest)
                       else fail s MissingExtraZeroMultiSig rest)
               | [] \<Rightarrow> fail s UnexpectedStackEnd []
               | _ \<Rightarrow> multi_check I node t i j s))
      else if j = thr_k t then
        (case ist_stack s of
           Dissatisfied # st \<Rightarrow> cont s [] (Satisfied # st)
         | st \<Rightarrow> fail s MissingExtraZeroMultiSig (tl st))
      else if i = thr_n t then fail s MultiSigEvaluationError (ist_stack s)
      else multi_check I node t i j s)"

subsection \<open>Thresholds\<close>

definition step_thresh ::
    "interp_ms \<Rightarrow> interp_ms threshold \<Rightarrow> nat \<Rightarrow> nat \<Rightarrow> interp_state \<Rightarrow> outcome" where
  "step_thresh node t i j s =
     (if i = 0 then
        (case thr_data t of
           [] \<Rightarrow> Panic
         | c # _ \<Rightarrow> cont s [mk_node c 0 0, mk_node node 1 0] (ist_stack s))
      else if i = thr_n t then
        pop_bool s
          (\<lambda>st. cont s [] ((if j + 1 = thr_k t then Satisfied else Dissatisfied) # st))
          (\<lambda>st. cont s [] ((if j = thr_k t then Satisfied else Dissatisfied) # st))
      else
        pop_bool s
          (\<lambda>st. if thr_n t \<le> i then Panic
                else cont s [mk_node (thr_data t ! i) 0 0, mk_node node (i + 1) (j + 1)] st)
          (\<lambda>st. if thr_n t \<le> i then Panic
                else cont s [mk_node (thr_data t ! i) 0 0, mk_node node (i + 1) j] st))"

subsection \<open>One pass through the loop\<close>

text \<open>\<open>node\<close> is the node popped from the state stack, \<open>i\<close> and \<open>j\<close> its counters, and \<open>s\<close> the
  remaining state.  The pattern matches whose guard on \<open>n_evaluated\<close> fails fall through to the last
  one, \<open>CouldNotEvaluate\<close>.\<close>

definition step_node ::
    "interp_env \<Rightarrow> interp_ms \<Rightarrow> nat \<Rightarrow> nat \<Rightarrow> interp_state \<Rightarrow> outcome" where
  "step_node I node i j s =
     (let L = ie_lib I; vs = ie_verify_sig I; st = ist_stack s; sub = (\<lambda>x. mk_node x 0 0) in
      case ms_node node of
        TrueT \<Rightarrow> cont s [] (Satisfied # st)
      | FalseT \<Rightarrow> cont s [] (Dissatisfied # st)
      | PkK pk \<Rightarrow> leaf_result s (evaluate_pk L vs pk st)
      | PkH pk \<Rightarrow> leaf_result s (evaluate_pkh L vs (to_pubkeyhash L (ie_sig_type I) pk) (ie_sig_type I) st)
      | RawPkH h \<Rightarrow> leaf_result s (evaluate_pkh L vs h (ie_sig_type I) st)
      | TxTemplate h \<Rightarrow>
          (if ie_tx_template I = Some h then Yield (CTxTemplate h) s else fail s TxTemplateHashWrong st)
      | After t \<Rightarrow> leaf_result s (evaluate_after (abs_lock_of L t) (ie_lock_time I) st)
      | Older t \<Rightarrow>
          (case rel_lock_of L t of
             None \<Rightarrow> Panic
           | Some n \<Rightarrow> leaf_result s (evaluate_older L n (ie_sequence I) st))
      | Sha256 h \<Rightarrow> leaf_result s (evaluate_sha256 L h st)
      | Hash256 h \<Rightarrow> leaf_result s (evaluate_hash256 L h st)
      | Hash160 h \<Rightarrow> leaf_result s (evaluate_hash160 L h st)
      | Ripemd160 h \<Rightarrow> leaf_result s (evaluate_ripemd160 L h st)
      | Alt x \<Rightarrow> cont s [sub x] st
      | Swap x \<Rightarrow> cont s [sub x] st
      | Check x \<Rightarrow> cont s [sub x] st
      | InscribePre _ x \<Rightarrow> cont s [sub x] st
      | InscribePost _ x \<Rightarrow> cont s [sub x] st
      | DupIf x \<Rightarrow>
          (if i = 0 then
             pop_bool s (\<lambda>st. cont s [sub x, mk_node node 1 1] st) (\<lambda>st. cont s [] (Dissatisfied # st))
           else if i = 1 then cont s [] (Satisfied # st)
           else fail s CouldNotEvaluate st)
      | Verify x \<Rightarrow>
          (if i = 0 then cont s [sub x, mk_node node 1 0] st
           else if i = 1 then
             (case st of
                Satisfied # st' \<Rightarrow> cont s [] st'
              | _ # st' \<Rightarrow> fail s VerifyFailed st'
              | [] \<Rightarrow> fail s UnexpectedStackEnd [])
           else fail s CouldNotEvaluate st)
      | ZeroNotEqual x \<Rightarrow>
          (if i = 0 then cont s [sub x, mk_node node 1 0] st
           else if i = 1 then
             (case st of
                Dissatisfied # st' \<Rightarrow> cont s [] (Dissatisfied # st')
              | _ # st' \<Rightarrow> cont s [] (Satisfied # st')
              | [] \<Rightarrow> fail s UnexpectedStackEnd [])
           else fail s CouldNotEvaluate st)
      | NonZero x \<Rightarrow>
          (case st of
             Dissatisfied # _ \<Rightarrow> cont s [] st
           | _ # _ \<Rightarrow> cont s [sub x] st
           | [] \<Rightarrow> fail s UnexpectedStackEnd [])
      | AndV l r \<Rightarrow> cont s [sub l, sub r] st
      | OrB l r \<Rightarrow>
          (if i = 0 then cont s [sub l, mk_node node 1 0] st
           else if i = 1 then
             pop_bool s (\<lambda>st. cont s [sub r, mk_node node 2 1] st) (\<lambda>st. cont s [sub r, mk_node node 2 0] st)
           else if i = 2 then
             (case st of
                Dissatisfied # st' \<Rightarrow> cont s [] ((if j = 0 then Dissatisfied else Satisfied) # st')
              | _ # st' \<Rightarrow> cont s [] (Satisfied # st')
              | [] \<Rightarrow> fail s UnexpectedStackEnd [])
           else fail s CouldNotEvaluate st)
      | AndB l r \<Rightarrow>
          (if i = 0 then cont s [sub l, mk_node node 1 0] st
           else if i = 1 then
             pop_bool s (\<lambda>st. cont s [sub r, mk_node node 2 1] st) (\<lambda>st. cont s [sub r, mk_node node 2 0] st)
           else if i = 2 then
             (case st of
                Satisfied # st' \<Rightarrow> cont s [] ((if j = 1 then Satisfied else Dissatisfied) # st')
              | _ # st' \<Rightarrow> cont s [] (Dissatisfied # st')
              | [] \<Rightarrow> fail s UnexpectedStackEnd [])
           else fail s CouldNotEvaluate st)
      | OrC l r \<Rightarrow>
          (if i = 0 then cont s [sub l, mk_node node 1 0] st
           else if i = 1 then pop_bool s (\<lambda>st. cont s [] st) (\<lambda>st. cont s [sub r] st)
           else fail s CouldNotEvaluate st)
      | OrD l r \<Rightarrow>
          (if i = 0 then cont s [sub l, mk_node node 1 0] st
           else if i = 1 then pop_bool s (\<lambda>st. cont s [] (Satisfied # st)) (\<lambda>st. cont s [sub r] st)
           else fail s CouldNotEvaluate st)
      | AndOr a b c \<Rightarrow>
          (if i = 0 then cont s [sub a, mk_node node 1 0] st
           else pop_bool s (\<lambda>st. cont s [sub b] st) (\<lambda>st. cont s [sub c] st))
      | OrI l r \<Rightarrow> pop_bool s (\<lambda>st. cont s [sub l] st) (\<lambda>st. cont s [sub r] st)
      | Thresh t \<Rightarrow> step_thresh node t i j s
      | Multi t \<Rightarrow> step_multi I node t i j s
      | MultiA t \<Rightarrow> step_multi_a I node t i j s)"

definition step :: "interp_env \<Rightarrow> interp_state \<Rightarrow> outcome option" where
  "step I s =
     (case ist_state s of
        [] \<Rightarrow> None
      | n # ns \<Rightarrow>
          Some (step_node I (ns_node n) (n_evaluated n) (n_satisfied n) (s\<lparr>ist_state := ns\<rparr>)))"

subsection \<open>Termination\<close>

text \<open>\<open>width\<close> bounds the values of \<open>n_evaluated\<close> at which a node pushes itself again;
  \<open>node_work\<close> bounds the number of loop passes a node can cause from a given counter.\<close>

definition width :: "('pk, 'c) terminal \<Rightarrow> nat" where
  "width n = length (children n) + length (node_keys n)"

fun work :: "'pk miniscript \<Rightarrow> nat" where
  "work (Miniscript n ty ext) =
     (let c = Suc (sum_list (map (\<lambda>x. Suc (work x)) (children n))) in c + width n * c)"

definition child_work :: "('pk, 'pk miniscript) terminal \<Rightarrow> nat" where
  "child_work n = Suc (sum_list (map (\<lambda>x. Suc (work x)) (children n)))"

definition node_work :: "'pk miniscript \<Rightarrow> nat \<Rightarrow> nat" where
  "node_work ms i = child_work (ms_node ms) + (width (ms_node ms) - i) * child_work (ms_node ms)"

lemma node_work_0: "node_work ms 0 = work ms"
  by (cases ms) (simp add: node_work_def child_work_def Let_def)

definition pending_work :: "node_state list \<Rightarrow> nat" where
  "pending_work ns = sum_list (map (\<lambda>n. node_work (ns_node n) (n_evaluated n)) ns)"

lemma pending_work_simps [simp]:
  "pending_work [] = 0"
  "pending_work (n # ns) = node_work (ns_node n) (n_evaluated n) + pending_work ns"
  "pending_work (ms @ ns) = pending_work ms + pending_work ns"
  by (simp_all add: pending_work_def)

lemma node_work_pos: "0 < node_work ms i"
  by (simp add: node_work_def child_work_def)

lemma work_child:
  "x \<in> set (children (ms_node ms)) \<Longrightarrow> work x < child_work (ms_node ms)"
  using member_le_sum_list [of "Suc (work x)" "map (\<lambda>x. Suc (work x)) (children (ms_node ms))"]
  by (auto simp: child_work_def)

lemma child_work_le: "child_work (ms_node ms) \<le> node_work ms i"
  by (simp add: node_work_def)

lemma node_work_Suc:
  assumes "i < width (ms_node ms)"
  shows "node_work ms (Suc i) + child_work (ms_node ms) = node_work ms i"
proof -
  have "width (ms_node ms) - i = Suc (width (ms_node ms) - Suc i)" using assms by simp
  then show ?thesis by (simp add: node_work_def)
qed

text \<open>The work left by an outcome.\<close>

fun outcome_less :: "nat \<Rightarrow> outcome \<Rightarrow> bool" where
  "outcome_less w (Cont s) = (pending_work (ist_state s) < w)"
| "outcome_less w (Yield c s) = (pending_work (ist_state s) < w)"
| "outcome_less w _ = True"

lemma outcome_less_fail [simp]: "outcome_less w (fail s e st)"
  by (simp add: fail_def)

lemma outcome_less_cont [simp]:
  "outcome_less w (cont s ns st) \<longleftrightarrow> pending_work ns + pending_work (ist_state s) < w"
  by (simp add: cont_def)

lemma outcome_less_leaf [simp]:
  "pending_work (ist_state s) < w \<Longrightarrow> outcome_less w (leaf_result s r)"
  by (auto simp: leaf_result_def split: option.splits sum.splits)

lemma outcome_less_pop_bool:
  "(\<And>st. outcome_less w (f st)) \<Longrightarrow> (\<And>st. outcome_less w (g st)) \<Longrightarrow> outcome_less w (pop_bool s f g)"
  by (auto simp: pop_bool_def split: list.splits element.splits)

lemma outcome_less_sub:
  "x \<in> set (children (ms_node ms)) \<Longrightarrow>
     node_work x 0 + pending_work (ist_state s) < node_work ms i + pending_work (ist_state s)"
  using work_child [of x ms] child_work_le [of ms i] by (simp add: node_work_0)

lemma outcome_less_sub_again:
  "x \<in> set (children (ms_node ms)) \<Longrightarrow> i < width (ms_node ms) \<Longrightarrow>
     node_work x 0 + (node_work ms (Suc i) + pending_work (ist_state s)) < node_work ms i + pending_work (ist_state s)"
  using work_child [of x ms] node_work_Suc [of i ms] by (simp add: node_work_0)

lemma outcome_less_again:
  "i < width (ms_node ms) \<Longrightarrow> node_work ms (Suc i) < node_work ms i"
  using node_work_Suc [of i ms] by (simp add: child_work_def)

lemma multi_check_less:
  assumes "ms_node node = Multi t"
  shows "outcome_less (node_work node i + pending_work (ist_state s)) (multi_check I node t i j s)"
proof (cases "thr_n t < i + 1")
  case True
  then show ?thesis by (simp add: multi_check_def)
next
  case False
  then have "node_work node (Suc i) < node_work node i"
    using assms by (intro outcome_less_again) (simp add: width_def thr_n_def)
  with False show ?thesis
    by (auto simp: multi_check_def split: prod.splits option.splits sum.splits)
qed

lemma step_node_less:
  "outcome_less (node_work node i + pending_work (ist_state s)) (step_node I node i j s)"
proof (cases "ms_node node")
  case (Multi t)
  then show ?thesis
    using multi_check_less [OF Multi] node_work_pos [of node i]
    by (auto simp: step_node_def step_multi_def Let_def split: list.splits element.splits)
next
  case (MultiA t)
  have "node_work node (Suc i) < node_work node i" if "i < thr_n t"
    using MultiA that by (intro outcome_less_again) (simp add: width_def thr_n_def)
  with MultiA show ?thesis
    using node_work_pos [of node i]
    by (auto simp: step_node_def step_multi_a_def Let_def split: list.splits prod.splits option.splits sum.splits)
next
  case (Thresh t)
  have w: "width (ms_node node) = thr_n t" using Thresh by (simp add: width_def thr_n_def)
  have "thr_data t ! i \<in> set (children (ms_node node))" if "i < thr_n t"
    using Thresh that by (simp add: thr_n_def)
  then have "node_work (thr_data t ! i) 0 + (node_work node (Suc i) + pending_work (ist_state s))
      < node_work node i + pending_work (ist_state s)" if "i < thr_n t"
    using that w by (intro outcome_less_sub_again) simp_all
  moreover have "thr_data t = c # cs \<Longrightarrow> thr_data t ! 0 = c \<and> 0 < thr_n t" for c cs
    by (simp add: thr_n_def)
  ultimately show ?thesis
    using Thresh node_work_pos [of node i]
    by (auto simp: step_node_def step_thresh_def Let_def intro!: outcome_less_pop_bool split: list.splits)
next
  case (AndV l r)
  then have "node_work l 0 + node_work r 0 < child_work (ms_node node)"
    by (simp add: node_work_0 child_work_def)
  with child_work_le [of node i] AndV show ?thesis
    by (simp add: step_node_def Let_def)
next
  case (Alt x)
  then show ?thesis
    using node_work_pos [of node i] outcome_less_sub [of x node s i]
    by (simp add: step_node_def Let_def split: list.splits element.splits)
next
  case (Swap x)
  then show ?thesis
    using node_work_pos [of node i] outcome_less_sub [of x node s i]
    by (simp add: step_node_def Let_def split: list.splits element.splits)
next
  case (Check x)
  then show ?thesis
    using node_work_pos [of node i] outcome_less_sub [of x node s i]
    by (simp add: step_node_def Let_def split: list.splits element.splits)
next
  case (InscribePre ins x)
  then show ?thesis
    using node_work_pos [of node i] outcome_less_sub [of x node s i]
    by (simp add: step_node_def Let_def split: list.splits element.splits)
next
  case (InscribePost ins x)
  then show ?thesis
    using node_work_pos [of node i] outcome_less_sub [of x node s i]
    by (simp add: step_node_def Let_def split: list.splits element.splits)
next
  case (NonZero x)
  then show ?thesis
    using node_work_pos [of node i] outcome_less_sub [of x node s i]
    by (simp add: step_node_def Let_def split: list.splits element.splits)
next
  case (DupIf x)
  then show ?thesis
    using node_work_pos [of node i] outcome_less_sub_again [of x node 0 s]
    by (auto simp: step_node_def Let_def width_def intro!: outcome_less_pop_bool split: list.splits element.splits)
next
  case (Verify x)
  then show ?thesis
    using node_work_pos [of node i] outcome_less_sub_again [of x node 0 s]
    by (auto simp: step_node_def Let_def width_def intro!: outcome_less_pop_bool split: list.splits element.splits)
next
  case (ZeroNotEqual x)
  then show ?thesis
    using node_work_pos [of node i] outcome_less_sub_again [of x node 0 s]
    by (auto simp: step_node_def Let_def width_def intro!: outcome_less_pop_bool split: list.splits element.splits)
next
  case (OrB l r)
  then show ?thesis
    using node_work_pos [of node i] outcome_less_sub_again [of l node 0 s] outcome_less_sub_again [of r node 1 s]
    by (auto simp: step_node_def Let_def width_def numeral_2_eq_2 intro!: outcome_less_pop_bool
        split: list.splits element.splits)
next
  case (AndB l r)
  then show ?thesis
    using node_work_pos [of node i] outcome_less_sub_again [of l node 0 s] outcome_less_sub_again [of r node 1 s]
    by (auto simp: step_node_def Let_def width_def numeral_2_eq_2 intro!: outcome_less_pop_bool
        split: list.splits element.splits)
next
  case (OrC l r)
  then show ?thesis
    using node_work_pos [of node i] outcome_less_sub_again [of l node 0 s] outcome_less_sub [of r node s i]
    by (auto simp: step_node_def Let_def width_def intro!: outcome_less_pop_bool)
next
  case (OrD l r)
  then show ?thesis
    using node_work_pos [of node i] outcome_less_sub_again [of l node 0 s] outcome_less_sub [of r node s i]
    by (auto simp: step_node_def Let_def width_def intro!: outcome_less_pop_bool)
next
  case (AndOr a b c)
  then show ?thesis
    using outcome_less_sub_again [of a node 0 s] outcome_less_sub [of b node s i] outcome_less_sub [of c node s i]
    by (auto simp: step_node_def Let_def width_def intro!: outcome_less_pop_bool)
next
  case (OrI l r)
  then show ?thesis
    using outcome_less_sub [of l node s i] outcome_less_sub [of r node s i]
    by (auto simp: step_node_def Let_def intro!: outcome_less_pop_bool)
qed (use node_work_pos [of node i] in \<open>auto simp: step_node_def Let_def split: option.splits\<close>)

lemma step_less:
  "step I s = Some out \<Longrightarrow> outcome_less (pending_work (ist_state s)) out"
  using step_node_less [of "ns_node (hd (ist_state s))" "n_evaluated (hd (ist_state s))"
      "s\<lparr>ist_state := tl (ist_state s)\<rparr>" I "n_satisfied (hd (ist_state s))"]
  by (auto simp: step_def split: list.splits)

subsection \<open>The iterator\<close>

definition final_check :: "interp_env \<Rightarrow> interp_state \<Rightarrow> eval_result \<times> interp_state" where
  "final_check I s =
     (case ist_public_key s of
        Some pk \<Rightarrow>
          (case ist_stack s of
             Push sig # st \<Rightarrow>
               (case verify_sersig (ie_lib I) (ie_verify_sig I) pk sig of
                  Inr key_sig \<Rightarrow>
                    (Some (Inr (CPublicKey key_sig)),
                     s\<lparr>ist_public_key := None, ist_stack := Satisfied # st\<rparr>)
                | Inl _ \<Rightarrow> (Some (Inl (PkEvaluationError pk)), s\<lparr>ist_stack := st\<rparr>))
           | st \<Rightarrow> (Some (Inl UnexpectedStackEnd), s\<lparr>ist_stack := tl st\<rparr>))
      | None \<Rightarrow>
          (if ist_stack s = [Satisfied] then (None, s\<lparr>ist_stack := []\<rparr>)
           else (Some (Inl ScriptSatisfactionError), s\<lparr>ist_stack := tl (ist_stack s)\<rparr>)))"

text \<open>\<open>iter_next\<close>; the outer option is a panic.\<close>

function iter_next :: "interp_env \<Rightarrow> interp_state \<Rightarrow> (eval_result \<times> interp_state) option" where
  "iter_next I s =
     (case step I s of
        None \<Rightarrow> Some (final_check I s)
      | Some (Cont s') \<Rightarrow> iter_next I s'
      | Some (Yield c s') \<Rightarrow> Some (Some (Inr c), s')
      | Some (Fail e s') \<Rightarrow> Some (Some (Inl e), s')
      | Some Panic \<Rightarrow> None)"
  by auto
termination
  by (relation "measure (\<lambda>(I, s). pending_work (ist_state s))") (auto dest: step_less)

declare iter_next.simps [simp del]

definition iter_method_next :: "interp_env \<Rightarrow> interp_state \<Rightarrow> (eval_result \<times> interp_state) option" where
  "iter_method_next I s =
     (if ist_has_errored s then Some (None, s)
      else (case iter_next I s of
              None \<Rightarrow> None
            | Some (res, s') \<Rightarrow>
                Some (res, case res of
                             Some (Inl _) \<Rightarrow> s'\<lparr>ist_has_errored := True\<rparr>
                           | _ \<Rightarrow> s')))"

definition iter_measure :: "interp_state \<Rightarrow> nat" where
  "iter_measure s =
     pending_work (ist_state s) + (if ist_public_key s = None then 0 else 1)
     + (if ist_has_errored s then 0 else 1)"

text \<open>A step changes neither the key nor the error flag.\<close>

fun outcome_keeps :: "interp_state \<Rightarrow> outcome \<Rightarrow> bool" where
  "outcome_keeps s (Cont s') =
     (ist_public_key s' = ist_public_key s \<and> ist_has_errored s' = ist_has_errored s)"
| "outcome_keeps s (Yield c s') =
     (ist_public_key s' = ist_public_key s \<and> ist_has_errored s' = ist_has_errored s)"
| "outcome_keeps s _ = True"

lemma outcome_keeps_simps [simp]:
  "outcome_keeps s (cont s ns st)" "outcome_keeps s (fail s' e st)" "outcome_keeps s (leaf_result s r)"
  by (auto simp: cont_def fail_def leaf_result_def split: option.splits sum.splits)

lemma outcome_keeps_pop_bool:
  "(\<And>st. outcome_keeps s (f st)) \<Longrightarrow> (\<And>st. outcome_keeps s (g st)) \<Longrightarrow> outcome_keeps s (pop_bool s f g)"
  by (auto simp: pop_bool_def split: list.splits element.splits)

lemma outcome_keeps_multi:
  "outcome_keeps s (multi_check I node t i j s)"
  "outcome_keeps s (step_multi I node t i j s)"
  "outcome_keeps s (step_multi_a I node t i j s)"
proof -
  show mc: "outcome_keeps s (multi_check I node t i j s)"
    by (auto simp: multi_check_def split: prod.splits option.splits sum.splits)
  show "outcome_keeps s (step_multi I node t i j s)"
    using mc by (auto simp: step_multi_def Let_def split: list.splits element.splits)
  show "outcome_keeps s (step_multi_a I node t i j s)"
    by (auto simp: step_multi_a_def Let_def split: list.splits prod.splits option.splits sum.splits)
qed

lemma outcome_keeps_thresh: "outcome_keeps s (step_thresh node t i j s)"
  by (auto simp: step_thresh_def intro!: outcome_keeps_pop_bool split: list.splits)

lemma step_node_keeps: "outcome_keeps s (step_node I node i j s)"
  unfolding step_node_def Let_def
  by (cases "ms_node node")
    (auto simp: outcome_keeps_multi outcome_keeps_thresh intro!: outcome_keeps_pop_bool
      split: list.splits element.splits option.splits)

lemma step_keeps:
  assumes "step I s = Some out"
  shows "outcome_keeps s out"
proof (cases "ist_state s")
  case Nil
  with assms show ?thesis by (simp add: step_def)
next
  case (Cons n ns)
  let ?s = "s\<lparr>ist_state := ns\<rparr>"
  have "out = step_node I (ns_node n) (n_evaluated n) (n_satisfied n) ?s"
    using assms Cons by (simp add: step_def)
  then have "outcome_keeps ?s out" by (simp add: step_node_keeps)
  then show ?thesis by (cases out) simp_all
qed

lemma iter_next_decreases:
  "iter_next I s = Some (Some (Inr c), s') \<Longrightarrow> \<not> ist_has_errored s \<Longrightarrow>
     iter_measure s' < iter_measure s \<and> \<not> ist_has_errored s'"
proof (induction I s rule: iter_next.induct)
  case (1 I s)
  show ?case
  proof (cases "step I s")
    case None
    then have "ist_state s = []" by (simp add: step_def split: list.splits)
    with None 1(2,3) show ?thesis
      by (auto simp: iter_next.simps [of I s] final_check_def iter_measure_def
          split: option.splits list.splits element.splits sum.splits if_splits)
  next
    case (Some out)
    note less = step_less [OF Some] and keeps = step_keeps [OF Some]
    show ?thesis
    proof (cases out)
      case (Cont s1)
      with Some 1 less keeps show ?thesis
        by (fastforce simp: iter_next.simps [of I s] iter_measure_def)
    qed (use Some 1(2,3) less keeps in \<open>auto simp: iter_next.simps [of I s] iter_measure_def\<close>)
  qed
qed

text \<open>Draining the iterator: the constraints it yields, and the error that ends it, if any.\<close>

function collect_iter ::
    "interp_env \<Rightarrow> interp_state \<Rightarrow> (satisfied_constraint list \<times> interp_error option) option" where
  "collect_iter I s =
     (case iter_method_next I s of
        None \<Rightarrow> None
      | Some (None, _) \<Rightarrow> Some ([], None)
      | Some (Some (Inl e), _) \<Rightarrow> Some ([], Some e)
      | Some (Some (Inr c), s') \<Rightarrow>
          (case collect_iter I s' of
             None \<Rightarrow> None
           | Some (cs, e) \<Rightarrow> Some (c # cs, e)))"
  by auto
termination
proof (relation "measure (\<lambda>(I, s). iter_measure s)")
  fix I s x2 a b x2a x2b
  assume "iter_method_next I s = Some x2" "(a, b) = x2" "a = Some x2a" "x2a = Inr x2b"
  then show "((I, b), (I, s)) \<in> measure (\<lambda>(I, s). iter_measure s)"
    by (auto simp: iter_method_next_def dest!: iter_next_decreases split: if_splits option.splits)
qed simp

declare collect_iter.simps [simp del]

definition iter_custom :: "interp_ms \<Rightarrow> istack \<Rightarrow> interp_state" where
  "iter_custom ms st =
     \<lparr>ist_public_key = None, ist_state = [mk_node ms 0 0], ist_stack = st, ist_has_errored = False\<rparr>"

definition iter_custom_pk :: "bitcoin_key \<Rightarrow> istack \<Rightarrow> interp_state" where
  "iter_custom_pk pk st =
     \<lparr>ist_public_key = Some pk, ist_state = [], ist_stack = st, ist_has_errored = False\<rparr>"

text \<open>The number of constraints a run can yield is bounded by the work of the script.\<close>

lemma collect_iter_length:
  "collect_iter I s = Some (cs, e) \<Longrightarrow> \<not> ist_has_errored s \<Longrightarrow> length cs \<le> iter_measure s"
proof (induction I s arbitrary: cs e rule: collect_iter.induct)
  case (1 I s)
  show ?case
  proof (cases "iter_method_next I s")
    case None
    with 1(2) show ?thesis by (simp add: collect_iter.simps [of I s])
  next
    case (Some r)
    obtain res s' where r: "r = (res, s')" by (cases r)
    show ?thesis
    proof (cases res)
      case None
      with 1(2) Some r show ?thesis by (simp add: collect_iter.simps [of I s])
    next
      case (Some x)
      show ?thesis
      proof (cases x)
        case (Inl e)
        with 1(2) \<open>iter_method_next I s = Some r\<close> Some r show ?thesis
          by (simp add: collect_iter.simps [of I s])
      next
        case (Inr c)
        have nx: "iter_method_next I s = Some (Some (Inr c), s')"
          using \<open>iter_method_next I s = Some r\<close> r Some Inr by simp
        then have "iter_next I s = Some (Some (Inr c), s')"
          using 1(3) by (auto simp: iter_method_next_def split: option.splits sum.splits)
        then have dec: "iter_measure s' < iter_measure s" "\<not> ist_has_errored s'"
          using iter_next_decreases 1(3) by blast+
        obtain cs' where "collect_iter I s' = Some (cs', e)" "cs = c # cs'"
          using 1(2) nx by (auto simp: collect_iter.simps [of I s] split: option.splits)
        with 1(1) [OF nx refl refl refl this(1)] dec show ?thesis by simp
      qed
    qed
  qed
qed

end
