(* ===== verification/InterpRuns.thy ===== *)
theory InterpRuns
  imports Interp
begin

section \<open>Runs of the interpreter\<close>

text \<open>
  A step relation over the loop of \<open>iter_next\<close>: \<open>runs I s cs s'\<close> says that the machine goes from
  \<open>s\<close> to \<open>s'\<close> without an error and yields the constraints \<open>cs\<close> on the way.  \<open>evalsN I ns w out\<close>
  is the contract of a list of pending nodes: whatever lies below, they consume the elements \<open>w\<close>
  and leave \<open>out\<close>.  Contracts compose in sequence and are stable under a larger stack; one lemma
  per fragment builds its contract from those of its children.
\<close>

subsection \<open>The relation\<close>

inductive runs :: "interp_env \<Rightarrow> interp_state \<Rightarrow> satisfied_constraint list \<Rightarrow> interp_state \<Rightarrow> bool"
  for I where
  runs_refl: "runs I s [] s"
| runs_cont: "step I s = Some (Cont s1) \<Longrightarrow> runs I s1 cs s2 \<Longrightarrow> runs I s cs s2"
| runs_yield: "step I s = Some (Yield c s1) \<Longrightarrow> runs I s1 cs s2 \<Longrightarrow> runs I s (c # cs) s2"

lemma runs_trans: "runs I a cs b \<Longrightarrow> runs I b ds c \<Longrightarrow> runs I a (cs @ ds) c"
  by (induction rule: runs.induct) (auto intro: runs.intros)

abbreviation mkst :: "node_state list \<Rightarrow> istack \<Rightarrow> interp_state" where
  "mkst ns st \<equiv> \<lparr>ist_public_key = None, ist_state = ns, ist_stack = st, ist_has_errored = False\<rparr>"

lemma step_mkst [interp_simps]:
  "step I (mkst (n # ns) st) =
     Some (step_node I (ns_node n) (n_evaluated n) (n_satisfied n) (mkst ns st))"
  by (simp add: step_def)

lemma cont_mkst [interp_simps]: "cont (mkst ns st) nn st' = Cont (mkst (nn @ ns) st')"
  by (simp add: cont_def)

lemma leaf_result_mkst [interp_simps]:
  "leaf_result (mkst ns st) (st', None) = Cont (mkst ns st')"
  "leaf_result (mkst ns st) (st', Some (Inr c)) = Yield c (mkst ns st')"
  by (simp_all add: leaf_result_def cont_def)

lemma pop_bool_mkst [interp_simps]:
  "pop_bool (mkst ns (Satisfied # st)) f g = f st"
  "pop_bool (mkst ns (Dissatisfied # st)) f g = g st"
  by (simp_all add: pop_bool_def)

lemma iter_method_next_ok:
  "\<not> ist_has_errored s \<Longrightarrow> iter_next I s = Some (Some (Inr c), s') \<Longrightarrow> iter_method_next I s = Some (Some (Inr c), s')"
  "\<not> ist_has_errored s \<Longrightarrow> iter_next I s = Some (None, s') \<Longrightarrow> iter_method_next I s = Some (None, s')"
  by (simp_all add: iter_method_next_def)

lemma collect_iter_Cont:
  assumes "step I s = Some (Cont s1)"
  shows "collect_iter I s = collect_iter I s1"
proof -
  have "ist_has_errored s1 = ist_has_errored s" using step_keeps [OF assms] by simp
  moreover have "iter_next I s = iter_next I s1" using assms by (simp add: iter_next.simps [of I s])
  ultimately show ?thesis
    by (simp add: collect_iter.simps [of I s] collect_iter.simps [of I s1] iter_method_next_def
        split: option.splits)
qed

text \<open>A run that ends with an empty state stack and exactly one satisfied element is what a client
  sees: all its constraints, then the end of the iterator without an error.\<close>

lemma runs_collect:
  assumes "runs I s cs s'" "ist_state s' = []" "ist_stack s' = [Satisfied]"
    "ist_public_key s' = None" "\<not> ist_has_errored s'"
  shows "\<not> ist_has_errored s \<and> collect_iter I s = Some (cs, None)"
  using assms
proof (induction rule: runs.induct)
  case (runs_refl s)
  have "iter_next I s = Some (None, s\<lparr>ist_stack := []\<rparr>)"
    using runs_refl by (simp add: iter_next.simps [of I s] step_def final_check_def)
  with runs_refl show ?case
    by (simp add: collect_iter.simps [of I s] iter_method_next_def)
next
  case (runs_cont s s1 cs s2)
  then show ?case using collect_iter_Cont step_keeps by fastforce
next
  case (runs_yield s c s1 cs s2)
  have ne: "\<not> ist_has_errored s" using runs_yield step_keeps by fastforce
  have "iter_next I s = Some (Some (Inr c), s1)"
    using runs_yield by (simp add: iter_next.simps [of I s])
  with ne runs_yield show ?case
    by (simp add: collect_iter.simps [of I s] iter_method_next_def)
qed

subsection \<open>Contracts of pending nodes\<close>

definition evalsN :: "interp_env \<Rightarrow> node_state list \<Rightarrow> istack \<Rightarrow> istack \<Rightarrow> bool" where
  "evalsN I ns w out \<longleftrightarrow>
     (\<forall>rest st. \<exists>cs. runs I (mkst (ns @ rest) (w @ st)) cs (mkst rest (out @ st)))"

abbreviation evals :: "interp_env \<Rightarrow> interp_ms \<Rightarrow> istack \<Rightarrow> istack \<Rightarrow> bool" where
  "evals I ms w out \<equiv> evalsN I [mk_node ms 0 0] w out"

definition bel :: "bool \<Rightarrow> element" where
  "bel b = (if b then Satisfied else Dissatisfied)"

lemma bel_simps [simp]: "bel True = Satisfied" "bel False = Dissatisfied"
  by (simp_all add: bel_def)

lemma evalsN_Nil: "evalsN I [] w w"
  using runs_refl by (fastforce simp: evalsN_def)

lemma evalsN_frame: "evalsN I ns w out \<Longrightarrow> evalsN I ns (w @ v) (out @ v)"
  by (auto simp: evalsN_def)

lemma evalsN_append:
  assumes "evalsN I ns1 w mid" and "evalsN I ns2 mid out"
  shows "evalsN I (ns1 @ ns2) w out"
  unfolding evalsN_def
proof (intro allI)
  fix rest st
  obtain cs1 where "runs I (mkst (ns1 @ ns2 @ rest) (w @ st)) cs1 (mkst (ns2 @ rest) (mid @ st))"
    using assms(1) unfolding evalsN_def by blast
  moreover obtain cs2 where "runs I (mkst (ns2 @ rest) (mid @ st)) cs2 (mkst rest (out @ st))"
    using assms(2) unfolding evalsN_def by blast
  ultimately have "runs I (mkst (ns1 @ ns2 @ rest) (w @ st)) (cs1 @ cs2) (mkst rest (out @ st))"
    by (rule runs_trans)
  then show "\<exists>cs. runs I (mkst ((ns1 @ ns2) @ rest) (w @ st)) cs (mkst rest (out @ st))"
    by auto
qed

text \<open>The first node of a sequence consumes \<open>w\<close>, the rest the result and \<open>v\<close>.\<close>

lemma evalsN_Cons:
  "evalsN I [n] w mid \<Longrightarrow> evalsN I ns (mid @ v) out \<Longrightarrow> evalsN I (n # ns) (w @ v) out"
  using evalsN_append [of I "[n]" "w @ v" "mid @ v" ns out] evalsN_frame by simp

lemma evalsN_cont:
  assumes "\<And>rest st. step_node I (ns_node n) (n_evaluated n) (n_satisfied n) (mkst rest (w @ st))
      = Cont (mkst (nn @ rest) (w' @ st))"
    and "evalsN I nn w' out"
  shows "evalsN I [n] w out"
  unfolding evalsN_def
proof (intro allI)
  fix rest st
  have "step I (mkst ([n] @ rest) (w @ st)) = Some (Cont (mkst (nn @ rest) (w' @ st)))"
    by (simp add: step_mkst assms(1))
  moreover obtain cs where "runs I (mkst (nn @ rest) (w' @ st)) cs (mkst rest (out @ st))"
    using assms(2) unfolding evalsN_def by blast
  ultimately show "\<exists>cs. runs I (mkst ([n] @ rest) (w @ st)) cs (mkst rest (out @ st))"
    by (blast intro: runs_cont)
qed

lemma evalsN_yield:
  assumes "\<And>rest st. step_node I (ns_node n) (n_evaluated n) (n_satisfied n) (mkst rest (w @ st))
      = Yield c (mkst (nn @ rest) (w' @ st))"
    and "evalsN I nn w' out"
  shows "evalsN I [n] w out"
  unfolding evalsN_def
proof (intro allI)
  fix rest st
  have "step I (mkst ([n] @ rest) (w @ st)) = Some (Yield c (mkst (nn @ rest) (w' @ st)))"
    by (simp add: step_mkst assms(1))
  moreover obtain cs where "runs I (mkst (nn @ rest) (w' @ st)) cs (mkst rest (out @ st))"
    using assms(2) unfolding evalsN_def by blast
  ultimately show "\<exists>cs. runs I (mkst ([n] @ rest) (w @ st)) cs (mkst rest (out @ st))"
    by (blast intro: runs_yield)
qed

lemmas evalsN_done = evalsN_cont [where nn = "[]", OF _ evalsN_Nil, simplified]
lemmas evalsN_yield_done = evalsN_yield [where nn = "[]", OF _ evalsN_Nil, simplified]

text \<open>A script whose contract is to turn the whole stack into one satisfied element runs to the end
  without an error.\<close>

lemma evals_collect:
  assumes "evals I ms w [Satisfied]"
  shows "\<exists>cs. collect_iter I (iter_custom ms w) = Some (cs, None)"
proof -
  obtain cs where "runs I (mkst ([mk_node ms 0 0] @ []) (w @ [])) cs (mkst [] ([Satisfied] @ []))"
    using assms unfolding evalsN_def by blast
  from runs_collect [OF this] show ?thesis by (auto simp: iter_custom_def)
qed

subsection \<open>Wrappers\<close>

lemma evals_pass:
  assumes "evals I x w out"
  shows "evals I (Miniscript (Alt x) ty ext) w out" "evals I (Miniscript (Swap x) ty ext) w out"
    "evals I (Miniscript (Check x) ty ext) w out" "evals I (Miniscript (InscribePre ins x) ty ext) w out"
    "evals I (Miniscript (InscribePost ins x) ty ext) w out"
  by (rule evalsN_cont [OF _ assms], simp add: step_node_def interp_simps)+

lemma evals_dupif:
  assumes "evals I x w []"
  shows "evals I (Miniscript (DupIf x) ty ext) (Satisfied # w) [Satisfied]"
proof (rule evalsN_cont)
  show "evalsN I [mk_node x 0 0, mk_node (Miniscript (DupIf x) ty ext) 1 1] w [Satisfied]"
    using assms evalsN_Cons [of I "mk_node x 0 0" w "[]" _ "[]"]
    by (simp add: evalsN_done step_node_def interp_simps)
qed (simp add: step_node_def interp_simps)

lemma evals_dupif_dissat: "evals I (Miniscript (DupIf x) ty ext) [Dissatisfied] [Dissatisfied]"
  by (rule evalsN_done) (simp add: step_node_def interp_simps)

lemma evals_verify:
  assumes "evals I x w [Satisfied]"
  shows "evals I (Miniscript (Verify x) ty ext) w []"
proof (rule evalsN_cont)
  show "evalsN I [mk_node x 0 0, mk_node (Miniscript (Verify x) ty ext) 1 0] w []"
    using assms evalsN_Cons [of I "mk_node x 0 0" w "[Satisfied]" _ "[]"]
    by (simp add: evalsN_done step_node_def interp_simps)
qed (simp add: step_node_def interp_simps)

lemma evals_zeronotequal:
  assumes "evals I x w [bel b]"
  shows "evals I (Miniscript (ZeroNotEqual x) ty ext) w [bel b]"
proof (rule evalsN_cont)
  show "evalsN I [mk_node x 0 0, mk_node (Miniscript (ZeroNotEqual x) ty ext) 1 0] w [bel b]"
    using assms evalsN_Cons [of I "mk_node x 0 0" w "[bel b]" _ "[]"]
    by (cases b; simp add: evalsN_done step_node_def interp_simps)
qed (simp add: step_node_def interp_simps)

lemma evals_nonzero:
  assumes "evals I x (e # w) out" "e \<noteq> Dissatisfied"
  shows "evals I (Miniscript (NonZero x) ty ext) (e # w) out"
  by (rule evalsN_cont [OF _ assms(1)])
    (use assms(2) in \<open>cases e; simp add: step_node_def interp_simps\<close>)

lemma evals_nonzero_dissat: "evals I (Miniscript (NonZero x) ty ext) [Dissatisfied] [Dissatisfied]"
  by (rule evalsN_done) (simp add: step_node_def interp_simps)

subsection \<open>Conjunctions and disjunctions\<close>

lemma evals_and_v:
  assumes "evals I l w []" "evals I r v out"
  shows "evals I (Miniscript (AndV l r) ty ext) (w @ v) out"
  by (rule evalsN_cont [OF _ evalsN_Cons [OF assms(1), of _ v out]])
    (use assms(2) in \<open>simp_all add: step_node_def interp_simps\<close>)

text \<open>Both operands are evaluated, their results combined with \<open>f\<close>.\<close>

lemma evals_both:
  assumes "evals I l w [bel a]" "evals I r v [bel b]"
  shows "evals I (Miniscript (AndB l r) ty ext) (w @ v) [bel (a \<and> b)]"
    and "evals I (Miniscript (OrB l r) ty ext) (w @ v) [bel (a \<or> b)]"
proof -
  let ?and = "Miniscript (AndB l r) ty ext" and ?or = "Miniscript (OrB l r) ty ext"
  have and2: "evalsN I [mk_node r 0 0, mk_node ?and 2 (if a then 1 else 0)] v [bel (a \<and> b)]"
    using assms(2) evalsN_Cons [of I "mk_node r 0 0" v "[bel b]" _ "[]"]
    by (cases a; cases b; simp add: evalsN_done step_node_def interp_simps)
  have or2: "evalsN I [mk_node r 0 0, mk_node ?or 2 (if a then 1 else 0)] v [bel (a \<or> b)]"
    using assms(2) evalsN_Cons [of I "mk_node r 0 0" v "[bel b]" _ "[]"]
    by (cases a; cases b; simp add: evalsN_done step_node_def interp_simps)
  have "evalsN I [mk_node ?and 1 0] ([bel a] @ v) [bel (a \<and> b)]"
    by (rule evalsN_cont [OF _ and2]) (cases a; simp add: step_node_def interp_simps)
  from evalsN_Cons [OF assms(1) this]
  have "evalsN I [mk_node l 0 0, mk_node ?and 1 0] (w @ v) [bel (a \<and> b)]" .
  then show "evals I ?and (w @ v) [bel (a \<and> b)]"
    by (rule evalsN_cont [rotated]) (simp add: step_node_def interp_simps)
  have "evalsN I [mk_node ?or 1 0] ([bel a] @ v) [bel (a \<or> b)]"
    by (rule evalsN_cont [OF _ or2]) (cases a; simp add: step_node_def interp_simps)
  from evalsN_Cons [OF assms(1) this]
  have "evalsN I [mk_node l 0 0, mk_node ?or 1 0] (w @ v) [bel (a \<or> b)]" .
  then show "evals I ?or (w @ v) [bel (a \<or> b)]"
    by (rule evalsN_cont [rotated]) (simp add: step_node_def interp_simps)
qed

text \<open>Fragments that branch on the result of their first child.\<close>

lemma evals_branch:
  assumes "\<And>rest st. step_node I ms 0 0 (mkst rest (w @ v @ st))
      = Cont (mkst (mk_node l 0 0 # mk_node ms 1 0 # rest) (w @ v @ st))"
    and "evals I l w [e]" and "evalsN I [mk_node ms 1 0] (e # v) out"
  shows "evals I ms (w @ v) out"
proof (rule evalsN_cont)
  show "evalsN I [mk_node l 0 0, mk_node ms 1 0] (w @ v) out"
    using evalsN_Cons [OF assms(2), of _ v out] assms(3) by simp
qed (simp add: assms(1))

lemma evals_or_d_left:
  assumes "evals I l w [Satisfied]"
  shows "evals I (Miniscript (OrD l r) ty ext) w [Satisfied]"
  using evals_branch [OF _ assms, where v = "[]"]
  by (simp add: evalsN_done step_node_def interp_simps)

lemma evals_or_c_left:
  assumes "evals I l w [Satisfied]"
  shows "evals I (Miniscript (OrC l r) ty ext) w []"
  using evals_branch [OF _ assms, where v = "[]"]
  by (simp add: evalsN_done step_node_def interp_simps)

lemma evals_or_right:
  assumes "evals I l w [Dissatisfied]" "evals I r v out"
  shows "evals I (Miniscript (OrD l r) ty ext) (w @ v) out"
    and "evals I (Miniscript (OrC l r) ty ext) (w @ v) out"
  by (rule evals_branch [OF _ assms(1)], simp add: step_node_def interp_simps,
      rule evalsN_cont [OF _ assms(2)], simp add: step_node_def interp_simps)+

lemma evals_and_or:
  assumes "evals I a w [bel p]" "evals I (if p then b else c) v out"
  shows "evals I (Miniscript (AndOr a b c) ty ext) (w @ v) out"
  by (rule evals_branch [OF _ assms(1)], simp add: step_node_def interp_simps,
      rule evalsN_cont [OF _ assms(2)], cases p, simp_all add: step_node_def interp_simps)

lemma evals_or_i:
  assumes "evals I (if p then l else r) w out"
  shows "evals I (Miniscript (OrI l r) ty ext) (bel p # w) out"
  by (rule evalsN_cont [OF _ assms], cases p) (simp_all add: step_node_def interp_simps)

subsection \<open>Thresholds\<close>

lemma evals_thresh_from:
  assumes "list_all2 (\<lambda>x (w, b). evals I x w [bel b]) (drop i (thr_data t)) wbs"
    and "0 < i" "i \<le> thr_n t"
  shows "evalsN I [mk_node (Miniscript (Thresh t) ty ext) i j] (bel b # concat (map fst wbs))
           [bel (j + count_true (b # map snd wbs) = thr_k t)]"
  using assms
proof (induction wbs arbitrary: i j b rule: list.induct)
  case Nil
  then have "i = thr_n t" using list_all2_lengthD [OF Nil.prems(1)] Nil by (simp add: thr_n_def)
  with Nil show ?case
    by (cases b; simp add: evalsN_done step_node_def step_thresh_def interp_simps bel_def)
next
  case (Cons wb wbs)
  obtain w b' where wb: "wb = (w, b')" by (cases wb)
  have lt: "i < thr_n t" using Cons.prems by (auto simp: thr_n_def intro: ccontr)
  then have dr: "drop i (thr_data t) = thr_data t ! i # drop (Suc i) (thr_data t)"
    by (simp add: Cons_nth_drop_Suc thr_n_def)
  let ?n = "mk_node (Miniscript (Thresh t) ty ext)" and ?j = "j + (if b then 1 else 0)"
  have "evalsN I [?n (Suc i) ?j] (bel b' # concat (map fst wbs))
      [bel (?j + count_true (b' # map snd wbs) = thr_k t)]"
    using Cons.IH [of "Suc i" ?j b'] Cons.prems dr lt by simp
  moreover have "evals I (thr_data t ! i) w [bel b']" using Cons.prems(1) dr wb by simp
  ultimately have "evalsN I [mk_node (thr_data t ! i) 0 0, ?n (Suc i) ?j] (w @ concat (map fst wbs))
      [bel (?j + count_true (b' # map snd wbs) = thr_k t)]"
    using evalsN_Cons [of I "mk_node (thr_data t ! i) 0 0" w "[bel b']"] by simp
  moreover have "j + count_true (b # map snd (wb # wbs)) = ?j + count_true (b' # map snd wbs)"
    using wb by simp
  ultimately have "evalsN I [mk_node (thr_data t ! i) 0 0, ?n (Suc i) ?j] (w @ concat (map fst wbs))
      [bel (j + count_true (b # map snd (wb # wbs)) = thr_k t)]"
    by presburger
  then show ?case
    by (rule evalsN_cont [rotated])
      (use lt Cons.prems(2) wb in \<open>cases b; simp add: step_node_def step_thresh_def interp_simps\<close>)
qed

lemma evals_thresh:
  assumes "list_all2 (\<lambda>x (w, b). evals I x w [bel b]) (thr_data t) wbs" and "thr_data t \<noteq> []"
  shows "evals I (Miniscript (Thresh t) ty ext) (concat (map fst wbs))
           [bel (count_true (map snd wbs) = thr_k t)]"
proof -
  obtain c cs w b wbs' where d: "thr_data t = c # cs" "wbs = (w, b) # wbs'"
    using assms by (cases "thr_data t"; cases wbs) auto
  have c: "evals I c w [bel b]" using assms(1) d by simp
  have "evalsN I [mk_node (Miniscript (Thresh t) ty ext) 1 0] (bel b # concat (map fst wbs'))
      [bel (0 + count_true (b # map snd wbs') = thr_k t)]"
    by (rule evals_thresh_from) (use assms(1) d in \<open>simp_all add: thr_n_def\<close>)
  then have "evalsN I [mk_node c 0 0, mk_node (Miniscript (Thresh t) ty ext) 1 0]
      (concat (map fst wbs)) [bel (count_true (map snd wbs) = thr_k t)]"
    using evalsN_Cons [OF c] d by simp
  then show ?thesis
    by (rule evalsN_cont [rotated]) (simp add: step_node_def step_thresh_def interp_simps d)
qed

subsection \<open>Leaves\<close>

lemma evals_true: "evals I (Miniscript TrueT ty ext) [] [Satisfied]"
  by (rule evalsN_done) (simp add: step_node_def interp_simps)

lemma evals_false: "evals I (Miniscript FalseT ty ext) [] [Dissatisfied]"
  by (rule evalsN_done) (simp add: step_node_def interp_simps)

lemma evals_tx_template:
  "ie_tx_template I = Some h \<Longrightarrow> evals I (Miniscript (TxTemplate h) ty ext) [] []"
  by (rule evalsN_yield_done) (simp add: step_node_def)

text \<open>\<open>sig_ok I key s\<close>: the element \<open>s\<close> is a serialised signature that verifies for \<open>key\<close>.\<close>

definition sig_ok :: "interp_env \<Rightarrow> bitcoin_key \<Rightarrow> bytes \<Rightarrow> bool" where
  "sig_ok I key s \<longleftrightarrow> is_ok (verify_sersig (ie_lib I) (ie_verify_sig I) key s)"

lemma sig_ok_obtain:
  assumes "sig_ok I key s"
  obtains ks where "verify_sersig (ie_lib I) (ie_verify_sig I) key s = Inr ks"
  using assms by (cases "verify_sersig (ie_lib I) (ie_verify_sig I) key s") (auto simp: sig_ok_def)

lemma evals_pk_k:
  assumes "sig_ok I pk s"
  shows "evals I (Miniscript (PkK pk) ty ext) [Push s] [Satisfied]"
proof -
  obtain ks where "verify_sersig (ie_lib I) (ie_verify_sig I) pk s = Inr ks"
    using assms by (rule sig_ok_obtain)
  then show ?thesis by (intro evalsN_yield_done) (simp add: step_node_def interp_simps)
qed

lemma evals_pk_k_dissat: "evals I (Miniscript (PkK pk) ty ext) [Dissatisfied] [Dissatisfied]"
  by (rule evalsN_done) (simp add: step_node_def interp_simps)

text \<open>The two fragments that check a key hash; \<open>kb\<close> are the bytes of the key on the stack.\<close>

definition pkh_hash :: "interp_env \<Rightarrow> (bitcoin_key, interp_ms) terminal \<Rightarrow> hash option" where
  "pkh_hash I n =
     (case n of PkH pk \<Rightarrow> Some (to_pubkeyhash (ie_lib I) (ie_sig_type I) pk)
      | RawPkH h \<Rightarrow> Some h | _ \<Rightarrow> None)"

lemma step_pkh:
  assumes "pkh_hash I n = Some h"
  shows "step_node I (Miniscript n ty ext) i j s =
     leaf_result s (evaluate_pkh (ie_lib I) (ie_verify_sig I) h (ie_sig_type I) (ist_stack s))"
  using assms by (auto simp: pkh_hash_def step_node_def split: terminal.splits)

lemma evals_pkh:
  assumes "pkh_hash I n = Some (hash160_hash (ie_lib I) kb)"
    and "bitcoin_key_from_slice (ie_lib I) kb (ie_sig_type I) = Some key" and "sig_ok I key s"
  shows "evals I (Miniscript n ty ext) [Push kb, Push s] [Satisfied]"
proof -
  obtain ks where "verify_sersig (ie_lib I) (ie_verify_sig I) key s = Inr ks"
    using assms(3) by (rule sig_ok_obtain)
  then show ?thesis
    by (intro evalsN_yield_done) (simp add: step_pkh [OF assms(1)] evaluate_pkh_def assms(2) interp_simps)
qed

lemma evals_pkh_dissat:
  assumes "pkh_hash I n = Some (hash160_hash (ie_lib I) kb)"
    and "bitcoin_key_from_slice (ie_lib I) kb (ie_sig_type I) = Some key"
  shows "evals I (Miniscript n ty ext) [Push kb, Dissatisfied] [Dissatisfied]"
  by (rule evalsN_done) (simp add: step_pkh [OF assms(1)] evaluate_pkh_def assms(2) interp_simps)

text \<open>The hash locks: the hash a fragment demands of its preimage.\<close>

definition hash_lock :: "interp_env \<Rightarrow> ('pk, 'c) terminal \<Rightarrow> ((bytes \<Rightarrow> hash) \<times> hash) option" where
  "hash_lock I n =
     (case n of Sha256 h \<Rightarrow> Some (sha256_hash (ie_lib I), h)
      | Hash256 h \<Rightarrow> Some (hash256_hash (ie_lib I), h)
      | Hash160 h \<Rightarrow> Some (hash160_hash (ie_lib I), h)
      | Ripemd160 h \<Rightarrow> Some (ripemd160_hash (ie_lib I), h)
      | _ \<Rightarrow> None)"

lemma evals_hash_lock:
  assumes "hash_lock I n = Some (f, f p)" and "length p = 32"
  shows "evals I (Miniscript n ty ext) [Push p] [Satisfied]"
proof (cases n)
  case (Sha256 h) then show ?thesis using assms
    by (intro evalsN_yield_done) (simp add: step_node_def evaluate_sha256_def hash_lock_def interp_simps)
next
  case (Hash256 h) then show ?thesis using assms
    by (intro evalsN_yield_done) (simp add: step_node_def evaluate_hash256_def hash_lock_def interp_simps)
next
  case (Hash160 h) then show ?thesis using assms
    by (intro evalsN_yield_done) (simp add: step_node_def evaluate_hash160_def hash_lock_def interp_simps)
next
  case (Ripemd160 h) then show ?thesis using assms
    by (intro evalsN_yield_done) (simp add: step_node_def evaluate_ripemd160_def hash_lock_def interp_simps)
qed (use assms(1) in \<open>simp_all add: hash_lock_def\<close>)

lemma evals_hash_lock_dissat:
  assumes "hash_lock I n = Some (f, h)" and "f p \<noteq> h" and "length p = 32"
  shows "evals I (Miniscript n ty ext) [Push p] [Dissatisfied]"
proof (cases n)
  case (Sha256 h) then show ?thesis using assms
    by (intro evalsN_done) (auto simp: step_node_def evaluate_sha256_def hash_lock_def interp_simps)
next
  case (Hash256 h) then show ?thesis using assms
    by (intro evalsN_done) (auto simp: step_node_def evaluate_hash256_def hash_lock_def interp_simps)
next
  case (Hash160 h) then show ?thesis using assms
    by (intro evalsN_done) (auto simp: step_node_def evaluate_hash160_def hash_lock_def interp_simps)
next
  case (Ripemd160 h) then show ?thesis using assms
    by (intro evalsN_done) (auto simp: step_node_def evaluate_ripemd160_def hash_lock_def interp_simps)
qed (use assms(1) in \<open>simp_all add: hash_lock_def\<close>)

text \<open>The locktimes of the spending transaction satisfy a lock.\<close>

definition after_met :: "interp_env \<Rightarrow> abs_lock \<Rightarrow> bool" where
  "after_met I n =
     (case (n, ie_lock_time I) of
        (Blocks a, Blocks b) \<Rightarrow> a \<le> b | (Seconds a, Seconds b) \<Rightarrow> a \<le> b | _ \<Rightarrow> False)"

definition older_met :: "interp_env \<Rightarrow> rel_lock \<Rightarrow> bool" where
  "older_met I n =
     (case seq_to_relative (ie_lib I) (ie_sequence I) of
        Some r \<Rightarrow> rel_is_implied_by (ie_lib I) n r | None \<Rightarrow> False)"

lemma evals_after:
  "after_met I (abs_lock_of (ie_lib I) t) \<Longrightarrow> evals I (Miniscript (After t) ty ext) [] [Satisfied]"
  by (rule evalsN_yield_done [where c = "CAbsoluteTimelock (abs_lock_of (ie_lib I) t)"])
    (auto simp: step_node_def evaluate_after_def after_met_def interp_simps split: abs_lock.splits)

lemma evals_older:
  "rel_lock_of (ie_lib I) t = Some n \<Longrightarrow> older_met I n \<Longrightarrow>
     evals I (Miniscript (Older t) ty ext) [] [Satisfied]"
  by (rule evalsN_yield_done)
    (auto simp: step_node_def evaluate_older_def older_met_def interp_simps split: option.splits)

subsection \<open>Multisignatures\<close>

text \<open>\<open>sigs_match I ks ss\<close>: the signatures belong, in order, to a subsequence of the keys.\<close>

fun sigs_match :: "interp_env \<Rightarrow> bitcoin_key list \<Rightarrow> bytes list \<Rightarrow> bool" where
  "sigs_match I ks [] = True"
| "sigs_match I [] (s # ss) = False"
| "sigs_match I (k # ks) (s # ss) = ((sig_ok I k s \<and> sigs_match I ks ss) \<or> sigs_match I ks (s # ss))"

lemma sigs_match_more_keys: "sigs_match I ks ss \<Longrightarrow> sigs_match I (k # ks) ss"
  by (cases ss) auto

lemma sigs_match_fewer_sigs: "sigs_match I ks (s # ss) \<Longrightarrow> sigs_match I ks ss"
  by (induction ks) (auto intro: sigs_match_more_keys)

text \<open>The greedy matching of the interpreter: a signature that fits the current key may be used for
  it, one that does not stays for the next key.\<close>

lemma sigs_match_greedy:
  assumes "sigs_match I (k # ks) (s # ss)"
  shows "sigs_match I ks (if sig_ok I k s then ss else s # ss)"
  using assms sigs_match_fewer_sigs by auto

lemma multi_check_run:
  assumes "i < thr_n t"
  shows "if sig_ok I (rev (thr_data t) ! i) s
    then \<exists>c. \<forall>rest st. multi_check I node t i j (mkst rest (Push s # st))
          = Yield c (mkst (mk_node node (i + 1) (j + 1) # rest) st)
    else \<forall>rest st. multi_check I node t i j (mkst rest (Push s # st))
          = Cont (mkst (mk_node node (i + 1) j # rest) (Push s # st))"
proof -
  have key: "thr_data t ! (thr_n t - i - 1) = rev (thr_data t) ! i"
    using assms by (simp add: rev_nth thr_n_def)
  show ?thesis
  proof (cases "verify_sersig (ie_lib I) (ie_verify_sig I) (rev (thr_data t) ! i) s")
    case (Inl e)
    then show ?thesis
      using assms key by (simp add: sig_ok_def multi_check_def interp_simps)
  next
    case (Inr ks)
    then show ?thesis
      using assms key by (simp add: sig_ok_def multi_check_def interp_simps)
  qed
qed

lemma evals_multi_from:
  assumes "sigs_match I (drop i (rev (thr_data t))) ss" "length ss + j = thr_k t" "0 < i" "i \<le> thr_n t"
  shows "evalsN I [mk_node (Miniscript (Multi t) ty ext) i j] (map Push ss @ [Dissatisfied]) [Satisfied]"
  using assms
proof (induction "thr_n t - i" arbitrary: i j ss)
  case 0
  then have "ss = []" by (cases ss) (auto simp: thr_n_def)
  with 0 show ?case by (intro evalsN_done) (simp add: step_node_def step_multi_def interp_simps)
next
  case (Suc m)
  show ?case
  proof (cases ss)
    case Nil
    with Suc.prems show ?thesis
      by (intro evalsN_done) (simp add: step_node_def step_multi_def interp_simps)
  next
    case (Cons s ss')
    let ?n = "Miniscript (Multi t) ty ext" and ?k = "rev (thr_data t) ! i"
    have lt: "i < thr_n t" using Suc.hyps(2) by simp
    then have "drop i (rev (thr_data t)) = ?k # drop (Suc i) (rev (thr_data t))"
      by (simp add: Cons_nth_drop_Suc thr_n_def)
    then have rest: "sigs_match I (drop (Suc i) (rev (thr_data t))) (if sig_ok I ?k s then ss' else s # ss')"
      using sigs_match_greedy Suc.prems(1) Cons by metis
    have st: "step_node I ?n i j (mkst rest (Push s # st)) = multi_check I ?n t i j (mkst rest (Push s # st))"
      for rest st
      using Suc.prems lt Cons by (simp add: step_node_def step_multi_def)
    show ?thesis
    proof (cases "sig_ok I ?k s")
      case True
      then obtain c where "\<And>rest st. multi_check I ?n t i j (mkst rest (Push s # st))
          = Yield c (mkst (mk_node ?n (i + 1) (j + 1) # rest) st)"
        using multi_check_run [OF lt, of I s ?n j] by auto
      moreover have "evalsN I [mk_node ?n (Suc i) (Suc j)] (map Push ss' @ [Dissatisfied]) [Satisfied]"
        using Suc.hyps(1) [of "Suc i" ss' "Suc j"] Suc.hyps(2) Suc.prems rest True lt Cons by simp
      ultimately show ?thesis
        using evalsN_yield [of I "mk_node ?n i j" "map Push ss @ [Dissatisfied]"] Cons st by simp
    next
      case False
      have "evalsN I [mk_node ?n (Suc i) j] (map Push ss @ [Dissatisfied]) [Satisfied]"
        using Suc.hyps(1) [of "Suc i" ss j] Suc.hyps(2) Suc.prems rest False lt Cons by simp
      then show ?thesis
        by (rule evalsN_cont [rotated])
          (use multi_check_run [OF lt, of I s ?n j] False Cons st in simp)
    qed
  qed
qed

lemma evals_multi:
  assumes "sigs_match I (rev (thr_data t)) ss" "length ss = thr_k t" "0 < thr_k t"
  shows "evals I (Miniscript (Multi t) ty ext) (map Push ss @ [Dissatisfied]) [Satisfied]"
proof -
  let ?n = "Miniscript (Multi t) ty ext" and ?k = "rev (thr_data t) ! 0"
  obtain s ss' where ss: "ss = s # ss'" using assms by (cases ss) auto
  have lt: "0 < thr_n t" using assms(1) ss by (cases "thr_data t") (auto simp: thr_n_def)
  then have "rev (thr_data t) = ?k # drop 1 (rev (thr_data t))"
    by (cases "rev (thr_data t)") (auto simp: thr_n_def)
  then have rest: "sigs_match I (drop 1 (rev (thr_data t))) (if sig_ok I ?k s then ss' else s # ss')"
    using sigs_match_greedy assms(1) ss by metis
  have st: "step_node I ?n 0 0 (mkst rest (map Push ss @ Dissatisfied # st))
      = multi_check I ?n t 0 0 (mkst rest (map Push ss @ Dissatisfied # st))" for rest st
    using assms(2) ss by (simp add: step_node_def step_multi_def)
  show ?thesis
  proof (cases "sig_ok I ?k s")
    case True
    then obtain c where "\<And>rest st. multi_check I ?n t 0 0 (mkst rest (Push s # st))
        = Yield c (mkst (mk_node ?n 1 1 # rest) st)"
      using multi_check_run [OF lt, of I s ?n 0] by auto
    moreover have "evalsN I [mk_node ?n 1 1] (map Push ss' @ [Dissatisfied]) [Satisfied]"
      using evals_multi_from [of I 1 t ss' 1] assms ss rest True lt by simp
    ultimately show ?thesis
      using evalsN_yield [of I "mk_node ?n 0 0" "map Push ss @ [Dissatisfied]"] ss st by simp
  next
    case False
    have "evalsN I [mk_node ?n 1 0] (map Push ss @ [Dissatisfied]) [Satisfied]"
      using evals_multi_from [of I 1 t ss 0] assms ss rest False lt by simp
    then show ?thesis
      by (rule evalsN_cont [rotated])
        (use multi_check_run [OF lt, of I s ?n 0] False ss st in simp)
  qed
qed

lemma evals_multi_dissat:
  assumes "w = replicate (thr_k t + 1) Dissatisfied"
  shows "evals I (Miniscript (Multi t) ty ext) w [Dissatisfied]"
  by (rule evalsN_done) (simp add: assms step_node_def step_multi_def Let_def interp_simps)

text \<open>\<open>multi_a\<close>: one element per key, a signature of that key or the empty vector.\<close>

definition key_element :: "interp_env \<Rightarrow> bitcoin_key \<Rightarrow> element \<times> bool \<Rightarrow> bool" where
  "key_element I k eb =
     (if snd eb then \<exists>s. fst eb = Push s \<and> sig_ok I k s else fst eb = Dissatisfied)"

lemma evals_multi_a_from:
  assumes "list_all2 (key_element I) (drop i (thr_data t)) ebs" "i \<le> thr_n t"
  shows "evalsN I [mk_node (Miniscript (MultiA t) ty ext) i j] (map fst ebs)
           [bel (j + count_true (map snd ebs) = thr_k t)]"
  using assms
proof (induction ebs arbitrary: i j rule: list.induct)
  case Nil
  then have "i = thr_n t" using list_all2_lengthD [OF Nil.prems(1)] Nil by (simp add: thr_n_def)
  then show ?case
    by (intro evalsN_done) (simp add: step_node_def step_multi_a_def interp_simps bel_def)
next
  case (Cons eb ebs)
  obtain e b where eb: "eb = (e, b)" by (cases eb)
  let ?n = "Miniscript (MultiA t) ty ext"
  have lt: "i < thr_n t" using Cons.prems by (auto simp: thr_n_def intro: ccontr)
  then have dr: "drop i (thr_data t) = thr_data t ! i # drop (Suc i) (thr_data t)"
    by (simp add: Cons_nth_drop_Suc thr_n_def)
  have k: "key_element I (thr_data t ! i) (e, b)" using Cons.prems(1) dr eb by simp
  have IH: "evalsN I [mk_node ?n (Suc i) j'] (map fst ebs) [bel (j' + count_true (map snd ebs) = thr_k t)]"
    for j'
    using Cons.IH [of "Suc i" j'] Cons.prems dr lt by simp
  show ?case
  proof (cases b)
    case True
    then obtain s where s: "e = Push s" "sig_ok I (thr_data t ! i) s" using k by (auto simp: key_element_def)
    from s(2) obtain ks where ks: "verify_sersig (ie_lib I) (ie_verify_sig I) (thr_data t ! i) s = Inr ks"
      by (rule sig_ok_obtain)
    have "evalsN I [mk_node ?n i j] (e # map fst ebs) [bel (Suc j + count_true (map snd ebs) = thr_k t)]"
      by (rule evalsN_yield [OF _ IH [of "Suc j"]])
        (use lt s ks in \<open>simp add: step_node_def step_multi_a_def Let_def\<close>)
    with eb True show ?thesis by simp
  next
    case False
    then have e: "e = Dissatisfied" using k by (simp add: key_element_def)
    have "evalsN I [mk_node ?n i j] (e # map fst ebs) [bel (j + count_true (map snd ebs) = thr_k t)]"
      by (rule evalsN_cont [OF _ IH [of j]])
        (use lt e in \<open>simp add: step_node_def step_multi_a_def interp_simps\<close>)
    with eb False show ?thesis by simp
  qed
qed

lemma evals_multi_a:
  assumes "list_all2 (key_element I) (thr_data t) ebs"
  shows "evals I (Miniscript (MultiA t) ty ext) (map fst ebs) [bel (count_true (map snd ebs) = thr_k t)]"
  using evals_multi_a_from [of I 0 t ebs ty ext 0] assms by simp

end
