(* ===== verification/SatSound.thy ===== *)
theory SatSound
  imports SatShape InterpRuns
begin

section \<open>The satisfier is sound for the interpreter\<close>

text \<open>
  Whatever witness the satisfier builds for a well-typed miniscript, the interpreter accepts it.
  The satisfier and the transaction are arbitrary: \<open>honest\<close> lists what the caller of \<open>satisfy\<close>
  owes for each fragment of the script (signatures verify, preimages have the right hash, a lock
  the satisfier calls met is met by the transaction).  The interpreter runs on the script that
  \<open>to_no_checks_ms\<close> of \<^verbatim>\<open>interpreter/inner.rs\<close> makes of it.
\<close>

subsection \<open>The interpreter's script\<close>

definition bk_of :: "'pk key_ops \<Rightarrow> script_context \<Rightarrow> 'pk \<Rightarrow> bitcoin_key" where
  "bk_of K ctx pk =
     (case ctx_sig_type ctx of
        Ecdsa \<Rightarrow> Fullkey (to_public_key K pk)
      | Schnorr \<Rightarrow> XOnlyPublicKey (to_x_only_pubkey K pk))"

definition to_no_checks_ms :: "'pk key_ops \<Rightarrow> script_context \<Rightarrow> 'pk miniscript \<Rightarrow> interp_ms" where
  "to_no_checks_ms K ctx ms = map_miniscript (bk_of K ctx) ms"

subsection \<open>What the caller owes\<close>

text \<open>An element that \<open>element_from\<close> does not take for a Boolean.\<close>

definition is_push :: "bytes \<Rightarrow> bool" where
  "is_push b \<longleftrightarrow> b \<noteq> [] \<and> b \<noteq> [1]"

record 'pk spend =
  sp_lib :: btc
  sp_keys :: "'pk key_ops"
  sp_ctx :: script_context
  sp_sat :: "'pk satisfier"
  sp_leaf_hash :: hash
  sp_interp :: interp_env

definition sig_honest :: "'pk spend \<Rightarrow> bitcoin_key \<Rightarrow> bytes option \<Rightarrow> bool" where
  "sig_honest P key s \<longleftrightarrow> (case s of None \<Rightarrow> True | Some s \<Rightarrow> is_push s \<and> sig_ok (sp_interp P) key s)"

definition key_honest :: "'pk spend \<Rightarrow> 'pk \<Rightarrow> bool" where
  "key_honest P pk \<longleftrightarrow>
     sig_honest P (bk_of (sp_keys P) (sp_ctx P) pk)
       (case ctx_sig_type (sp_ctx P) of
          Ecdsa \<Rightarrow> lookup_ecdsa_sig (sp_sat P) pk
        | Schnorr \<Rightarrow> lookup_tap_leaf_script_sig (sp_sat P) pk (sp_leaf_hash P))"

text \<open>The serialisation of a key is read back by \<open>from_slice\<close>.\<close>

definition key_bytes :: "'pk spend \<Rightarrow> bitcoin_key \<Rightarrow> bytes" where
  "key_bytes P key =
     (case key of Fullkey pk \<Rightarrow> pubkey_to_bytes (sp_lib P) pk | XOnlyPublicKey x \<Rightarrow> xonly_serialize (sp_lib P) x)"

definition key_parses :: "'pk spend \<Rightarrow> bitcoin_key \<Rightarrow> bool" where
  "key_parses P key \<longleftrightarrow>
     is_push (key_bytes P key)
     \<and> bitcoin_key_from_slice (sp_lib P) (key_bytes P key) (ctx_sig_type (sp_ctx P)) = Some key"

text \<open>The key the satisfier completes a raw key hash with; in \<open>Tap\<close> the satisfier has no method for
  it, so raw key hashes are excluded there.\<close>

definition raw_key :: "'pk spend \<Rightarrow> hash \<Rightarrow> pubkey option" where
  "raw_key P h =
     option_or (lookup_raw_pkh_pk (sp_sat P) h) (map_option fst (lookup_raw_pkh_ecdsa_sig (sp_sat P) h))"

definition raw_pkh_honest :: "'pk spend \<Rightarrow> hash \<Rightarrow> bool" where
  "raw_pkh_honest P h \<longleftrightarrow>
     ctx_sig_type (sp_ctx P) = Ecdsa
     \<and> (case raw_key P h of
          None \<Rightarrow> True
        | Some pk \<Rightarrow>
            hash160_hash (sp_lib P) (pubkey_to_bytes (sp_lib P) pk) = h \<and> key_parses P (Fullkey pk)
            \<and> sig_honest P (Fullkey pk) (map_option snd (lookup_raw_pkh_ecdsa_sig (sp_sat P) h)))"

definition preimage_honest :: "(bytes \<Rightarrow> hash) \<Rightarrow> hash \<Rightarrow> bytes option \<Rightarrow> bool" where
  "preimage_honest f h p \<longleftrightarrow>
     f (replicate 32 0) \<noteq> h
     \<and> (case p of None \<Rightarrow> True | Some p \<Rightarrow> length p = 32 \<and> f p = h)"

fun node_honest :: "'pk spend \<Rightarrow> ('pk, 'c) terminal \<Rightarrow> bool" where
  "node_honest P (PkK pk) = key_honest P pk"
| "node_honest P (PkH pk) = (key_honest P pk \<and> key_parses P (bk_of (sp_keys P) (sp_ctx P) pk))"
| "node_honest P (RawPkH h) = raw_pkh_honest P h"
| "node_honest P (Multi t) = (\<forall>pk \<in> set (thr_data t). key_honest P pk)"
| "node_honest P (MultiA t) = (\<forall>pk \<in> set (thr_data t). key_honest P pk)"
| "node_honest P (Sha256 h) = preimage_honest (sha256_hash (sp_lib P)) h (lookup_sha256 (sp_sat P) h)"
| "node_honest P (Hash256 h) = preimage_honest (hash256_hash (sp_lib P)) h (lookup_hash256 (sp_sat P) h)"
| "node_honest P (Hash160 h) = preimage_honest (hash160_hash (sp_lib P)) h (lookup_hash160 (sp_sat P) h)"
| "node_honest P (Ripemd160 h) = preimage_honest (ripemd160_hash (sp_lib P)) h (lookup_ripemd160 (sp_sat P) h)"
| "node_honest P (After t) =
     (sat_check_after (sp_sat P) (abs_lock_of (sp_lib P) t) \<longrightarrow>
        after_met (sp_interp P) (abs_lock_of (sp_lib P) t))"
| "node_honest P (Older t) =
     (case rel_lock_of (sp_lib P) t of
        None \<Rightarrow> True
      | Some n \<Rightarrow> sat_check_older (sp_sat P) n \<longrightarrow> older_met (sp_interp P) n)"
| "node_honest P (TxTemplate h) =
     (sat_check_tx_template (sp_sat P) h \<longrightarrow> ie_tx_template (sp_interp P) = Some h)"
| "node_honest P _ = True"

definition honest :: "'pk spend \<Rightarrow> 'pk miniscript \<Rightarrow> bool" where
  "honest P ms \<longleftrightarrow>
     ie_lib (sp_interp P) = sp_lib P \<and> ie_sig_type (sp_interp P) = ctx_sig_type (sp_ctx P)
     \<and> list_all (\<lambda>x. node_honest P (ms_node x)) (pre_order ms)"

lemma honest_node: "honest P ms \<Longrightarrow> node_honest P (ms_node ms)"
  by (cases ms) (simp add: honest_def)

lemma honest_children: "honest P ms \<Longrightarrow> c \<in> set (children (ms_node ms)) \<Longrightarrow> honest P c"
  by (cases ms) (auto simp: honest_def list_all_iff)

lemma honest_env: "honest P ms \<Longrightarrow> ie_lib (sp_interp P) = sp_lib P"
  "honest P ms \<Longrightarrow> ie_sig_type (sp_interp P) = ctx_sig_type (sp_ctx P)"
  by (simp_all add: honest_def)

subsection \<open>Completed stacks\<close>

text \<open>The elements the interpreter starts with: the completed stack, top first.\<close>

definition elements :: "'pk spend \<Rightarrow> 'pk placeholder list \<Rightarrow> istack option" where
  "elements P ps =
     map_option (\<lambda>items. map element_from (rev items))
       (mapM (satisfy_self (sp_lib P) (sp_keys P) (sp_sat P)) ps)"

lemma elements_append:
  "elements P (ps @ qs) = Some w \<longleftrightarrow>
     (\<exists>v u. elements P ps = Some v \<and> elements P qs = Some u \<and> w = u @ v)"
  by (auto simp: elements_def mapM_append bind_eq_Some_conv)

lemma elements_append_None: "elements P (ps @ qs) = None \<longleftrightarrow> elements P ps = None \<or> elements P qs = None"
  by (cases "elements P ps"; cases "elements P qs") (auto simp: elements_def mapM_append bind_eq_None_conv)

lemma elements_Nil [simp]: "elements P [] = Some []"
  by (simp add: elements_def)

lemma elements_Cons:
  "elements P (p # ps) = Some w \<longleftrightarrow>
     (\<exists>b v. satisfy_self (sp_lib P) (sp_keys P) (sp_sat P) p = Some b \<and> elements P ps = Some v
        \<and> w = v @ [element_from b])"
  by (auto simp: elements_def bind_eq_Some_conv)

lemma element_from_simps [simp]:
  "element_from [] = Dissatisfied" "element_from [1] = Satisfied"
  "is_push b \<Longrightarrow> element_from b = Push b"
  by (auto simp: element_from_def is_push_def)

lemma elements_bools [simp]:
  "elements P [PushOne] = Some [Satisfied]" "elements P [PushZero] = Some [Dissatisfied]"
  by (simp_all add: elements_def)

lemma elements_concat:
  "elements P (concat (rev wss)) = Some w \<Longrightarrow>
     \<exists>vs. list_all2 (\<lambda>ps v. elements P ps = Some v) wss vs \<and> w = concat vs"
proof (induction wss arbitrary: w)
  case Nil
  then show ?case by simp
next
  case (Cons ps wss)
  then obtain v u where "elements P (concat (rev wss)) = Some v" "elements P ps = Some u" "w = u @ v"
    by (auto simp: elements_append)
  with Cons.IH [of v] show ?case by auto
qed

subsection \<open>Completing the placeholders of the leaves\<close>

definition env_for :: "'pk spend \<Rightarrow> 'pk sat_env \<Rightarrow> bool" where
  "env_for P E \<longleftrightarrow>
     env_lib E = sp_lib P \<and> env_keys E = sp_keys P \<and> env_ctx E = sp_ctx P
     \<and> env_provider E = provider_of (sp_sat P) \<and> env_leaf_hash E = sp_leaf_hash P"

abbreviation complete_ph :: "'pk spend \<Rightarrow> 'pk placeholder \<Rightarrow> bytes option" where
  "complete_ph P \<equiv> satisfy_self (sp_lib P) (sp_keys P) (sp_sat P)"

lemma complete_sig:
  assumes "env_for P E" "key_honest P pk" "available E pk" "complete_ph P (sig_ph E pk) = Some b"
  shows "is_push b \<and> sig_ok (sp_interp P) (bk_of (sp_keys P) (sp_ctx P) pk) b"
  using assms
  by (auto simp: env_for_def key_honest_def sig_honest_def available_def sig_ph_def signature_def
      provider_of_def split: sig_type.splits option.splits if_splits)

lemma ctx_pk_len_x_only: "ctx_pk_len ctx u = Some n \<Longrightarrow> n = 33 \<longleftrightarrow> ctx_sig_type ctx = Schnorr"
  by (cases ctx) (auto split: if_splits)

lemma complete_key:
  assumes "env_for P E" "ctx_pk_len (env_ctx E) u = Some n" "complete_ph P (Pubkey pk n) = Some b"
  shows "b = key_bytes P (bk_of (sp_keys P) (sp_ctx P) pk)"
  using assms ctx_pk_len_x_only [OF assms(2)]
  by (auto simp: env_for_def key_bytes_def bk_of_def split: sig_type.splits if_splits)

lemma complete_raw_key:
  assumes "raw_pkh_honest P h" "complete_ph P (PubkeyHash h n) = Some b"
  obtains pk where "raw_key P h = Some pk" "b = key_bytes P (Fullkey pk)" "is_push b"
    "hash160_hash (sp_lib P) b = h"
    "bitcoin_key_from_slice (sp_lib P) b (ctx_sig_type (sp_ctx P)) = Some (Fullkey pk)"
  using assms by (auto simp: raw_pkh_honest_def raw_key_def key_parses_def key_bytes_def split: option.splits)

lemma complete_raw_sig:
  assumes "raw_pkh_honest P h" "complete_ph P (EcdsaSigPkHash h) = Some b" "raw_key P h = Some pk"
  shows "is_push b \<and> sig_ok (sp_interp P) (Fullkey pk) b"
  using assms by (auto simp: raw_pkh_honest_def sig_honest_def split: option.splits)

subsection \<open>No placeholder but the empty push completes to the empty vector\<close>

lemma subseq_set: "subseq xs ys \<Longrightarrow> set xs \<subseteq> set ys"
  by (auto simp: subseq_conv_nths dest: in_set_nthsD)

definition ph_nonempty :: "'pk spend \<Rightarrow> 'pk placeholder \<Rightarrow> bool" where
  "ph_nonempty P p \<longleftrightarrow> (p \<noteq> PushZero \<longrightarrow> complete_ph P p \<noteq> Some [])"

lemma ph_nonempty_leaves [simp]:
  "ph_nonempty P PushZero" "ph_nonempty P PushOne" "ph_nonempty P HashDissatisfaction"
  by (simp_all add: ph_nonempty_def)

lemma ph_nonempty_sig:
  "env_for P E \<Longrightarrow> key_honest P pk \<Longrightarrow> available E pk \<Longrightarrow> ph_nonempty P (sig_ph E pk)"
  using complete_sig [of P E pk "[]"] by (auto simp: ph_nonempty_def is_push_def)

lemma ph_nonempty_key:
  "env_for P E \<Longrightarrow> key_parses P (bk_of (sp_keys P) (sp_ctx P) pk) \<Longrightarrow>
     ctx_pk_len (env_ctx E) u = Some n \<Longrightarrow> ph_nonempty P (Pubkey pk n)"
  using complete_key [of P E u n pk "[]"] by (auto simp: ph_nonempty_def key_parses_def is_push_def)

lemma ph_nonempty_preimage:
  "preimage_honest (sha256_hash (sp_lib P)) h (lookup_sha256 (sp_sat P) h) \<Longrightarrow> ph_nonempty P (Sha256Preimage h)"
  "preimage_honest (hash256_hash (sp_lib P)) h (lookup_hash256 (sp_sat P) h) \<Longrightarrow> ph_nonempty P (Hash256Preimage h)"
  "preimage_honest (hash160_hash (sp_lib P)) h (lookup_hash160 (sp_sat P) h) \<Longrightarrow> ph_nonempty P (Hash160Preimage h)"
  "preimage_honest (ripemd160_hash (sp_lib P)) h (lookup_ripemd160 (sp_sat P) h) \<Longrightarrow> ph_nonempty P (Ripemd160Preimage h)"
  by (auto simp: ph_nonempty_def preimage_honest_def split: option.splits)

lemma ph_nonempty_raw:
  assumes "raw_pkh_honest P h"
  shows "ph_nonempty P (PubkeyHash h n)" "ph_nonempty P (EcdsaSigPkHash h)"
proof -
  show "ph_nonempty P (PubkeyHash h n)"
    using complete_raw_key [OF assms, of n "[]"] by (auto simp: ph_nonempty_def is_push_def)
  show "ph_nonempty P (EcdsaSigPkHash h)"
    using assms by (auto simp: ph_nonempty_def raw_pkh_honest_def raw_key_def sig_honest_def is_push_def
        split: option.splits) (cases "lookup_raw_pkh_pk (sp_sat P) h"; auto simp: is_push_def)+
qed

lemma raw_pkh_stack_ecdsa:
  "ctx_sig_type (env_ctx E) = Ecdsa \<Longrightarrow> sats E (Miniscript (RawPkH h) ty ext) ps \<Longrightarrow>
     \<exists>n. ps = [EcdsaSigPkHash h, PubkeyHash h n]"
  by (auto simp: stacks_raw_pkh pkh_signature_def bind_eq_Some_conv split: option.splits)

lemma raw_pkh_honest_ecdsa: "raw_pkh_honest P h \<Longrightarrow> ctx_sig_type (sp_ctx P) = Ecdsa"
  by (simp add: raw_pkh_honest_def)

context sat_strategy
begin

lemma stack_nonempty:
  assumes "typed_ms ms" "honest P ms" "env_for P E" "env_min E = minf" "env_thresh E = threshf"
    and "sats E ms ps \<or> dissats E ms ps"
  shows "list_all (ph_nonempty P) ps"
  using assms(1,2,6)
proof (induction ms arbitrary: ps rule: ms_induct)
  case (Node n ty ext)
  have ok: "node_ok n" and hon: "node_honest P n"
    using Node.prems(1) honest_node [OF Node.prems(2)] by simp_all
  have IH: "sats E c qs \<Longrightarrow> list_all (ph_nonempty P) qs" "dissats E c qs \<Longrightarrow> list_all (ph_nonempty P) qs"
    if "c \<in> set (children n)" for c qs
    using Node.IH [OF that] Node.prems(1,2) honest_children [of P "Miniscript n ty ext" c] that by auto
  have ctx: "env_ctx E = sp_ctx P" "env_keys E = sp_keys P" using assms(3) by (simp_all add: env_for_def)
  have st: "sats E (Miniscript n ty ext) ps \<or> dissats E (Miniscript n ty ext) ps"
    using Node.prems(3) by simp
  show ?case
  proof (cases n)
    case (PkK pk)
    with st hon ph_nonempty_sig [OF assms(3)] show ?thesis by (auto simp: stacks_key)
  next
    case (PkH pk)
    with st hon ph_nonempty_sig [OF assms(3)] ph_nonempty_key [OF assms(3)] show ?thesis
      by (auto simp: stacks_key)
  next
    case (RawPkH h)
    with hon have "raw_pkh_honest P h" by simp
    with st RawPkH ph_nonempty_raw raw_pkh_honest_ecdsa ctx show ?thesis
      by (fastforce dest!: raw_pkh_stack(2) raw_pkh_stack_ecdsa [rotated])
  next
    case (Multi t)
    have "list_all (ph_nonempty P) ps" if "sats E (Miniscript (Multi t) ty ext) ps"
    proof -
      obtain pks where "subseq pks (thr_data t)" "\<forall>pk \<in> set pks. available E pk" "ps = PushZero # map (sig_ph E) pks"
        using stacks_multi(1) \<open>sats E (Miniscript (Multi t) ty ext) ps\<close> by blast
      then show ?thesis
        using hon Multi ph_nonempty_sig [OF assms(3)] subseq_set by (fastforce simp: list_all_iff)
    qed
    then show ?thesis using st Multi by (auto simp: stacks_multi(2) list_all_iff)
  next
    case (MultiA t)
    have "ph_nonempty P (slot E pk b)" if "(pk, b) \<in> set (zip (thr_data t) bs)" "marks_ok E (thr_data t) bs" for pk b bs
      using that hon MultiA ph_nonempty_sig [OF assms(3)]
      by (fastforce simp: slot_def marks_ok_def list_all2_iff dest: set_zip_leftD)
    then show ?thesis
      using st ok MultiA
      by (auto simp: stacks_multi(4) wf_threshold_def list_all_iff dest!: stacks_multi(3) [rotated])
  next
    case (Thresh t)
    obtain k xs where t: "t = Threshold k xs" by (cases t)
    with ok Thresh have "k \<le> length xs" by (simp add: wf_threshold_def thr_n_def)
    then obtain wbs where w: "list_all2 (child_stack E) xs wbs" "ps = concat (rev (map fst wbs))"
      using st Thresh t sats_thresh [OF assms(5)] dissats_thresh by blast
    have "list_all (ph_nonempty P) (fst wb)" if wb: "wb \<in> set wbs" for wb
    proof -
      obtain x where x: "x \<in> set xs" "child_stack E x wb" using list_all2_mem [OF w(1) wb] by blast
      then show ?thesis using IH [of x "fst wb"] Thresh t by (cases "snd wb") (simp_all add: child_stack_def)
    qed
    then show ?thesis using w(2) by (auto simp: list_all_iff)
  next
    case (DupIf x)
    with st IH [of x] show ?thesis by (auto simp: stacks_pass)
  next
    case (OrB l r)
    with st IH [of l] IH [of r] show ?thesis by (auto simp: stacks_and dest!: sats_or_b [OF assms(4)])
  next
    case (OrD l r)
    with st IH [of l] IH [of r] show ?thesis by (auto simp: stacks_and dest!: sats_or_d [OF assms(4)])
  next
    case (OrC l r)
    with st IH [of l] IH [of r] show ?thesis
      by (auto simp: stacks_or_dissat(1) dest!: sats_or_c [OF assms(4)])
  next
    case (OrI l r)
    with st IH [of l] IH [of r] show ?thesis
      by (auto dest!: sats_or_i [OF assms(4)] stacks_or_dissat(2) split: if_splits)
  next
    case (AndOr a b c)
    with st IH [of a] IH [of b] IH [of c] show ?thesis
      by (auto simp: stacks_and dest!: sats_and_or [OF assms(4)])
  next
    case (AndV l r)
    with st IH [of l] IH [of r] show ?thesis by (auto simp: stacks_and)
  next
    case (AndB l r)
    with st IH [of l] IH [of r] show ?thesis by (auto simp: stacks_and)
  qed (use st hon IH in \<open>auto simp: stacks_pass stacks_time stacks_const stacks_hash ph_nonempty_preimage\<close>)
qed

end

subsection \<open>Elements of the leaves\<close>

text \<open>The contract every fragment fulfils: its satisfactions leave what its base type promises, its
  dissatisfactions a zero, and a \<open>V\<close> fragment has none.\<close>

definition sound_at :: "'pk spend \<Rightarrow> 'pk sat_env \<Rightarrow> 'pk miniscript \<Rightarrow> bool" where
  "sound_at P E ms \<longleftrightarrow>
     (\<forall>ps w. sats E ms ps \<longrightarrow> elements P ps = Some w \<longrightarrow>
        evals (sp_interp P) (to_no_checks_ms (sp_keys P) (sp_ctx P) ms) w
          (if base (corr (ms_ty ms)) = BaseV then [] else [Satisfied]))
     \<and> (\<forall>ps w. dissats E ms ps \<longrightarrow> elements P ps = Some w \<longrightarrow>
        base (corr (ms_ty ms)) \<noteq> BaseV
        \<and> evals (sp_interp P) (to_no_checks_ms (sp_keys P) (sp_ctx P) ms) w [Dissatisfied])"

lemma sound_atD:
  "sound_at P E ms \<Longrightarrow> sats E ms ps \<Longrightarrow> elements P ps = Some w \<Longrightarrow> base (corr (ms_ty ms)) \<noteq> BaseV \<Longrightarrow>
     evals (sp_interp P) (to_no_checks_ms (sp_keys P) (sp_ctx P) ms) w [Satisfied]"
  "sound_at P E ms \<Longrightarrow> sats E ms ps \<Longrightarrow> elements P ps = Some w \<Longrightarrow> base (corr (ms_ty ms)) = BaseV \<Longrightarrow>
     evals (sp_interp P) (to_no_checks_ms (sp_keys P) (sp_ctx P) ms) w []"
  "sound_at P E ms \<Longrightarrow> dissats E ms ps \<Longrightarrow> elements P ps = Some w \<Longrightarrow>
     base (corr (ms_ty ms)) \<noteq> BaseV
     \<and> evals (sp_interp P) (to_no_checks_ms (sp_keys P) (sp_ctx P) ms) w [Dissatisfied]"
  by (auto simp: sound_at_def)

lemma to_no_checks_node:
  "to_no_checks_ms K ctx (Miniscript n ty ext) =
     Miniscript (map_terminal (bk_of K ctx) (to_no_checks_ms K ctx) n) ty ext"
  by (simp add: to_no_checks_ms_def [abs_def])

lemma bk_of_key_hash:
  "to_pubkeyhash (sp_lib P) (ctx_sig_type (sp_ctx P)) (bk_of K (sp_ctx P) pk)
     = hash160_hash (sp_lib P) (key_bytes P (bk_of K (sp_ctx P) pk))"
  by (auto simp: to_pubkeyhash_def bk_of_def key_bytes_def split: sig_type.splits)

lemma sound_pk_k:
  assumes "env_for P E" "key_honest P pk" "base (corr ty) = BaseK"
  shows "sound_at P E (Miniscript (PkK pk) ty ext)"
proof -
  have "evals (sp_interp P) (Miniscript (PkK (bk_of (sp_keys P) (sp_ctx P) pk)) ty ext) w [Satisfied]"
    if "available E pk" "elements P [sig_ph E pk] = Some w" for w
    using that complete_sig [OF assms(1,2) that(1)] by (auto simp: elements_Cons intro: evals_pk_k)
  with assms(3) evals_pk_k_dissat show ?thesis
    by (auto simp: sound_at_def to_no_checks_node stacks_key)
qed

lemma sound_pk_h:
  assumes "env_for P E" "honest P ms" "ms = Miniscript (PkH pk) ty ext" "base (corr ty) = BaseK"
  shows "sound_at P E ms"
proof -
  let ?key = "bk_of (sp_keys P) (sp_ctx P) pk" and ?L = "sp_lib P" and ?I = "sp_interp P"
  have hon: "key_honest P pk" "key_parses P ?key" using honest_node [OF assms(2)] assms(3) by simp_all
  have h: "pkh_hash ?I (PkH ?key) = Some (hash160_hash (ie_lib ?I) (key_bytes P ?key))"
    using honest_env [OF assms(2)] by (simp add: pkh_hash_def bk_of_key_hash)
  have fs: "bitcoin_key_from_slice (ie_lib ?I) (key_bytes P ?key) (ie_sig_type ?I) = Some ?key"
    and push: "is_push (key_bytes P ?key)"
    using hon(2) honest_env [OF assms(2)] by (simp_all add: key_parses_def)
  have el: "element_from b = Push (key_bytes P ?key)"
    if "ctx_pk_len (env_ctx E) u = Some n" "complete_ph P (Pubkey pk n) = Some b" for b u n
    using complete_key [OF assms(1) that] push by simp
  have sat: "evals ?I (Miniscript (PkH ?key) ty ext) w [Satisfied]"
    if len: "ctx_pk_len (env_ctx E) u = Some n" and av: "available E pk"
      and els: "elements P [sig_ph E pk, Pubkey pk n] = Some w" for u n w
  proof -
    obtain b1 b2 where b: "complete_ph P (sig_ph E pk) = Some b1" "complete_ph P (Pubkey pk n) = Some b2"
      "w = [element_from b2, element_from b1]"
      using els by (auto simp: elements_Cons)
    with complete_sig [OF assms(1) hon(1) av b(1)] el [OF len b(2)] show ?thesis
      using evals_pkh [OF h fs] by simp
  qed
  have dis: "evals ?I (Miniscript (PkH ?key) ty ext) w [Dissatisfied]"
    if len: "ctx_pk_len (env_ctx E) u = Some n" and els: "elements P [PushZero, Pubkey pk n] = Some w" for u n w
  proof -
    obtain b2 where b: "complete_ph P (Pubkey pk n) = Some b2" "w = [element_from b2, Dissatisfied]"
      using els by (auto simp: elements_Cons)
    with el [OF len b(1)] show ?thesis using evals_pkh_dissat [OF h fs] by simp
  qed
  from sat dis assms(3,4) show ?thesis
    by (auto simp: sound_at_def to_no_checks_node stacks_key)
qed

lemma sound_raw_pkh:
  assumes "env_for P E" "honest P ms" "ms = Miniscript (RawPkH h) ty ext" "base (corr ty) = BaseK"
  shows "sound_at P E ms"
proof -
  let ?I = "sp_interp P" and ?n = "RawPkH h :: (bitcoin_key, interp_ms) terminal"
  have hon: "raw_pkh_honest P h" using honest_node [OF assms(2)] assms(3) by simp
  have ecdsa: "ctx_sig_type (env_ctx E) = Ecdsa"
    using raw_pkh_honest_ecdsa [OF hon] assms(1) by (simp add: env_for_def)
  have key: thesis
    if "complete_ph P (PubkeyHash h n) = Some b"
      and "\<And>pk. raw_key P h = Some pk \<Longrightarrow> is_push b \<Longrightarrow> pkh_hash ?I ?n = Some (hash160_hash (ie_lib ?I) b) \<Longrightarrow>
        bitcoin_key_from_slice (ie_lib ?I) b (ie_sig_type ?I) = Some (Fullkey pk) \<Longrightarrow> thesis" for n b thesis
    using complete_raw_key [OF hon that(1)] that(2) honest_env [OF assms(2)] by (auto simp: pkh_hash_def)
  have sat: "evals ?I (Miniscript ?n ty ext) w [Satisfied]"
    if els: "elements P [EcdsaSigPkHash h, PubkeyHash h n] = Some w" for n w
  proof -
    obtain b1 b2 where b: "complete_ph P (EcdsaSigPkHash h) = Some b1" "complete_ph P (PubkeyHash h n) = Some b2"
      "w = [element_from b2, element_from b1]"
      using els by (auto simp: elements_Cons simp del: satisfy_self.simps)
    show ?thesis
      by (rule key [OF b(2)], drule complete_raw_sig [OF hon b(1)]) (simp add: b(3) evals_pkh)
  qed
  have dis: "evals ?I (Miniscript ?n ty ext) w [Dissatisfied]"
    if els: "elements P [PushZero, PubkeyHash h n] = Some w" for n w
  proof -
    obtain b2 where b: "complete_ph P (PubkeyHash h n) = Some b2" "w = [element_from b2, Dissatisfied]"
      using els by (auto simp: elements_Cons simp del: satisfy_self.simps(2))
    show ?thesis by (rule key [OF b(1)]) (simp add: b(2) evals_pkh_dissat)
  qed
  from sat dis assms(3,4) show ?thesis
    by (auto simp: sound_at_def to_no_checks_node dest!: raw_pkh_stack(2) raw_pkh_stack_ecdsa [OF ecdsa])
qed

lemma list_all2_map_ex:
  "(\<exists>ys. list_all2 R xs ys \<and> w = map f ys) \<longleftrightarrow> list_all2 (\<lambda>x e. \<exists>y. R x y \<and> f y = e) xs w"
proof -
  have c: "(\<lambda>x e. \<exists>y. R x y \<and> f y = e) = R OO (\<lambda>y e. f y = e)" by (auto simp: fun_eq_iff OO_def)
  have e: "list_all2 (\<lambda>y e. f y = e) ys w \<longleftrightarrow> w = map f ys" for ys
    using list.rel_map(1) [of "(=)" f ys w] by (auto simp: list.rel_eq)
  show ?thesis unfolding c list.rel_compp by (auto simp: OO_def e)
qed

lemma map_option_eq_Some_conv: "map_option f r = Some e \<longleftrightarrow> (\<exists>y. r = Some y \<and> f y = e)"
  by (cases r) auto

lemma elements_zeros [simp]: "elements P (replicate n PushZero) = Some (replicate n Dissatisfied)"
proof -
  have "mapM (complete_ph P) (replicate n PushZero) = Some (replicate n [])" by (induction n) simp_all
  then show ?thesis by (simp add: elements_def)
qed

lemma elements_iff:
  "elements P ps = Some w \<longleftrightarrow>
     list_all2 (\<lambda>p e. map_option element_from (complete_ph P p) = Some e) (rev ps) w"
proof -
  have "elements P ps = Some w \<longleftrightarrow> (\<exists>items. list_all2 (\<lambda>p b. complete_ph P p = Some b) ps items
      \<and> w = map element_from (rev items))"
    by (auto simp: elements_def mapM_Some_iff)
  also have "\<dots> \<longleftrightarrow> (\<exists>items. list_all2 (\<lambda>p b. complete_ph P p = Some b) (rev ps) items
      \<and> w = map element_from items)"
    by (metis list_all2_rev rev_rev_ident)
  also have "\<dots> \<longleftrightarrow> list_all2 (\<lambda>p e. map_option element_from (complete_ph P p) = Some e) (rev ps) w"
    by (subst list_all2_map_ex) (simp add: map_option_eq_Some_conv)
  finally show ?thesis .
qed

lemma sound_hash:
  assumes "ie_lib (sp_interp P) = sp_lib P" and "hash_lock (sp_interp P) n' = Some (f, h)"
    and "preimage_honest f h s" and "base (corr ty) = BaseB"
    and "\<And>ps. sats E (Miniscript n ty ext) ps \<Longrightarrow> \<exists>p. ps = [p] \<and> complete_ph P p = s"
    and "\<And>ps. dissats E (Miniscript n ty ext) ps \<Longrightarrow> ps = [HashDissatisfaction]"
    and "map_terminal (bk_of (sp_keys P) (sp_ctx P)) (to_no_checks_ms (sp_keys P) (sp_ctx P)) n = n'"
  shows "sound_at P E (Miniscript n ty ext)"
proof -
  have push: "length p = 32 \<Longrightarrow> element_from p = Push p" for p :: bytes
    by (auto simp: element_from_def)
  have zeros: "w = [Push (replicate 32 0)]" if "dissats E (Miniscript n ty ext) ps" "elements P ps = Some w" for ps w
    using assms(6) [OF that(1)] that(2) push [of "replicate 32 0"] by (simp add: elements_Cons)
  have "evals (sp_interp P) (Miniscript n' ty ext) w [Satisfied]"
    if st: "sats E (Miniscript n ty ext) ps" and els: "elements P ps = Some w" for ps w
  proof -
    obtain p where p: "ps = [p]" "complete_ph P p = s" using assms(5) [OF st] by blast
    with els obtain b where b: "s = Some b" "w = [element_from b]" by (auto simp: elements_Cons)
    then have "length b = 32" "f b = h" using assms(3) by (simp_all add: preimage_honest_def)
    with evals_hash_lock [of "sp_interp P" n' f b] assms(2) push b show ?thesis by simp
  qed
  moreover have "evals (sp_interp P) (Miniscript n' ty ext) [Push (replicate 32 0)] [Dissatisfied]"
    using assms(3) by (intro evals_hash_lock_dissat [OF assms(2)]) (simp_all add: preimage_honest_def)
  ultimately show ?thesis
    using assms(4,7) zeros by (auto simp: sound_at_def to_no_checks_node)
qed

subsection \<open>Multisignatures\<close>

lemma subseq_rev: "subseq xs ys \<Longrightarrow> subseq (rev xs) (rev ys)"
proof (induction rule: list_emb.induct)
  case (list_emb_Cons xs ys y)
  then show ?case by (simp add: subseq_rev_drop_many)
next
  case (list_emb_Cons2 x y xs ys)
  then show ?case by (simp add: list_emb_append_mono)
qed simp

lemma sigs_match_subseq:
  assumes "subseq qs ks" "list_all2 (sig_ok I) qs ss"
  shows "sigs_match I ks ss"
  using assms
proof (induction arbitrary: ss rule: list_emb.induct)
  case (list_emb_Nil ks)
  then show ?case by simp
next
  case (list_emb_Cons qs ks k)
  then show ?case by (simp add: sigs_match_more_keys)
next
  case (list_emb_Cons2 q k qs ks)
  then show ?case by (cases ss) auto
qed

lemma complete_sigs:
  assumes "env_for P E" "\<And>pk. pk \<in> set pks \<Longrightarrow> key_honest P pk \<and> available E pk"
    and "elements P (map (sig_ph E) pks) = Some w"
  shows "\<exists>ss. w = map Push ss \<and> list_all2 (sig_ok (sp_interp P)) (rev (map (bk_of (sp_keys P) (sp_ctx P)) pks)) ss"
  using assms(2,3)
proof (induction pks arbitrary: w)
  case Nil
  then show ?case by simp
next
  case (Cons pk pks)
  then obtain b v where b: "complete_ph P (sig_ph E pk) = Some b" "elements P (map (sig_ph E) pks) = Some v"
    "w = v @ [element_from b]"
    by (auto simp: elements_Cons)
  obtain ss where ss: "v = map Push ss"
    "list_all2 (sig_ok (sp_interp P)) (rev (map (bk_of (sp_keys P) (sp_ctx P)) pks)) ss"
    using Cons.IH [OF _ b(2)] Cons.prems(1) by auto
  have "is_push b \<and> sig_ok (sp_interp P) (bk_of (sp_keys P) (sp_ctx P) pk) b"
    using complete_sig [OF assms(1) _ _ b(1)] Cons.prems(1) by simp
  with ss b show ?case by (intro exI [of _ "ss @ [b]"]) (simp add: list_all2_appendI)
qed

lemma sound_multi:
  assumes "env_for P E" "wf_threshold m t" "\<forall>pk \<in> set (thr_data t). key_honest P pk" "base (corr ty) = BaseB"
  shows "sound_at P E (Miniscript (Multi t) ty ext)"
proof -
  let ?bk = "bk_of (sp_keys P) (sp_ctx P)" and ?I = "sp_interp P"
  let ?t = "map_threshold ?bk t"
  have t: "thr_data ?t = map ?bk (thr_data t)" "thr_k ?t = thr_k t" by (cases t; simp)+
  have "evals ?I (Miniscript (Multi ?t) ty ext) w [Satisfied]"
    if st: "sats E (Miniscript (Multi t) ty ext) ps" and els: "elements P ps = Some w" for ps w
  proof -
    obtain pks where pks: "subseq pks (thr_data t)" "length pks = thr_k t" "\<forall>pk \<in> set pks. available E pk"
      "ps = PushZero # map (sig_ph E) pks"
      using stacks_multi(1) [OF st] by blast
    then obtain v where v: "elements P (map (sig_ph E) pks) = Some v" "w = v @ [Dissatisfied]"
      using els by (auto simp: elements_Cons)
    have "key_honest P pk \<and> available E pk" if "pk \<in> set pks" for pk
      using that pks(1,3) assms(3) subseq_set by blast
    then obtain ss where ss: "v = map Push ss" "list_all2 (sig_ok ?I) (rev (map ?bk pks)) ss"
      using complete_sigs [OF assms(1) _ v(1)] by blast
    have "subseq (rev (map ?bk pks)) (rev (thr_data ?t))"
      using pks(1) by (simp add: t subseq_rev subseq_map)
    with ss(2) have "sigs_match ?I (rev (thr_data ?t)) ss" by (rule sigs_match_subseq [rotated])
    moreover have "length ss = thr_k ?t" using list_all2_lengthD [OF ss(2)] pks(2) t by simp
    ultimately show ?thesis using evals_multi ss(1) v(2) t assms(2) by (simp add: wf_threshold_def)
  qed
  moreover have "evals ?I (Miniscript (Multi ?t) ty ext) w [Dissatisfied]"
    if "elements P (replicate (thr_k t + 1) PushZero) = Some w" for w
    by (rule evals_multi_dissat) (use that t in \<open>simp del: replicate.simps add: elements_zeros\<close>)
  ultimately show ?thesis
    using assms(4) by (auto simp: sound_at_def to_no_checks_node stacks_multi(2))
qed

lemma sound_multi_a:
  assumes "env_for P E" "wf_threshold m t" "\<forall>pk \<in> set (thr_data t). key_honest P pk" "base (corr ty) = BaseB"
  shows "sound_at P E (Miniscript (MultiA t) ty ext)"
proof -
  let ?bk = "bk_of (sp_keys P) (sp_ctx P)" and ?I = "sp_interp P"
  let ?t = "map_threshold ?bk t"
  have t: "thr_data ?t = map ?bk (thr_data t)" "thr_k ?t = thr_k t" by (cases t; simp)+
  have run: "evals ?I (Miniscript (MultiA ?t) ty ext) w [bel (count_true bs = thr_k t)]"
    if bs: "marks_ok E (thr_data t) bs" and els: "elements P (rev (map2 (slot E) (thr_data t) bs)) = Some w" for bs w
  proof -
    have len: "length bs = length (thr_data t)"
      using bs by (simp add: marks_ok_def list_all2_lengthD)
    then have "length w = length (thr_data t)"
      using list_all2_lengthD [OF els [unfolded elements_iff]] by simp
    note len = len this
    have "key_element ?I (?bk (thr_data t ! i)) (w ! i, bs ! i)" if i: "i < length (thr_data t)" for i
    proof -
      have el: "map_option element_from (complete_ph P (slot E (thr_data t ! i) (bs ! i))) = Some (w ! i)"
        using els i len by (auto simp: elements_iff list_all2_conv_all_nth)
      show ?thesis
      proof (cases "bs ! i")
        case True
        then have "available E (thr_data t ! i)" using bs i by (auto simp: marks_ok_def list_all2_conv_all_nth)
        moreover obtain b where b: "complete_ph P (sig_ph E (thr_data t ! i)) = Some b" "w ! i = element_from b"
          using el True by (auto simp: slot_def)
        moreover have "key_honest P (thr_data t ! i)" using assms(3) i by simp
        ultimately have "is_push b \<and> sig_ok ?I (?bk (thr_data t ! i)) b" using complete_sig [OF assms(1)] by blast
        with b(2) True show ?thesis by (simp add: key_element_def)
      next
        case False
        with el show ?thesis by (simp add: slot_def key_element_def)
      qed
    qed
    then have "list_all2 (key_element ?I) (thr_data ?t) (zip w bs)"
      using len by (simp add: t list_all2_conv_all_nth)
    from evals_multi_a [OF this] show ?thesis using len t by simp
  qed
  have sat: "evals ?I (Miniscript (MultiA ?t) ty ext) w [Satisfied]"
    if st: "sats E (Miniscript (MultiA t) ty ext) ps" and els: "elements P ps = Some w" for ps w
  proof -
    have "0 < thr_k t" using assms(2) by (simp add: wf_threshold_def)
    then obtain bs where "marks_ok E (thr_data t) bs" "count_true bs = thr_k t" "ps = rev (map2 (slot E) (thr_data t) bs)"
      using stacks_multi(3) [OF _ st] by blast
    then show ?thesis using run [of bs w] els by simp
  qed
  have none: "replicate (thr_n t) PushZero = rev (map2 (slot E) (thr_data t) (replicate (thr_n t) False))"
  proof -
    have "map2 (slot E) xs (replicate (length xs) False) = replicate (length xs) PushZero" for xs
      by (induction xs) (simp_all add: slot_def)
    then show ?thesis by (simp add: thr_n_def)
  qed
  have "marks_ok E (thr_data t) (replicate (thr_n t) False)"
    by (simp add: marks_ok_def list_all2_conv_all_nth thr_n_def)
  then have dis: "evals ?I (Miniscript (MultiA ?t) ty ext) w [Dissatisfied]"
    if "elements P (replicate (thr_n t) PushZero) = Some w" for w
    using run [of "replicate (thr_n t) False" w] that assms(2) unfolding none
    by (simp add: wf_threshold_def count_true_def)
  show ?thesis
    unfolding sound_at_def
    using sat dis assms(4) by (simp add: to_no_checks_node stacks_multi(4) del: elements_zeros)
qed

subsection \<open>Thresholds\<close>

lemma child_stacks_run:
  assumes "list_all2 (child_stack E) xs wbs"
    and "\<And>c. c \<in> set xs \<Longrightarrow> sound_at P E c" "\<And>c. c \<in> set xs \<Longrightarrow> base (corr (ms_ty c)) \<noteq> BaseV"
    and "elements P (concat (rev (map fst wbs))) = Some w"
  shows "\<exists>vs. w = concat vs \<and> length vs = length wbs \<and>
    list_all2 (\<lambda>x (v, b). evals (sp_interp P) x v [bel b]) (map (to_no_checks_ms (sp_keys P) (sp_ctx P)) xs)
      (zip vs (map snd wbs))"
  using assms
proof (induction xs wbs arbitrary: w rule: list_all2_induct)
  case Nil
  then show ?case by simp
next
  case (Cons x xs wb wbs)
  obtain v u where vu: "elements P (concat (rev (map fst wbs))) = Some v" "elements P (fst wb) = Some u" "w = u @ v"
    using Cons.prems(3) by (auto simp: elements_append)
  obtain vs where vs: "v = concat vs" "length vs = length wbs"
    "list_all2 (\<lambda>x (v, b). evals (sp_interp P) x v [bel b]) (map (to_no_checks_ms (sp_keys P) (sp_ctx P)) xs)
      (zip vs (map snd wbs))"
    using Cons.IH [OF Cons.prems(1,2) vu(1)] by auto
  have x: "sound_at P E x" "base (corr (ms_ty x)) \<noteq> BaseV" using Cons.prems(1,2) by simp_all
  have "evals (sp_interp P) (to_no_checks_ms (sp_keys P) (sp_ctx P) x) u [bel (snd wb)]"
    using Cons.hyps(1) x sound_atD(1,3) [OF x(1) _ vu(2)] by (cases "snd wb") (simp_all add: child_stack_def)
  with vs vu(3) show ?case by (intro exI [of _ "u # vs"]) simp
qed

context sat_strategy
begin

lemma sound_thresh:
  assumes "\<And>c. c \<in> set xs \<Longrightarrow> sound_at P E c" and "env_thresh E = threshf"
    and "ty_threshold k (map ms_ty xs) = Inr ty" and "0 < k" "k \<le> length xs"
  shows "sound_at P E (Miniscript (Thresh (Threshold k xs)) ty ext)"
proof -
  let ?tr = "to_no_checks_ms (sp_keys P) (sp_ctx P)"
  let ?ms = "Miniscript (Thresh (Threshold k xs)) ty ext"
  have bases: "base (corr (ms_ty c)) \<noteq> BaseV" if "c \<in> set xs" for c
    using assms(3) that by (fastforce simp: ty_threshold_Inr thresh_bases_ok_def in_set_conv_nth split: if_splits)
  have ty: "base (corr ty) = BaseB" using assms(3) by (simp add: ty_threshold_Inr)
  have run: "evals (sp_interp P) (?tr ?ms) w [bel (count_true (map snd wbs) = k)]"
    if wbs: "list_all2 (child_stack E) xs wbs" and els: "elements P (concat (rev (map fst wbs))) = Some w" for wbs w
  proof -
    obtain vs where vs: "w = concat vs" "length vs = length wbs"
      "list_all2 (\<lambda>x (v, b). evals (sp_interp P) x v [bel b]) (map ?tr xs) (zip vs (map snd wbs))"
      using child_stacks_run [OF wbs assms(1) bases els] by blast
    have "map ?tr xs \<noteq> []" using assms(4,5) by auto
    then have "evals (sp_interp P) (Miniscript (Thresh (Threshold k (map ?tr xs))) ty ext)
        (concat (map fst (zip vs (map snd wbs)))) [bel (count_true (map snd (zip vs (map snd wbs))) = k)]"
      using evals_thresh [of "sp_interp P" "Threshold k (map ?tr xs)"] vs(3) by simp
    then show ?thesis using vs(1,2) by (simp add: to_no_checks_node)
  qed
  have "evals (sp_interp P) (?tr ?ms) w [Satisfied]" if st: "sats E ?ms ps" and els: "elements P ps = Some w" for ps w
    using sats_thresh [OF assms(2,5) st] run els by fastforce
  moreover have "evals (sp_interp P) (?tr ?ms) w [Dissatisfied]" if st: "dissats E ?ms ps" and els: "elements P ps = Some w" for ps w
    using dissats_thresh [OF st] run els assms(4) by fastforce
  ultimately show ?thesis using ty by (simp add: sound_at_def)
qed

subsection \<open>All fragments\<close>

lemma sound_typed:
  assumes "typed_ms ms" "honest P ms" "env_for P E" "env_min E = minf" "env_thresh E = threshf"
  shows "sound_at P E ms"
  using assms(1,2)
proof (induction ms rule: ms_induct)
  case (Node n ty ext)
  let ?ms = "Miniscript n ty ext"
  note typed = Node.prems(1) and hon = Node.prems(2)
  have ok: "node_ok n" and ty: "ty_check n = Inr ty" and nh: "node_honest P n"
    using typed honest_node [OF hon] by simp_all
  have lib: "ie_lib (sp_interp P) = sp_lib P" using hon by (rule honest_env)
  have prov: "env_provider E = provider_of (sp_sat P)" "env_lib E = sp_lib P"
    using assms(3) by (simp_all add: env_for_def)
  have IH: "sound_at P E c" if "c \<in> set (children n)" for c
    using Node.IH [OF that] typed honest_children [OF hon, of c] that by simp
  show ?case
  proof (cases n)
    case (PkK pk)
    with sound_pk_k [OF assms(3)] nh ty show ?thesis by (auto simp: ty_leaf_defs)
  next
    case (PkH pk)
    with sound_pk_h [OF assms(3) hon] ty show ?thesis by (auto simp: ty_leaf_defs)
  next
    case (RawPkH h)
    with sound_raw_pkh [OF assms(3) hon] ty show ?thesis by (auto simp: ty_leaf_defs)
  next
    case (Multi t)
    with sound_multi [OF assms(3)] nh ty ok show ?thesis by (auto simp: ty_leaf_defs)
  next
    case (MultiA t)
    with sound_multi_a [OF assms(3)] nh ty ok show ?thesis by (auto simp: ty_leaf_defs)
  next
    case (Thresh t)
    obtain k xs where t: "t = Threshold k xs" by (cases t)
    show ?thesis
      using sound_thresh [of xs P E k ty ext] IH Thresh t assms(5) ty ok by (simp add: wf_threshold_def thr_n_def)
  next
    case (Sha256 h)
    show ?thesis
      unfolding Sha256
      by (rule sound_hash [OF lib, where n' = "Sha256 h"])
        (use nh ty Sha256 lib in \<open>auto simp: hash_lock_def ty_leaf_defs stacks_hash\<close>)
  next
    case (Hash256 h)
    show ?thesis
      unfolding Hash256
      by (rule sound_hash [OF lib, where n' = "Hash256 h"])
        (use nh ty Hash256 lib in \<open>auto simp: hash_lock_def ty_leaf_defs stacks_hash\<close>)
  next
    case (Hash160 h)
    show ?thesis
      unfolding Hash160
      by (rule sound_hash [OF lib, where n' = "Hash160 h"])
        (use nh ty Hash160 lib in \<open>auto simp: hash_lock_def ty_leaf_defs stacks_hash\<close>)
  next
    case (Ripemd160 h)
    show ?thesis
      unfolding Ripemd160
      by (rule sound_hash [OF lib, where n' = "Ripemd160 h"])
        (use nh ty Ripemd160 lib in \<open>auto simp: hash_lock_def ty_leaf_defs stacks_hash\<close>)
  next
    case (After t)
    with nh ty prov lib show ?thesis
      by (auto simp: sound_at_def to_no_checks_node ty_leaf_defs stacks_time stacks_const provider_of_def
          intro!: evals_after)
  next
    case (Older t)
    with nh ty prov lib show ?thesis
      by (auto simp: sound_at_def to_no_checks_node ty_leaf_defs stacks_time stacks_const provider_of_def
          intro!: evals_older)
  next
    case (TxTemplate h)
    with nh ty prov show ?thesis
      by (auto simp: sound_at_def to_no_checks_node ty_leaf_defs stacks_time stacks_const provider_of_def
          intro!: evals_tx_template)
  next
    case TrueT
    with ty show ?thesis
      by (auto simp: sound_at_def to_no_checks_node ty_leaf_defs stacks_const intro!: evals_true)
  next
    case FalseT
    with ty show ?thesis
      by (auto simp: sound_at_def to_no_checks_node ty_leaf_defs stacks_const intro!: evals_false)
  next
    case (InscribePre ins x)
    with IH [of x] ty show ?thesis
      by (auto simp: sound_at_def to_no_checks_node stacks_pass intro!: evals_pass split: if_splits)
  next
    case (InscribePost ins x)
    with IH [of x] ty show ?thesis
      by (auto simp: sound_at_def to_no_checks_node stacks_pass intro!: evals_pass split: if_splits)
  next
    case (Alt x)
    with IH [of x] ty show ?thesis
      by (auto simp: sound_at_def to_no_checks_node stacks_pass ty_Inr intro!: evals_pass)
  next
    case (Swap x)
    with IH [of x] ty show ?thesis
      by (auto simp: sound_at_def to_no_checks_node stacks_pass ty_Inr intro!: evals_pass)
  next
    case (Check x)
    with IH [of x] ty show ?thesis
      by (auto simp: sound_at_def to_no_checks_node stacks_pass ty_Inr intro!: evals_pass)
  next
    case (Verify x)
    with IH [of x] ty show ?thesis
      by (auto simp: sound_at_def to_no_checks_node stacks_pass ty_Inr intro!: evals_verify)
  next
    case (ZeroNotEqual x)
    with IH [of x] ty show ?thesis
      by (auto simp: sound_at_def to_no_checks_node stacks_pass ty_Inr
          intro!: evals_zeronotequal [where b = True, simplified] evals_zeronotequal [where b = False, simplified])
  next
    case (DupIf x)
    with IH [of x] ty show ?thesis
      by (auto simp: sound_at_def to_no_checks_node stacks_pass ty_Inr elements_append
          intro!: evals_dupif evals_dupif_dissat)
  next
    case (NonZero x)
    then have nz: "nonzero_input (input (corr (ms_ty x)))" "base (corr (ms_ty x)) = BaseB" "base (corr ty) = BaseB"
      using ty by (auto simp: ty_Inr nonzero_input_def)
    have tx: "typed_ms x" and hx: "honest P x" using typed honest_children [OF hon, of x] NonZero by simp_all
    have "evals (sp_interp P) (to_no_checks_ms (sp_keys P) (sp_ctx P) ?ms) w [Satisfied]"
      if st: "sats E x ps" and els: "elements P ps = Some w" for ps w
    proof -
      have "top_nonzero ps"
        using sat_shape_typed [OF tx assms(4,5)] st nz(1) by (auto simp: sat_shape_of_def sat_shape_def)
      then obtain qs p where p: "ps = qs @ [p]" "p \<noteq> PushZero" by (cases ps rule: rev_cases) (auto simp: top_nonzero_def)
      have "ph_nonempty P p" using stack_nonempty [OF tx hx assms(3-5), of ps] st p(1) by simp
      with els p obtain b v where b: "b \<noteq> []" "w = element_from b # v"
        by (auto simp: elements_append elements_Cons ph_nonempty_def)
      have "element_from b \<noteq> Dissatisfied" using b(1) by (simp add: element_from_def)
      moreover have "evals (sp_interp P) (to_no_checks_ms (sp_keys P) (sp_ctx P) x) w [Satisfied]"
        using sound_atD(1) [OF IH st els] NonZero nz(2) by simp
      ultimately show ?thesis
        unfolding NonZero using b(2) by (simp add: to_no_checks_node evals_nonzero)
    qed
    moreover have "evals (sp_interp P) (to_no_checks_ms (sp_keys P) (sp_ctx P) ?ms) [Dissatisfied] [Dissatisfied]"
      using NonZero evals_nonzero_dissat by (simp add: to_no_checks_node)
    ultimately show ?thesis using NonZero nz(3) by (auto simp: sound_at_def stacks_pass)
  next
    case (AndV l r)
    with IH [of l] IH [of r] ty show ?thesis
      by (auto simp: sound_at_def to_no_checks_node stacks_and ty_Inr elements_append elements_append_None intro!: evals_and_v)
  next
    case (AndB l r)
    with IH [of l] IH [of r] ty show ?thesis
      by (auto simp: sound_at_def to_no_checks_node stacks_and ty_Inr elements_append
          intro!: evals_both(1) [where a = True and b = True, simplified] evals_both(1) [where a = False and b = False, simplified])
  next
    case (OrB l r)
    with IH [of l] IH [of r] ty show ?thesis
      by (auto simp: sound_at_def to_no_checks_node stacks_and ty_Inr elements_append
          dest!: sats_or_b [OF assms(4)]
          intro!: evals_both(2) [where a = False and b = False, simplified])
        (blast intro: evals_both(2) [where a = True and b = False, simplified] evals_both(2) [where a = False and b = True, simplified])+
  next
    case (OrD l r)
    with IH [of l] IH [of r] ty show ?thesis
      by (auto simp: sound_at_def to_no_checks_node stacks_and ty_Inr elements_append
          dest!: sats_or_d [OF assms(4)])
        (blast intro: evals_or_d_left evals_or_right)+
  next
    case (OrC l r)
    with IH [of l] IH [of r] ty show ?thesis
      by (auto simp: sound_at_def to_no_checks_node stacks_or_dissat(1) ty_Inr elements_append
          dest!: sats_or_c [OF assms(4)])
        (blast intro: evals_or_c_left evals_or_right)+
  next
    case (OrI l r)
    with IH [of l] IH [of r] ty show ?thesis
      by (auto simp: sound_at_def to_no_checks_node ty_Inr elements_append elements_append_None
          dest!: sats_or_i [OF assms(4)] stacks_or_dissat(2) split: if_splits)
        (blast intro: evals_or_i [where p = True, simplified] evals_or_i [where p = False, simplified])+
  next
    case (AndOr a b c)
    with IH [of a] IH [of b] IH [of c] ty show ?thesis
      by (auto simp: sound_at_def to_no_checks_node stacks_and ty_Inr elements_append elements_append_None
          dest!: sats_and_or [OF assms(4)])
        (blast intro: evals_and_or [where p = True, simplified] evals_and_or [where p = False, simplified])+
  qed
qed

end

subsection \<open>The entry points\<close>

text \<open>The interpreter's run on a witness stack, its last item on top.\<close>

definition run_witness ::
    "'pk spend \<Rightarrow> 'pk miniscript \<Rightarrow> bytes list \<Rightarrow> (satisfied_constraint list \<times> interp_error option) option" where
  "run_witness P ms wit =
     collect_iter (sp_interp P)
       (iter_custom (to_no_checks_ms (sp_keys P) (sp_ctx P) ms) (map element_from (rev wit)))"

definition leaf_hash_ok :: "'pk spend \<Rightarrow> 'pk miniscript \<Rightarrow> bool" where
  "leaf_hash_ok P ms \<longleftrightarrow>
     (case encode (sp_lib P) (sp_keys P) (sp_ctx P) [] ms of
        None \<Rightarrow> True | Some script \<Rightarrow> sp_leaf_hash P = tap_leaf_hash (sp_lib P) script)"

lemma completed_run:
  assumes "sound_at P E ms" "base (corr (ms_ty ms)) = BaseB" "satisfy_helper E ms = Some t"
    and "try_completing (sp_lib P) (sp_keys P) (sp_sat P) t = Some s" "witness_result s = Inr wit"
  shows "\<exists>cs. run_witness P ms wit = Some (cs, None)"
proof -
  obtain ps where ps: "sat_stack t = Stack ps" "mapM (complete_ph P) ps = Some wit"
    using assms(4,5)
    by (cases "sat_stack t") (auto simp: try_completing_def witness_result_def bind_eq_Some_conv)
  then have "evals (sp_interp P) (to_no_checks_ms (sp_keys P) (sp_ctx P) ms) (map element_from (rev wit)) [Satisfied]"
    using sound_atD(1) [OF assms(1) givesI [OF assms(3) ps(1)]] assms(2) by (simp add: elements_def)
  then show ?thesis unfolding run_witness_def by (rule evals_collect)
qed

lemma satisfy_run:
  assumes "typed_ms ms" "base (corr (ms_ty ms)) = BaseB" "honest P ms" "leaf_hash_ok P ms"
    and "satisfy (sp_lib P) (sp_keys P) (sp_ctx P) (sp_sat P) ms = Some (Inr wit)"
  shows "\<exists>cs. run_witness P ms wit = Some (cs, None)"
proof -
  obtain script t s where s: "encode (sp_lib P) (sp_keys P) (sp_ctx P) [] ms = Some script"
    "build_template (sp_lib P) (sp_keys P) (sp_ctx P) (provider_of (sp_sat P)) (safe (mall (ms_ty ms)))
       (tap_leaf_hash (sp_lib P) script) ms = Some t"
    "try_completing (sp_lib P) (sp_keys P) (sp_sat P) t = Some s" "witness_result s = Inr wit"
    using assms(5) by (auto simp: satisfy_def bind_eq_Some_conv)
  let ?E = "sat_env_nonmall (sp_lib P) (sp_keys P) (sp_ctx P) (provider_of (sp_sat P)) (safe (mall (ms_ty ms)))
    (tap_leaf_hash (sp_lib P) script)"
  have "env_for P ?E" "env_min ?E = minimum (sp_lib P)" "env_thresh ?E = thresh_nonmall (sp_lib P)"
    using assms(4) s(1) by (simp_all add: env_for_def sat_env_nonmall_def leaf_hash_ok_def)
  then have "sound_at P ?E ms" using nonmall.sound_typed [OF assms(1,3)] by blast
  then show ?thesis
    using completed_run assms(2) s(2,3,4) by (fastforce simp: build_template_def)
qed

lemma satisfy_malleable_run:
  assumes "typed_ms ms" "base (corr (ms_ty ms)) = BaseB" "honest P ms" "leaf_hash_ok P ms"
    and "satisfy_malleable (sp_lib P) (sp_keys P) (sp_ctx P) (sp_sat P) ms = Some (Inr wit)"
  shows "\<exists>cs. run_witness P ms wit = Some (cs, None)"
proof -
  obtain script t s where s: "encode (sp_lib P) (sp_keys P) (sp_ctx P) [] ms = Some script"
    "build_template_mall (sp_lib P) (sp_keys P) (sp_ctx P) (provider_of (sp_sat P)) (safe (mall (ms_ty ms)))
       (tap_leaf_hash (sp_lib P) script) ms = Some t"
    "try_completing (sp_lib P) (sp_keys P) (sp_sat P) t = Some s" "witness_result s = Inr wit"
    using assms(5) by (auto simp: satisfy_malleable_def bind_eq_Some_conv)
  let ?E = "sat_env_mall (sp_lib P) (sp_keys P) (sp_ctx P) (provider_of (sp_sat P)) (safe (mall (ms_ty ms)))
    (tap_leaf_hash (sp_lib P) script)"
  have "env_for P ?E" "env_min ?E = minimum_mall (sp_lib P)" "env_thresh ?E = thresh_mall (sp_lib P)"
    using assms(4) s(1) by (simp_all add: env_for_def sat_env_mall_def leaf_hash_ok_def)
  then have "sound_at P ?E ms" using malleable.sound_typed [OF assms(1,3)] by blast
  then show ?thesis
    using completed_run assms(2) s(2,3,4) by (fastforce simp: build_template_mall_def)
qed

end
