(* ===== verification/RefLib.thy ===== *)
theory RefLib
  imports SatSound
begin

section \<open>A reference instance of the library\<close>

text \<open>
  A concrete record \<open>btc\<close> on which the examples of the development are evaluated.  The sizes, the
  locktime conversions and the key formats follow the library's documentation; the hash functions
  are stand-ins of the right length.  \<open>ref_builder_laws\<close> shows that the hypotheses on the library
  can hold.
\<close>

subsection \<open>Lengths\<close>

fun ref_len_rev :: "builder \<Rightarrow> nat" where
  "ref_len_rev [] = 0"
| "ref_len_rev (c # cs) =
     (if c = PushVerify then (if cs \<noteq> [] \<and> free_verify_call (hd cs) then 0 else 1) else call_len c)
     + ref_len_rev cs"

definition ref_builder_len :: "builder \<Rightarrow> nat" where
  "ref_builder_len b = ref_len_rev (rev b)"

definition pad :: "nat \<Rightarrow> u8 \<Rightarrow> bytes \<Rightarrow> bytes" where
  "pad n c b = take n (b @ replicate n c)"

lemma length_pad [simp]: "length (pad n c b) = n"
  by (simp add: pad_def)

subsection \<open>The instance\<close>

definition ref_abs_from_consensus :: "u32 \<Rightarrow> abs_lock" where
  "ref_abs_from_consensus n = (if n < 500000000 then Blocks n else Seconds n)"

fun ref_abs_implied :: "abs_lock \<Rightarrow> abs_lock \<Rightarrow> bool" where
  "ref_abs_implied (Blocks a) (Blocks b) = (a \<le> b)"
| "ref_abs_implied (Seconds a) (Seconds b) = (a \<le> b)"
| "ref_abs_implied _ _ = False"

definition ref_btc :: btc where
  "ref_btc =
     \<lparr>builder_len = ref_builder_len,
      tap_leaf_hash = (\<lambda>b. replicate 32 7),
      abs_from_consensus = ref_abs_from_consensus,
      abs_is_implied_by = ref_abs_implied,
      seq_is_relative = (\<lambda>n. n < 0x80000000),
      seq_to_relative = (\<lambda>n. if n < 0x80000000 then Some (RelLock n) else None),
      seq_is_height = (\<lambda>n. n < 0x400000),
      seq_is_time = (\<lambda>n. \<not> n < 0x400000 \<and> n < 0x80000000),
      rel_is_implied_by = (\<lambda>a b. case (a, b) of (RelLock m, RelLock n) \<Rightarrow>
         (m < 0x400000) = (n < 0x400000) \<and> m \<le> n),
      varint_size = (\<lambda>n. if n < 0xFD then 1 else if n < 0x10000 then 3 else 5),
      sha256_hash = pad 32 1, hash256_hash = pad 32 2, ripemd160_hash = pad 20 3, hash160_hash = pad 20 4,
      pubkey_to_bytes = (\<lambda>pk. (if compressed pk then 2 else 4) # inner pk),
      pubkey_to_xonly = (\<lambda>pk. XOnly (inner pk)),
      xonly_to_pubkey = (\<lambda>x. case x of XOnly b \<Rightarrow> PublicKey True b),
      pubkey_from_slice = (\<lambda>b. case b of [] \<Rightarrow> None
         | c # k \<Rightarrow> if c = 2 then Some (PublicKey True k) else if c = 4 then Some (PublicKey False k) else None),
      xonly_serialize = (\<lambda>x. case x of XOnly b \<Rightarrow> pad 32 0 b),
      xonly_from_slice = (\<lambda>b. if length b = 32 then Some (XOnly b) else None),
      ecdsa_from_slice = (\<lambda>b. if 2 \<le> length b then Some b else None),
      schnorr_from_slice = (\<lambda>b. if length b = 64 \<or> length b = 65 then Some b else None)\<rparr>"

lemma hd_rev_ends: "(rev b \<noteq> [] \<and> free_verify_call (hd (rev b))) = ends_free b"
  by (simp add: ends_free_def hd_rev)

lemma ref_builder_laws: "builder_laws ref_btc"
proof -
  have "ref_builder_len (b @ [PushVerify]) = ref_builder_len b + (if ends_free b then 0 else 1)" for b
    using hd_rev_ends [of b] by (simp add: ref_builder_len_def)
  moreover have "small_call c \<Longrightarrow> ref_builder_len [c] = call_len c" for c
    by (cases c) (simp_all add: ref_builder_len_def)
  ultimately show ?thesis
    by (simp add: builder_laws_def ref_btc_def ref_builder_len_def split: xonly.splits)
qed

text \<open>Keys are natural numbers; key \<open>n\<close> has the 32 bytes \<open>n, 9, 9, ...\<close>.\<close>

definition ref_point :: "nat \<Rightarrow> bytes" where
  "ref_point n = word_of_nat n # replicate 31 9"

definition ref_keys :: "nat key_ops" where
  "ref_keys =
     \<lparr>is_uncompressed = (\<lambda>_. False), is_x_only_key = (\<lambda>_. False), num_der_paths = (\<lambda>_. 0),
      to_public_key = (\<lambda>n. PublicKey True (ref_point n)),
      to_x_only_pubkey = (\<lambda>n. XOnly (ref_point n))\<rparr>"

lemma ref_key_laws: "key_laws ref_keys"
  by (simp add: key_laws_def ref_keys_def)

text \<open>A satisfier that has the ECDSA signatures of the keys in a list, and a locktime.\<close>

definition ref_satisfier :: "nat list \<Rightarrow> nat satisfier" where
  "ref_satisfier ks =
     \<lparr>lookup_ecdsa_sig = (\<lambda>k. if k \<in> set ks then Some [48, word_of_nat k] else None),
      lookup_tap_key_spend_sig = (\<lambda>_. None),
      lookup_tap_leaf_script_sig = (\<lambda>_ _. None),
      lookup_raw_pkh_pk = (\<lambda>_. None),
      lookup_raw_pkh_x_only_pk = (\<lambda>_. None),
      lookup_raw_pkh_ecdsa_sig = (\<lambda>_. None),
      lookup_raw_pkh_tap_leaf_script_sig = (\<lambda>_. None),
      lookup_sha256 = (\<lambda>_. None), lookup_hash256 = (\<lambda>_. None),
      lookup_ripemd160 = (\<lambda>_. None), lookup_hash160 = (\<lambda>_. None),
      sat_check_older = (\<lambda>n. rel_is_implied_by ref_btc n (RelLock 100)),
      sat_check_after = (\<lambda>_. False),
      sat_check_tx_template = (\<lambda>_. False)\<rparr>"

definition ref_interp :: "sig_type \<Rightarrow> interp_env" where
  "ref_interp st =
     \<lparr>ie_lib = ref_btc, ie_verify_sig = (\<lambda>ks. True), ie_sequence = 100, ie_lock_time = Blocks 0,
      ie_tx_template = None, ie_sig_type = st\<rparr>"

definition ref_spend :: "script_context \<Rightarrow> nat list \<Rightarrow> nat spend" where
  "ref_spend ctx ks =
     \<lparr>sp_lib = ref_btc, sp_keys = ref_keys, sp_ctx = ctx, sp_sat = ref_satisfier ks,
      sp_leaf_hash = replicate 32 7, sp_interp = ref_interp (ctx_sig_type ctx)\<rparr>"

text \<open>Building a tree with \<open>from_ast\<close> at every node.\<close>

definition mk_ms :: "script_context \<Rightarrow> (nat, nat miniscript) terminal \<Rightarrow> nat miniscript" where
  "mk_ms ctx n = (case from_ast ref_btc ref_keys ctx n of Inr ms \<Rightarrow> ms | Inl _ \<Rightarrow> Miniscript n ty_FALSE ext_FALSE)"

end
