(* ===== verification/Trees.thy ===== *)
theory Trees
  imports Prelude
begin

section \<open>Abstract trees and their iterators\<close>

text \<open>
  The trait \<open>TreeLike\<close> of \<^verbatim>\<open>iter/tree.rs\<close> and its iterators: pre-order, verbose
  pre-order, post-order and right-to-left post-order.  A type with the shape of a tree is a record of the
  three methods of the trait; a \<open>Vec\<close> used as a stack by the post-order iterators is a list in the
  order of the code (the top last), because its items refer to their parents by position.  The interface
  \<open>tree_like\<close> relates a type of nodes to finite rose trees: each iterator then yields the nodes of the
  rose tree in its order.  The loops of the library that run over \<open>rtl_post_order_iter\<close> with a stack of
  results are \<open>stack_loop\<close>, and \<open>stack_loop_rtl\<close> shows that they compute a fold over the tree.
\<close>

subsection \<open>Nodes\<close>

datatype ('t, 'n) tree_node =
    Nullary
  | Unary 't
  | Binary 't 't
  | Ternary 't 't 't
  | Nary 'n

text \<open>The methods a type has to give.  \<open>nary_index\<close> is only called with an index in range.\<close>

record ('t, 'n) tree_ops =
  as_node :: "'t \<Rightarrow> ('t, 'n) tree_node"
  nary_len :: "'n \<Rightarrow> nat"
  nary_index :: "'n \<Rightarrow> nat \<Rightarrow> 't"

definition n_children :: "('t, 'n) tree_ops \<Rightarrow> 't \<Rightarrow> nat" where
  "n_children T t =
     (case as_node T t of
        Nullary \<Rightarrow> 0
      | Unary _ \<Rightarrow> 1
      | Binary _ _ \<Rightarrow> 2
      | Ternary _ _ _ \<Rightarrow> 3
      | Nary children \<Rightarrow> nary_len T children)"

definition nth_child :: "('t, 'n) tree_ops \<Rightarrow> 't \<Rightarrow> nat \<Rightarrow> 't option" where
  "nth_child T t n =
     (case as_node T t of
        Nullary \<Rightarrow> None
      | Unary sub \<Rightarrow> if n = 0 then Some sub else None
      | Binary a b \<Rightarrow> if n = 0 then Some a else if n = 1 then Some b else None
      | Ternary a b c \<Rightarrow> if n = 0 then Some a else if n = 1 then Some b else if n = 2 then Some c else None
      | Nary children \<Rightarrow> if n < nary_len T children then Some (nary_index T children n) else None)"

text \<open>The children of a node, in order.\<close>

definition tree_children :: "('t, 'n) tree_ops \<Rightarrow> 't \<Rightarrow> 't list" where
  "tree_children T t =
     (case as_node T t of
        Nullary \<Rightarrow> []
      | Unary a \<Rightarrow> [a]
      | Binary a b \<Rightarrow> [a, b]
      | Ternary a b c \<Rightarrow> [a, b, c]
      | Nary children \<Rightarrow> map (nary_index T children) [0..<nary_len T children])"

lemma n_children_length [simp]: "n_children T t = length (tree_children T t)"
  by (simp add: n_children_def tree_children_def split: tree_node.splits)

lemma nth_child_nth: "n < length (tree_children T t) \<Longrightarrow> nth_child T t n = Some (tree_children T t ! n)"
  by (auto simp: nth_child_def tree_children_def nth_Cons' split: tree_node.splits)

lemma nth_child_None: "length (tree_children T t) \<le> n \<Longrightarrow> nth_child T t n = None"
  by (auto simp: nth_child_def tree_children_def split: tree_node.splits)

subsection \<open>Pre-order\<close>

text \<open>An iterator is a function from its state to the next item and state.  \<open>drain\<close> collects the items
  of an iterator whose \<open>next\<close> may panic (\<open>None\<close>); it is \<open>None\<close>, too, when the iterator does
  not end.\<close>

partial_function (option) drain :: "('s \<Rightarrow> ('a \<times> 's) option option) \<Rightarrow> 's \<Rightarrow> 'a list option" where
  "drain next s =
     (case next s of
        None \<Rightarrow> None
      | Some None \<Rightarrow> Some []
      | Some (Some (x, s')) \<Rightarrow> Option.bind (drain next s') (\<lambda>xs. Some (x # xs)))"

declare drain.simps [code]

text \<open>The stack of \<open>PreOrderIter\<close>, the top first.\<close>

definition pre_order_next :: "('t, 'n) tree_ops \<Rightarrow> 't list \<Rightarrow> ('t \<times> 't list) option" where
  "pre_order_next T stack =
     (case stack of
        [] \<Rightarrow> None
      | top_node # rest \<Rightarrow>
          Some (top_node,
            case as_node T top_node of
              Nullary \<Rightarrow> rest
            | Unary n \<Rightarrow> n # rest
            | Binary l r \<Rightarrow> l # r # rest
            | Ternary a b c \<Rightarrow> a # b # c # rest
            | Nary children \<Rightarrow>
                fold (\<lambda>i st. nary_index T children i # st) (rev [0..<nary_len T children]) rest))"

definition pre_order_iter :: "('t, 'n) tree_ops \<Rightarrow> 't \<Rightarrow> 't list option" where
  "pre_order_iter T t = drain (\<lambda>s. Some (pre_order_next T s)) [t]"

lemma fold_push_rev: "fold (\<lambda>i st. f i # st) (rev is) rest = map f is @ rest"
  by (induction "is" arbitrary: rest rule: rev_induct) auto

lemma pre_order_next_Cons: "pre_order_next T (t # rest) = Some (t, tree_children T t @ rest)"
  by (simp add: pre_order_next_def tree_children_def fold_push_rev split: tree_node.splits)

subsection \<open>Verbose pre-order\<close>

record 't pre_order_item =
  pi_node :: 't
  pi_parent :: "'t option"
  pi_index :: nat
  n_children_yielded :: nat
  is_complete :: bool

definition pre_order_item_initial :: "('t, 'n) tree_ops \<Rightarrow> 't \<Rightarrow> 't option \<Rightarrow> 't pre_order_item" where
  "pre_order_item_initial T node parent =
     \<lparr>pi_node = node, pi_parent = parent, pi_index = 0, n_children_yielded = 0,
      is_complete = (n_children T node = 0)\<rparr>"

definition pre_order_item_increment :: "'t pre_order_item \<Rightarrow> nat \<Rightarrow> 't pre_order_item" where
  "pre_order_item_increment item n =
     \<lparr>pi_node = pi_node item, pi_parent = pi_parent item, pi_index = pi_index item,
      n_children_yielded = n_children_yielded item + 1, is_complete = (n_children_yielded item + 1 = n)\<rparr>"

text \<open>The state: the stack, the top first, and the next index.\<close>

definition verbose_next ::
    "('t, 'n) tree_ops \<Rightarrow> 't pre_order_item list \<times> nat \<Rightarrow>
     ('t pre_order_item \<times> 't pre_order_item list \<times> nat) option option" where
  "verbose_next T = (\<lambda>(stack, index).
     case stack of
       [] \<Rightarrow> Some None
     | item # rest \<Rightarrow>
         (let (item, index) =
                (if n_children_yielded item = 0 then (item\<lparr>pi_index := index\<rparr>, index + 1) else (item, index));
              n = n_children T (pi_node item)
          in if n_children_yielded item < n then
               (case nth_child T (pi_node item) (n_children_yielded item) of
                  None \<Rightarrow> None
                | Some child \<Rightarrow>
                    Some (Some (item,
                      pre_order_item_initial T child (Some (pi_node item))
                        # pre_order_item_increment item n # rest,
                      index)))
             else Some (Some (item, rest, index))))"

definition verbose_pre_order_iter :: "('t, 'n) tree_ops \<Rightarrow> 't \<Rightarrow> 't pre_order_item list option" where
  "verbose_pre_order_iter T t = drain (verbose_next T) ([pre_order_item_initial T t None], 0)"

subsection \<open>Post-order\<close>

record 't stack_item =
  si_elem :: 't
  si_processed :: bool
  si_child_indices :: "nat list"
  si_parent_stack_idx :: "nat option"

record 't post_order_item =
  po_node :: 't
  po_index :: nat
  po_child_indices :: "nat list"

definition unprocessed :: "'t \<Rightarrow> nat option \<Rightarrow> 't stack_item" where
  "unprocessed elem parent =
     \<lparr>si_elem = elem, si_processed = False, si_child_indices = [], si_parent_stack_idx = parent\<rparr>"

text \<open>The state: the next index and the stack, the top last.  \<open>self.next()\<close> is a recursive call.\<close>

partial_function (option) post_order_next ::
    "('t, 'n) tree_ops \<Rightarrow> nat \<times> 't stack_item list \<Rightarrow>
     ('t post_order_item \<times> nat \<times> 't stack_item list) option option" where
  "post_order_next T s =
     (case s of (index, stack) \<Rightarrow>
        if stack = [] then Some None
        else
          (let current = last stack;
               stack = butlast stack in
           if \<not> si_processed current then
             (case mapM (nth_child T (si_elem current)) (rev [0..<n_children T (si_elem current)]) of
                None \<Rightarrow> None
              | Some children \<Rightarrow>
                  post_order_next T
                    (index, stack @ current\<lparr>si_processed := True\<rparr>
                              # map (\<lambda>c. unprocessed c (Some (length stack))) children))
           else
             (let item = \<lparr>po_node = si_elem current, po_index = index, po_child_indices = si_child_indices current\<rparr> in
              case si_parent_stack_idx current of
                None \<Rightarrow> Some (Some (item, index + 1, stack))
              | Some idx \<Rightarrow>
                  if idx < length stack
                  then Some (Some (item, index + 1,
                         stack[idx := (stack ! idx)\<lparr>si_child_indices := si_child_indices (stack ! idx) @ [index]\<rparr>]))
                  else None)))"

declare post_order_next.simps [code]

definition post_order_iter :: "('t, 'n) tree_ops \<Rightarrow> 't \<Rightarrow> 't post_order_item list option" where
  "post_order_iter T t = drain (post_order_next T) (0, [unprocessed t None])"

text \<open>The adaptor \<open>Rtl\<close>, which reverses the children.\<close>

definition rtl :: "('t, 'n) tree_ops \<Rightarrow> ('t, 'n) tree_ops" where
  "rtl T =
     \<lparr>as_node = (\<lambda>t. case as_node T t of
          Nullary \<Rightarrow> Nullary
        | Unary a \<Rightarrow> Unary a
        | Binary a b \<Rightarrow> Binary b a
        | Ternary a b c \<Rightarrow> Ternary c b a
        | Nary children \<Rightarrow> Nary children),
      nary_len = nary_len T,
      nary_index = (\<lambda>children idx. nary_index T children (nary_len T children - idx - 1))\<rparr>"

definition rtl_post_order_next ::
    "('t, 'n) tree_ops \<Rightarrow> nat \<times> 't stack_item list \<Rightarrow>
     ('t post_order_item \<times> nat \<times> 't stack_item list) option option" where
  "rtl_post_order_next T s =
     map_option (map_option (\<lambda>(item, s'). (item\<lparr>po_child_indices := rev (po_child_indices item)\<rparr>, s')))
       (post_order_next (rtl T) s)"

definition rtl_post_order_iter :: "('t, 'n) tree_ops \<Rightarrow> 't \<Rightarrow> 't post_order_item list option" where
  "rtl_post_order_iter T t = drain (rtl_post_order_next T) (0, [unprocessed t None])"

lemma map_nth_rev: "map (\<lambda>i. f (n - Suc i)) [0..<n] = rev (map f [0..<n])"
  by (rule nth_equalityI) (auto simp: rev_nth)

lemma tree_children_rtl [simp]: "tree_children (rtl T) t = rev (tree_children T t)"
  by (auto simp: tree_children_def rtl_def map_nth_rev [where f = "nary_index T _"] split: tree_node.splits)

lemma mapM_nth_child: "mapM (nth_child T t) (rev [0..<length (tree_children T t)]) = Some (rev (tree_children T t))"
proof -
  have "mapM (nth_child T t) is = Some (map (\<lambda>i. tree_children T t ! i) is)"
    if "\<forall>i \<in> set is. i < length (tree_children T t)" for "is"
    using that by (induction "is") (auto simp: nth_child_nth)
  from this [of "rev [0..<length (tree_children T t)]"] show ?thesis
    by (simp add: rev_map [symmetric] map_nth)
qed


subsection \<open>Loops over the right-to-left post-order\<close>

text \<open>The library transforms a tree by a loop over \<open>rtl_post_order_iter\<close> that pops the results of
  the children of a node from a stack and pushes the result of the node.  The step takes the stack (the
  top first), may panic, and may return an error, which ends the loop.\<close>

fun stack_loop :: "('t \<Rightarrow> 'b list \<Rightarrow> ('e + 'b list) option) \<Rightarrow> 't list \<Rightarrow> 'b list \<Rightarrow> ('e + 'b list) option" where
  "stack_loop f [] stack = Some (Inr stack)"
| "stack_loop f (t # ts) stack =
     (case f t stack of
        None \<Rightarrow> None
      | Some (Inl e) \<Rightarrow> Some (Inl e)
      | Some (Inr stack') \<Rightarrow> stack_loop f ts stack')"

text \<open>The loop over a tree, and the \<open>pop().unwrap()\<close> that follows it.\<close>

definition rtl_loop :: "('t, 'n) tree_ops \<Rightarrow> ('t \<Rightarrow> 'b list \<Rightarrow> ('e + 'b list) option) \<Rightarrow> 't \<Rightarrow> ('e + 'b) option" where
  "rtl_loop T f t =
     (case rtl_post_order_iter T t of
        None \<Rightarrow> None
      | Some items \<Rightarrow>
          (case stack_loop f (map po_node items) [] of
             None \<Rightarrow> None
           | Some (Inl e) \<Rightarrow> Some (Inl e)
           | Some (Inr []) \<Rightarrow> None
           | Some (Inr (b # _)) \<Rightarrow> Some (Inr b)))"

text \<open>The same for the loops that assert before they pop that one result is left:
  \<open>assert_eq!(stack.len(), 1)\<close>.\<close>

definition rtl_loop_one :: "('t, 'n) tree_ops \<Rightarrow> ('t \<Rightarrow> 'b list \<Rightarrow> ('e + 'b list) option) \<Rightarrow> 't \<Rightarrow> ('e + 'b) option" where
  "rtl_loop_one T f t =
     (case rtl_post_order_iter T t of
        None \<Rightarrow> None
      | Some items \<Rightarrow>
          (case stack_loop f (map po_node items) [] of
             None \<Rightarrow> None
           | Some (Inl e) \<Rightarrow> Some (Inl e)
           | Some (Inr stack) \<Rightarrow> if length stack = 1 then Some (Inr (hd stack)) else None))"

lemma stack_loop_append:
  "stack_loop f (ts @ us) stack =
     (case stack_loop f ts stack of
        None \<Rightarrow> None
      | Some (Inl e) \<Rightarrow> Some (Inl e)
      | Some (Inr stack') \<Rightarrow> stack_loop f us stack')"
  by (induction ts arbitrary: stack) (auto split: option.splits sum.splits)

subsection \<open>Rose trees\<close>

datatype 'a rose = Rose (root: 'a) (kids: "'a rose list")

fun rose_size :: "'a rose \<Rightarrow> nat" where
  "rose_size (Rose a ts) = Suc (sum_list (map rose_size ts))"

fun pre_nodes :: "'a rose \<Rightarrow> 'a list" where
  "pre_nodes (Rose a ts) = a # concat (map pre_nodes ts)"

fun mirror :: "'a rose \<Rightarrow> 'a rose" where
  "mirror (Rose a ts) = Rose a (rev (map mirror ts))"

fun rtl_nodes :: "'a rose \<Rightarrow> 'a list" where
  "rtl_nodes (Rose a ts) = concat (map rtl_nodes (rev ts)) @ [a]"

text \<open>What the post-order iterator yields, from the index \<open>i\<close>; with the children's indices.\<close>

fun post_items :: "nat \<Rightarrow> 'a rose \<Rightarrow> 'a post_order_item list"
  and post_forest :: "nat \<Rightarrow> 'a rose list \<Rightarrow> 'a post_order_item list \<times> nat list" where
  "post_items i (Rose a ts) =
     (case post_forest i ts of (items, idxs) \<Rightarrow>
        items @ [\<lparr>po_node = a, po_index = i + length items, po_child_indices = idxs\<rparr>])"
| "post_forest i [] = ([], [])"
| "post_forest i (t # ts) =
     (let xs = post_items i t; (ys, idxs) = post_forest (i + length xs) ts
      in (xs @ ys, (i + length xs - 1) # idxs))"

text \<open>What the right-to-left post-order iterator yields: the last child is visited first; the indices of the
  children are listed from the first child to the last.\<close>

fun rtl_items :: "nat \<Rightarrow> 'a rose \<Rightarrow> 'a post_order_item list"
  and rtl_forest :: "nat \<Rightarrow> 'a rose list \<Rightarrow> 'a post_order_item list \<times> nat list" where
  "rtl_items i (Rose a ts) =
     (case rtl_forest i ts of (items, idxs) \<Rightarrow>
        items @ [\<lparr>po_node = a, po_index = i + length items, po_child_indices = idxs\<rparr>])"
| "rtl_forest i [] = ([], [])"
| "rtl_forest i (t # ts) =
     (let (ys, idxs) = rtl_forest i ts; xs = rtl_items (i + length ys) t
      in (ys @ xs, (i + length ys + length xs - 1) # idxs))"

text \<open>What the verbose iterator yields: a node before its first child and again after each child.\<close>

definition verbose_item :: "'a \<Rightarrow> 'a option \<Rightarrow> nat \<Rightarrow> nat \<Rightarrow> nat \<Rightarrow> 'a pre_order_item" where
  "verbose_item a p i m n =
     \<lparr>pi_node = a, pi_parent = p, pi_index = i, n_children_yielded = m, is_complete = (m = n)\<rparr>"

fun verbose_items :: "nat \<Rightarrow> 'a option \<Rightarrow> 'a rose \<Rightarrow> 'a pre_order_item list"
  and verbose_kids ::
    "'a \<Rightarrow> 'a option \<Rightarrow> nat \<Rightarrow> nat \<Rightarrow> nat \<Rightarrow> nat \<Rightarrow> 'a rose list \<Rightarrow> 'a pre_order_item list" where
  "verbose_items j p (Rose a ts) = verbose_kids a p j 0 (length ts) (Suc j) ts"
| "verbose_kids a p i m n j [] = [verbose_item a p i m n]"
| "verbose_kids a p i m n j (t # ts) =
     verbose_item a p i m n # verbose_items j (Some a) t @ verbose_kids a p i (Suc m) n (j + rose_size t) ts"

text \<open>A fold over the tree that may fail; the last child is visited first.\<close>

fun rose_fold :: "('a \<Rightarrow> 'b list \<Rightarrow> 'e + 'b) \<Rightarrow> 'a rose \<Rightarrow> 'e + 'b"
  and rose_folds :: "('a \<Rightarrow> 'b list \<Rightarrow> 'e + 'b) \<Rightarrow> 'a rose list \<Rightarrow> 'e + 'b list" where
  "rose_fold g (Rose a ts) = (case rose_folds g ts of Inl e \<Rightarrow> Inl e | Inr bs \<Rightarrow> g a bs)"
| "rose_folds g [] = Inr []"
| "rose_folds g (t # ts) =
     (case rose_folds g ts of
        Inl e \<Rightarrow> Inl e
      | Inr bs \<Rightarrow> (case rose_fold g t of Inl e \<Rightarrow> Inl e | Inr b \<Rightarrow> Inr (b # bs)))"

lemma rose_folds_length: "rose_folds g ts = Inr bs \<Longrightarrow> length bs = length ts"
  by (induction ts arbitrary: bs) (auto split: sum.splits)

lemma length_post_items:
  fixes r :: "'a rose" and rs :: "'a rose list"
  shows "length (post_items i r) = rose_size r"
    and "length (fst (post_forest i rs)) = sum_list (map rose_size rs)"
  by (induction i r and i rs rule: post_items_post_forest.induct) (auto simp: Let_def split: prod.splits)

lemma length_post_forest: "post_forest i rs = (items, idxs) \<Longrightarrow> length items = sum_list (map rose_size rs)"
  using length_post_items(2) [of i rs] by simp

lemma rose_size_mirror [simp]: "rose_size (mirror r) = rose_size r"
  by (induction r) (auto simp: rev_map [symmetric] sum_list_rev comp_def cong: map_cong)

text \<open>Right to left is the post-order of the mirrored tree, with the indices of the children reversed.\<close>

definition reverse_indices :: "'a post_order_item \<Rightarrow> 'a post_order_item" where
  "reverse_indices item = item\<lparr>po_child_indices := rev (po_child_indices item)\<rparr>"

lemma post_forest_snoc:
  "post_forest i (rs @ [r]) =
     (let (xs, idxs) = post_forest i rs; ys = post_items (i + length xs) r
      in (xs @ ys, idxs @ [i + length xs + length ys - 1]))"
  by (induction rs arbitrary: i) (auto simp: Let_def add.assoc split: prod.splits)

lemma rtl_items_mirror:
  fixes r :: "'a rose" and rs :: "'a rose list"
  shows "rtl_items i r = map reverse_indices (post_items i (mirror r))"
    and "rtl_forest i rs = map_prod (map reverse_indices) rev (post_forest i (rev (map mirror rs)))"
  by (induction i r and i rs rule: rtl_items_rtl_forest.induct)
    (auto simp: reverse_indices_def post_forest_snoc Let_def split: prod.splits)

text \<open>The nodes of the post-order do not depend on the first index.\<close>

fun post_nodes :: "'a rose \<Rightarrow> 'a list" where
  "post_nodes (Rose a ts) = concat (map post_nodes ts) @ [a]"

lemma post_nodes_items:
  fixes r :: "'a rose" and rs :: "'a rose list"
  shows "map po_node (post_items i r) = post_nodes r"
    and "map po_node (fst (post_forest i rs)) = concat (map post_nodes rs)"
  by (induction i r and i rs rule: post_items_post_forest.induct) (auto simp: Let_def split: prod.splits)

lemma post_nodes_mirror: "post_nodes (mirror r) = rtl_nodes r"
  by (induction r) (auto simp: rev_map [symmetric] comp_def intro!: arg_cong [where f = concat])


subsection \<open>The interface\<close>

definition prepend :: "'a list \<Rightarrow> 'a list option \<Rightarrow> 'a list option" where
  "prepend xs m = map_option ((@) xs) m"

lemma prepend_simps [simp]:
  "prepend [] m = m" "prepend xs (Some ys) = Some (xs @ ys)" "prepend xs (prepend ys m) = prepend (xs @ ys) m"
  by (cases m, auto simp: prepend_def)+

lemma drain_step: "N s = Some (Some (x, s')) \<Longrightarrow> drain N s = prepend [x] (drain N s')"
  by (subst drain.simps) (cases "drain N s'", auto simp: prepend_def)

lemma drain_end: "N s = Some None \<Longrightarrow> drain N s = Some []"
  by (subst drain.simps) simp

lemma drain_same: "N s = N s' \<Longrightarrow> drain N s = drain N s'"
  by (subst (1 2) drain.simps) simp

lemma drain_map:
  assumes "drain N s = Some xs"
    and N': "\<And>s. N' s = map_option (map_option (\<lambda>(x, s'). (f x, s'))) (N s)"
  shows "drain N' s = Some (map f xs)"
  using assms(1)
proof (induction xs arbitrary: s)
  case Nil
  then show ?case
    by (subst drain.simps, subst (asm) drain.simps)
      (auto simp: N' bind_eq_Some_conv split: option.splits prod.splits)
next
  case (Cons x xs)
  then obtain s' where "N s = Some (Some (x, s'))" "drain N s' = Some xs"
    by (subst (asm) drain.simps) (auto simp: bind_eq_Some_conv split: option.splits prod.splits)
  with Cons.IH show ?case by (simp add: drain_step N')
qed

definition note_child :: "nat option \<Rightarrow> nat \<Rightarrow> 't stack_item list \<Rightarrow> 't stack_item list" where
  "note_child p i stack =
     (case p of
        None \<Rightarrow> stack
      | Some idx \<Rightarrow> stack[idx := (stack ! idx)\<lparr>si_child_indices := si_child_indices (stack ! idx) @ [i]\<rparr>])"

definition opened :: "'t \<Rightarrow> nat option \<Rightarrow> nat list \<Rightarrow> 't stack_item" where
  "opened t p idxs = \<lparr>si_elem = t, si_processed = True, si_child_indices = idxs, si_parent_stack_idx = p\<rparr>"

lemma note_child_last [simp]:
  "note_child (Some (length st)) i (st @ opened t p idxs # us) = st @ opened t p (idxs @ [i]) # us"
  by (simp add: note_child_def opened_def)

lemma post_order_next_opened:
  assumes "\<And>idx. p = Some idx \<Longrightarrow> idx < length st"
  shows "post_order_next T (i, st @ [opened t p idxs]) =
     Some (Some (\<lparr>po_node = t, po_index = i, po_child_indices = idxs\<rparr>, Suc i, note_child p i st))"
  using assms by (subst post_order_next.simps) (auto simp: opened_def note_child_def split: option.splits)

lemma post_order_next_unprocessed:
  "post_order_next T (i, st @ [unprocessed t p]) =
   post_order_next T (i, st @ opened t p [] # map (\<lambda>c. unprocessed c (Some (length st))) (rev (tree_children T t)))"
  by (subst post_order_next.simps) (simp add: unprocessed_def opened_def mapM_nth_child)

locale tree_like =
  fixes T :: "('t, 'n) tree_ops" and rose_of :: "'t \<Rightarrow> 't rose"
  assumes rose_of: "rose_of t = Rose t (map rose_of (tree_children T t))"
begin

lemma root_rose_of [simp]: "root (rose_of t) = t" "kids (rose_of t) = map rose_of (tree_children T t)"
  using arg_cong [OF rose_of, of root] arg_cong [OF rose_of, of kids] by (simp_all only: rose.sel)

lemma rose_size_of: "rose_size (rose_of t) = Suc (sum_list (map (rose_size \<circ> rose_of) (tree_children T t)))"
  using arg_cong [OF rose_of [of t], of rose_size] by simp

text \<open>Trees are finite, so what holds of a node when it holds of its children holds of every node.\<close>

lemma tree_induct [case_names Node]:
  assumes "\<And>t. (\<And>c. c \<in> set (tree_children T t) \<Longrightarrow> P c) \<Longrightarrow> P t"
  shows "P t"
proof -
  have "P t" if "rose_of t = r" for r t
    using that
  proof (induction r arbitrary: t)
    case (Rose a ts)
    have ts: "ts = map rose_of (tree_children T t)" using arg_cong [OF Rose.prems, of kids] by simp
    show ?case
    proof (rule assms)
      fix c
      assume "c \<in> set (tree_children T t)"
      then have "rose_of c \<in> set ts" using ts by simp
      then show "P c" by (rule Rose.IH) simp
    qed
  qed
  then show ?thesis by simp
qed

lemma drain_pre_order:
  "drain (\<lambda>s. Some (pre_order_next T s)) st = Some (concat (map (pre_nodes \<circ> rose_of) st))"
proof (induction "sum_list (map (rose_size \<circ> rose_of) st)" arbitrary: st rule: less_induct)
  case less
  show ?case
  proof (cases st)
    case Nil
    then show ?thesis by (simp add: drain_end pre_order_next_def)
  next
    case (Cons t rest)
    have "drain (\<lambda>s. Some (pre_order_next T s)) (tree_children T t @ rest)
      = Some (concat (map (pre_nodes \<circ> rose_of) (tree_children T t @ rest)))"
      using Cons by (intro less) (simp add: rose_size_of)
    moreover have "pre_nodes (rose_of t) = t # concat (map (pre_nodes \<circ> rose_of) (tree_children T t))"
      by (subst rose_of) simp
    ultimately show ?thesis using Cons by (simp add: drain_step pre_order_next_Cons)
  qed
qed

lemma pre_order_iter_nodes: "pre_order_iter T t = Some (pre_nodes (rose_of t))"
  by (simp add: pre_order_iter_def drain_pre_order)

lemma verbose_next_item:
  assumes "(m = 0 \<and> item = pre_order_item_initial T t p \<and> i = j \<and> j' = Suc j)
      \<or> (0 < m \<and> item = verbose_item t p i m (length (tree_children T t)) \<and> j' = j)"
  shows "verbose_next T (item # rest, j) =
     Some (Some (verbose_item t p i m (length (tree_children T t)),
       if m < length (tree_children T t)
       then pre_order_item_initial T (tree_children T t ! m) (Some t)
              # verbose_item t p i (Suc m) (length (tree_children T t)) # rest
       else rest, j'))"
  using assms
  by (auto simp: verbose_next_def verbose_item_def pre_order_item_initial_def pre_order_item_increment_def
      nth_child_nth)

lemma drain_verbose:
  "drain (verbose_next T) (pre_order_item_initial T t p # rest, j) =
     prepend (verbose_items j p (rose_of t)) (drain (verbose_next T) (rest, j + rose_size (rose_of t)))"
proof (induction t arbitrary: p rest j rule: tree_induct)
  case (Node t)
  let ?n = "length (tree_children T t)"
  have kids: "drain (verbose_next T) (item # rest, j) =
     prepend (verbose_kids t p i m ?n j' (map rose_of cs))
       (drain (verbose_next T) (rest, j' + sum_list (map (rose_size \<circ> rose_of) cs)))"
    if "drop m (tree_children T t) = cs" "m \<le> ?n"
      and "(m = 0 \<and> item = pre_order_item_initial T t p \<and> i = j \<and> j' = Suc j)
      \<or> (0 < m \<and> item = verbose_item t p i m ?n \<and> j' = j)"
    for cs m item i j j'
    using that
  proof (induction cs arbitrary: m item j j')
    case Nil
    then show ?case using verbose_next_item [OF Nil(3), of rest] by (simp add: drain_step)
  next
    case (Cons c cs)
    then have m: "m < ?n" "tree_children T t ! m = c" "drop (Suc m) (tree_children T t) = cs"
      by (auto simp: Cons_nth_drop_Suc [symmetric] intro: le_neq_implies_less)
        (metis Cons_nth_drop_Suc Cons.prems(1,2) drop_all le_neq_implies_less list.inject list.simps(3) order_refl)+
    then have "c \<in> set (tree_children T t)" by auto
    then show ?case
      using Cons.IH [of "Suc m" "verbose_item t p i (Suc m) ?n" "j' + rose_size (rose_of c)"] m Cons.prems
      by (simp add: drain_step verbose_next_item [OF Cons.prems(3)] Node.IH add.assoc)
  qed
  have "verbose_items j p (rose_of t) = verbose_kids t p j 0 ?n (Suc j) (map rose_of (tree_children T t))"
    using arg_cong [OF rose_of, of "verbose_items j p"] by simp
  then show ?case
    using kids [of 0 "tree_children T t" "pre_order_item_initial T t p" j j "Suc j"]
    by (simp add: rose_size_of)
qed

lemma verbose_pre_order_iter_items: "verbose_pre_order_iter T t = Some (verbose_items 0 None (rose_of t))"
proof -
  have "verbose_next T ([], n) = Some None" for n by (simp add: verbose_next_def)
  then show ?thesis by (simp add: verbose_pre_order_iter_def drain_verbose drain_end)
qed

lemma drain_post_order:
  assumes "\<And>idx. p = Some idx \<Longrightarrow> idx < length st"
  shows "drain (post_order_next T) (i, st @ [unprocessed t p]) =
     prepend (post_items i (rose_of t))
       (drain (post_order_next T) (i + rose_size (rose_of t), note_child p (i + rose_size (rose_of t) - 1) st))"
  using assms
proof (induction t arbitrary: i p st rule: tree_induct)
  case (Node t)
  have forest: "drain (post_order_next T)
       (i, st @ opened t p idxs # map (\<lambda>c. unprocessed c (Some (length st))) (rev cs)) =
     prepend (fst (post_forest i (map rose_of cs)))
       (drain (post_order_next T)
         (i + sum_list (map (rose_size \<circ> rose_of) cs),
          st @ [opened t p (idxs @ snd (post_forest i (map rose_of cs)))]))"
    if "set cs \<subseteq> set (tree_children T t)" for cs i idxs
    using that
  proof (induction cs arbitrary: i idxs)
    case Nil
    then show ?case by simp
  next
    case (Cons c cs)
    show ?case
      using Node.IH [of c "Some (length st)"
          "st @ opened t p idxs # map (\<lambda>c. unprocessed c (Some (length st))) (rev cs)" i] Cons
      by (auto simp: Let_def length_post_items ac_simps split: prod.splits)
  qed
  obtain items idxs where f: "post_forest i (map rose_of (tree_children T t)) = (items, idxs)" by fastforce
  have len: "length items = sum_list (map (rose_size \<circ> rose_of) (tree_children T t))"
    using length_post_forest [OF f] by simp
  have t: "post_items i (rose_of t) = items @ [\<lparr>po_node = t, po_index = i + length items, po_child_indices = idxs\<rparr>]"
    "rose_size (rose_of t) = Suc (length items)"
    by (subst rose_of, simp add: f len)+
  have "drain (post_order_next T) (i, st @ [unprocessed t p]) =
      prepend items (drain (post_order_next T) (i + length items, st @ [opened t p idxs]))"
    using forest [of "tree_children T t" i "[]"] f len
    by (simp add: drain_same [OF post_order_next_unprocessed])
  also have "\<dots> = prepend (items @ [\<lparr>po_node = t, po_index = i + length items, po_child_indices = idxs\<rparr>])
     (drain (post_order_next T) (Suc (i + length items), note_child p (i + length items) st))"
    using Node.prems by (simp add: drain_step post_order_next_opened)
  finally show ?case by (simp add: t)
qed

lemma post_order_iter_items: "post_order_iter T t = Some (post_items 0 (rose_of t))"
proof -
  have "post_order_next T (n, []) = Some None" for n by (simp add: post_order_next.simps)
  then show ?thesis
    using drain_post_order [of None "[]" 0 t] by (simp add: post_order_iter_def note_child_def drain_end)
qed

lemma mirrored: "tree_like (rtl T) (mirror \<circ> rose_of)"
proof
  fix t
  show "(mirror \<circ> rose_of) t = Rose t (map (mirror \<circ> rose_of) (tree_children (rtl T) t))"
    by (simp, subst rose_of) (simp add: rev_map)
qed

lemma rtl_post_order_iter_items:
  "rtl_post_order_iter T t =
     Some (map (\<lambda>item. item\<lparr>po_child_indices := rev (po_child_indices item)\<rparr>) (post_items 0 (mirror (rose_of t))))"
  unfolding rtl_post_order_iter_def
  by (rule drain_map [OF tree_like.post_order_iter_items [OF mirrored, unfolded post_order_iter_def comp_apply]])
    (simp add: rtl_post_order_next_def)

lemma rtl_post_order_iter_value: "rtl_post_order_iter T t = Some (rtl_items 0 (rose_of t))"
  by (simp add: rtl_post_order_iter_items rtl_items_mirror reverse_indices_def [abs_def])

lemma rtl_nodes_iter:
  "map_option (map po_node) (rtl_post_order_iter T t) = Some (rtl_nodes (rose_of t))"
  by (simp add: rtl_post_order_iter_items comp_def post_nodes_items post_nodes_mirror)

text \<open>The step only has to be right at the nodes of the tree: at those of a set that is closed under
  children.\<close>

lemma stack_loop_fold:
  assumes step: "\<And>t bs rest. P t \<Longrightarrow> length bs = length (tree_children T t) \<Longrightarrow>
     f t (bs @ rest) = Some (map_sum id (\<lambda>b. b # rest) (g t bs))"
    and closed: "\<And>t c. P t \<Longrightarrow> c \<in> set (tree_children T t) \<Longrightarrow> P c"
  shows "P t \<Longrightarrow>
     stack_loop f (rtl_nodes (rose_of t)) stack = Some (map_sum id (\<lambda>b. b # stack) (rose_fold g (rose_of t)))"
proof (induction t arbitrary: stack rule: tree_induct)
  case (Node t)
  have "stack_loop f (concat (map (rtl_nodes \<circ> rose_of) (rev cs))) stack =
      Some (map_sum id (\<lambda>bs. bs @ stack) (rose_folds g (map rose_of cs)))"
    if "set cs \<subseteq> set (tree_children T t)" for cs stack
    using that closed [OF Node.prems]
    by (induction cs arbitrary: stack) (auto simp: stack_loop_append Node.IH split: sum.splits)
  from this [of "tree_children T t"] show ?case
    by (subst (1 2) rose_of)
      (auto simp: stack_loop_append rev_map [symmetric] step [OF Node.prems] dest!: rose_folds_length
        split: sum.splits)
qed

lemma rtl_loop_fold_on:
  assumes "\<And>t bs rest. P t \<Longrightarrow> length bs = length (tree_children T t) \<Longrightarrow>
     f t (bs @ rest) = Some (map_sum id (\<lambda>b. b # rest) (g t bs))"
    and "\<And>t c. P t \<Longrightarrow> c \<in> set (tree_children T t) \<Longrightarrow> P c" "P t"
  shows "rtl_loop T f t = Some (rose_fold g (rose_of t))"
  using rtl_nodes_iter [where t = t] stack_loop_fold [where f = f and g = g and P = P and t = t and stack = "[]"] assms
  by (cases "rose_fold g (rose_of t)") (auto simp: rtl_loop_def split: option.splits)

lemma rtl_loop_one_fold:
  assumes "\<And>t bs rest. length bs = length (tree_children T t) \<Longrightarrow>
     f t (bs @ rest) = Some (map_sum id (\<lambda>b. b # rest) (g t bs))"
  shows "rtl_loop_one T f t = Some (rose_fold g (rose_of t))"
  using rtl_nodes_iter [where t = t] stack_loop_fold [where f = f and g = g and P = "\<lambda>_. True" and t = t and stack = "[]"] assms
  by (cases "rose_fold g (rose_of t)") (auto simp: rtl_loop_one_def split: option.splits)

lemma rtl_loop_fold:
  assumes "\<And>t bs rest. length bs = length (tree_children T t) \<Longrightarrow>
     f t (bs @ rest) = Some (map_sum id (\<lambda>b. b # rest) (g t bs))"
  shows "rtl_loop T f t = Some (rose_fold g (rose_of t))"
  by (rule rtl_loop_fold_on [where P = "\<lambda>_. True"]) (simp_all add: assms)

end

end
