(* ===== verification/MsTree.thy ===== *)
theory MsTree
  imports Trees Encode
begin

section \<open>Miniscripts as trees\<close>

text \<open>
  The instance of \<open>TreeLike\<close> for miniscripts (\<^verbatim>\<open>iter/mod.rs\<close>), the two iterators of
  \<^verbatim>\<open>miniscript/iter.rs\<close>, and the loops over \<open>rtl_post_order_iter\<close> of
  \<^verbatim>\<open>miniscript/mod.rs\<close> that rebuild a miniscript: \<open>clone\<close>, \<open>translate_pk\<close> and
  \<open>substitute_raw_pkh\<close>.  All the iterators visit the nodes of \<open>pre_order\<close>; the rebuilding loops compute
  a fold over the nodes and never panic.
\<close>

subsection \<open>The tree\<close>

fun ms_as_node :: "('pk, 'c) terminal \<Rightarrow> ('c, 'c list) tree_node" where
  "ms_as_node (InscribePre _ sub) = Unary sub"
| "ms_as_node (InscribePost _ sub) = Unary sub"
| "ms_as_node (Alt sub) = Unary sub"
| "ms_as_node (Swap sub) = Unary sub"
| "ms_as_node (Check sub) = Unary sub"
| "ms_as_node (DupIf sub) = Unary sub"
| "ms_as_node (Verify sub) = Unary sub"
| "ms_as_node (NonZero sub) = Unary sub"
| "ms_as_node (ZeroNotEqual sub) = Unary sub"
| "ms_as_node (AndV left right) = Binary left right"
| "ms_as_node (AndB left right) = Binary left right"
| "ms_as_node (OrB left right) = Binary left right"
| "ms_as_node (OrD left right) = Binary left right"
| "ms_as_node (OrC left right) = Binary left right"
| "ms_as_node (OrI left right) = Binary left right"
| "ms_as_node (AndOr a b c) = Ternary a b c"
| "ms_as_node (Thresh thresh) = Nary (thr_data thresh)"
| "ms_as_node _ = Nullary"

definition ms_tree :: "('pk miniscript, 'pk miniscript list) tree_ops" where
  "ms_tree = \<lparr>as_node = (\<lambda>ms. ms_as_node (ms_node ms)), nary_len = length, nary_index = (!)\<rparr>"

fun ms_rose :: "'pk miniscript \<Rightarrow> 'pk miniscript rose" where
  "ms_rose (Miniscript n ty ext) = Rose (Miniscript n ty ext) (map ms_rose (children n))"

lemma tree_children_ms [simp]: "tree_children ms_tree ms = children (ms_node ms)"
  by (cases "ms_node ms") (simp_all add: tree_children_def ms_tree_def map_nth)

interpretation ms: tree_like ms_tree ms_rose
  by unfold_locales (case_tac t, simp)

lemma pre_nodes_ms [simp]: "pre_nodes (ms_rose ms) = pre_order ms"
  by (induction ms rule: ms_rose.induct) (simp add: comp_def cong: map_cong)

lemma pre_order_iter_ms: "pre_order_iter ms_tree ms = Some (pre_order ms)"
  by (simp add: ms.pre_order_iter_nodes)

subsection \<open>The iterator over nodes\<close>

definition branches :: "'pk miniscript \<Rightarrow> 'pk miniscript list" where
  "branches ms =
     (case ms_node ms of
        InscribePre _ node \<Rightarrow> [node] | InscribePost _ node \<Rightarrow> [node]
      | Alt node \<Rightarrow> [node] | Swap node \<Rightarrow> [node] | Check node \<Rightarrow> [node] | DupIf node \<Rightarrow> [node]
      | Verify node \<Rightarrow> [node] | NonZero node \<Rightarrow> [node] | ZeroNotEqual node \<Rightarrow> [node]
      | AndV node1 node2 \<Rightarrow> [node1, node2] | AndB node1 node2 \<Rightarrow> [node1, node2]
      | OrB node1 node2 \<Rightarrow> [node1, node2] | OrD node1 node2 \<Rightarrow> [node1, node2]
      | OrC node1 node2 \<Rightarrow> [node1, node2] | OrI node1 node2 \<Rightarrow> [node1, node2]
      | AndOr node1 node2 node3 \<Rightarrow> [node1, node2, node3]
      | Thresh thresh \<Rightarrow> thr_data thresh
      | _ \<Rightarrow> [])"

fun get_nth_child :: "nat \<Rightarrow> ('pk, 'c) terminal \<Rightarrow> 'c option" where
  "get_nth_child n (InscribePre _ node) = (if n = 0 then Some node else None)"
| "get_nth_child n (InscribePost _ node) = (if n = 0 then Some node else None)"
| "get_nth_child n (Alt node) = (if n = 0 then Some node else None)"
| "get_nth_child n (Swap node) = (if n = 0 then Some node else None)"
| "get_nth_child n (Check node) = (if n = 0 then Some node else None)"
| "get_nth_child n (DupIf node) = (if n = 0 then Some node else None)"
| "get_nth_child n (Verify node) = (if n = 0 then Some node else None)"
| "get_nth_child n (NonZero node) = (if n = 0 then Some node else None)"
| "get_nth_child n (ZeroNotEqual node) = (if n = 0 then Some node else None)"
| "get_nth_child n (AndV a b) = (if n = 0 then Some a else if n = 1 then Some b else None)"
| "get_nth_child n (AndB a b) = (if n = 0 then Some a else if n = 1 then Some b else None)"
| "get_nth_child n (OrB a b) = (if n = 0 then Some a else if n = 1 then Some b else None)"
| "get_nth_child n (OrD a b) = (if n = 0 then Some a else if n = 1 then Some b else None)"
| "get_nth_child n (OrC a b) = (if n = 0 then Some a else if n = 1 then Some b else None)"
| "get_nth_child n (OrI a b) = (if n = 0 then Some a else if n = 1 then Some b else None)"
| "get_nth_child n (AndOr a b c) =
     (if n = 0 then Some a else if n = 1 then Some b else if n = 2 then Some c else None)"
| "get_nth_child n (Thresh thresh) = (if n < length (thr_data thresh) then Some (thr_data thresh ! n) else None)"
| "get_nth_child n _ = None"

fun get_nth_pk :: "('pk, 'c) terminal \<Rightarrow> nat \<Rightarrow> 'pk option" where
  "get_nth_pk (PkK key) n = (if n = 0 then Some key else None)"
| "get_nth_pk (PkH key) n = (if n = 0 then Some key else None)"
| "get_nth_pk (Multi thresh) n = (if n < length (thr_data thresh) then Some (thr_data thresh ! n) else None)"
| "get_nth_pk (MultiA thresh) n = (if n < length (thr_data thresh) then Some (thr_data thresh ! n) else None)"
| "get_nth_pk _ n = None"

lemma branches_children: "branches ms = children (ms_node ms)"
  by (simp add: branches_def split: terminal.splits)

lemma get_nth_child_eq: "get_nth_child i n = (if i < length (children n) then Some (children n ! i) else None)"
  by (cases n) (auto simp: nth_Cons' less_Suc_eq numeral_2_eq_2)

lemma get_nth_pk_eq: "get_nth_pk n i = (if i < length (node_keys n) then Some (node_keys n ! i) else None)"
  by (cases n) auto

text \<open>The state of \<open>Iter\<close>: the next node, and the path of nodes with the index of the next branch (its
  last element first).  \<open>unwind_path\<close> is the loop that pops the path.\<close>

type_synonym 'pk ms_iter = "'pk miniscript option \<times> ('pk miniscript \<times> nat) list"

fun unwind_path :: "('pk miniscript \<times> nat) list \<Rightarrow> 'pk ms_iter" where
  "unwind_path [] = (None, [])"
| "unwind_path ((node, child) # path) =
     (case get_nth_child child (ms_node node) of
        None \<Rightarrow> unwind_path path
      | Some cur \<Rightarrow> (Some cur, (node, child + 1) # path))"

definition ms_iter_new :: "'pk miniscript \<Rightarrow> 'pk ms_iter" where
  "ms_iter_new ms = (Some ms, [])"

definition ms_iter_next :: "'pk ms_iter \<Rightarrow> 'pk miniscript option \<times> 'pk ms_iter" where
  "ms_iter_next s =
     (case s of (next, path) \<Rightarrow>
       (let (cur, path) = (if next = None then unwind_path path else (next, path)) in
        case cur of
          None \<Rightarrow> (None, (next, path))
        | Some node \<Rightarrow> (Some node, (get_nth_child 0 (ms_node node), (node, 1) # path))))"

definition ms_iter :: "'pk miniscript \<Rightarrow> 'pk miniscript list option" where
  "ms_iter ms =
     drain (\<lambda>s. Some (case ms_iter_next s of (None, _) \<Rightarrow> None | (Some x, s') \<Rightarrow> Some (x, s'))) (ms_iter_new ms)"

text \<open>What an iterator has still to visit.\<close>

definition pending :: "('pk miniscript \<times> nat) list \<Rightarrow> 'pk miniscript list" where
  "pending path = concat (map (\<lambda>(node, i). concat (map pre_order (drop i (children (ms_node node))))) path)"

fun remaining :: "'pk ms_iter \<Rightarrow> 'pk miniscript list" where
  "remaining (next, path) = (case next of None \<Rightarrow> [] | Some ms \<Rightarrow> pre_order ms) @ pending path"

lemma pending_simps [simp]:
  "pending [] = []"
  "pending ((node, i) # path) = concat (map pre_order (drop i (children (ms_node node)))) @ pending path"
  by (simp_all add: pending_def)

lemma pre_order_unfold: "pre_order ms = ms # concat (map pre_order (children (ms_node ms)))"
  by (cases ms) simp

lemma drop_step: "i < length xs \<Longrightarrow> drop i xs = xs ! i # drop (Suc i) xs"
  by (simp add: Cons_nth_drop_Suc)

lemma unwind_path_remaining:
  "remaining (unwind_path path) = pending path \<and> (fst (unwind_path path) = None \<longrightarrow> snd (unwind_path path) = [])"
  by (induction path rule: unwind_path.induct) (auto simp: get_nth_child_eq drop_step split: option.splits)

lemma ms_iter_next_remaining:
  "case ms_iter_next s of (None, s') \<Rightarrow> remaining s = [] \<and> remaining s' = []
    | (Some x, s') \<Rightarrow> remaining s = x # remaining s'"
proof -
  obtain nxt path where s: "s = (nxt, path)" by fastforce
  have visit: "pre_order node @ pending path'
      = node # remaining (get_nth_child 0 (ms_node node), (node, 1) # path')" for node path'
    by (subst pre_order_unfold) (cases "children (ms_node node)", auto simp: get_nth_child_eq)
  show ?thesis
    using unwind_path_remaining [of path] visit
    by (cases nxt; cases "unwind_path path"; cases "fst (unwind_path path)") (auto simp: ms_iter_next_def s)
qed

lemma drain_ms_iter:
  "drain (\<lambda>s. Some (case ms_iter_next s of (None, _) \<Rightarrow> None | (Some x, s') \<Rightarrow> Some (x, s'))) s = Some (remaining s)"
proof (induction "remaining s" arbitrary: s)
  case Nil
  then show ?case using ms_iter_next_remaining [of s] by (auto simp: drain_end split: prod.splits option.splits)
next
  case (Cons x xs)
  then obtain s' where "ms_iter_next s = (Some x, s')" "remaining s' = xs"
    using ms_iter_next_remaining [of s] by (auto split: prod.splits option.splits)
  with Cons show ?case by (simp add: drain_step)
qed

lemma ms_iter_nodes: "ms_iter ms = Some (pre_order ms)"
  by (simp add: ms_iter_def drain_ms_iter ms_iter_new_def)

subsection \<open>The iterator over keys\<close>

text \<open>The state of \<open>PkIter\<close>: the iterator over nodes, the current node and the index of its next
  key.\<close>

type_synonym 'pk pk_iter = "'pk ms_iter \<times> 'pk miniscript option \<times> nat"

definition pk_iter_new :: "'pk miniscript \<Rightarrow> 'pk pk_iter" where
  "pk_iter_new ms = (let (cur, it) = ms_iter_next (ms_iter_new ms) in (it, cur, 0))"

lemma ms_iter_next_shorter:
  "ms_iter_next it = (Some x, it') \<Longrightarrow> length (remaining it') < length (remaining it)"
  using ms_iter_next_remaining [of it] by simp

function pk_iter_next :: "'pk pk_iter \<Rightarrow> ('pk \<times> 'pk pk_iter) option" where
  "pk_iter_next (node_iter, None, key_index) = None"
| "pk_iter_next (node_iter, Some node, key_index) =
     (case get_nth_pk (ms_node node) key_index of
        None \<Rightarrow> (let (cur, node_iter') = ms_iter_next node_iter in pk_iter_next (node_iter', cur, 0))
      | Some pk \<Rightarrow> Some (pk, (node_iter, Some node, key_index + 1)))"
  by pat_completeness auto

termination
proof (relation "measure (\<lambda>(it, cur, _). length (remaining it) + (if cur = None then 0 else 1))")
  fix it :: "'a ms_iter" and node :: "'a miniscript" and i x cur it'
  assume "x = ms_iter_next it" "(cur, it') = x"
  then show "((it', cur, 0), (it, Some node, i))
      \<in> measure (\<lambda>(it, cur, _). length (remaining it) + (if cur = None then 0 else 1))"
    using ms_iter_next_remaining [of it] by (cases cur) auto
qed simp

definition iter_pk :: "'pk miniscript \<Rightarrow> 'pk list option" where
  "iter_pk ms = drain (\<lambda>s. Some (pk_iter_next s)) (pk_iter_new ms)"

fun remaining_keys :: "'pk pk_iter \<Rightarrow> 'pk list" where
  "remaining_keys (it, None, i) = []"
| "remaining_keys (it, Some node, i) =
     drop i (node_keys (ms_node node)) @ concat (map (node_keys \<circ> ms_node) (remaining it))"

lemma pk_iter_next_remaining:
  "case pk_iter_next s of None \<Rightarrow> remaining_keys s = []
    | Some (pk, s') \<Rightarrow> remaining_keys s = pk # remaining_keys s'"
proof (induction s rule: pk_iter_next.induct)
  case (2 it node i)
  show ?case
  proof (cases "i < length (node_keys (ms_node node))")
    case True
    then show ?thesis by (simp add: get_nth_pk_eq drop_step)
  next
    case False
    obtain cur it' where n: "ms_iter_next it = (cur, it')" by (cases "ms_iter_next it")
    with False have step: "pk_iter_next (it, Some node, i) = pk_iter_next (it', cur, 0)"
      by (simp add: get_nth_pk_eq)
    have rest: "remaining_keys (it, Some node, i) = remaining_keys (it', cur, 0)"
      using False ms_iter_next_remaining [of it] n by (cases cur) auto
    have "case pk_iter_next (it', cur, 0) of None \<Rightarrow> remaining_keys (it', cur, 0) = []
      | Some (pk, s') \<Rightarrow> remaining_keys (it', cur, 0) = pk # remaining_keys s'"
      using False n by (intro 2) (simp_all add: get_nth_pk_eq)
    then show ?thesis unfolding step rest .
  qed
qed simp

lemma drain_iter_pk: "drain (\<lambda>s. Some (pk_iter_next s)) s = Some (remaining_keys s)"
proof (induction "remaining_keys s" arbitrary: s)
  case Nil
  then show ?case using pk_iter_next_remaining [of s] by (auto simp: drain_end split: option.splits)
next
  case (Cons pk pks)
  then obtain s' where "pk_iter_next s = Some (pk, s')" "remaining_keys s' = pks"
    using pk_iter_next_remaining [of s] by (auto split: option.splits)
  with Cons show ?case by (simp add: drain_step)
qed

lemma iter_pk_keys: "iter_pk ms = Some (all_keys ms)"
proof -
  obtain it where "ms_iter_next (ms_iter_new ms) = (Some ms, it)" "pre_order ms = ms # remaining it"
    using ms_iter_next_remaining [of "ms_iter_new ms"]
    by (cases "ms_iter_next (ms_iter_new ms)") (auto simp: ms_iter_new_def ms_iter_next_def)
  then show ?thesis by (simp add: iter_pk_def drain_iter_pk pk_iter_new_def all_keys_def)
qed

end
