(* ===== verification/Analysis.thy ===== *)
theory Analysis
  imports MsTree
begin

section \<open>Analysis of a miniscript\<close>

text \<open>
  \<^verbatim>\<open>miniscript/analyzable.rs\<close>: the rules a sane miniscript keeps, and the parameters with
  which a caller allows some of them to be broken.
\<close>

record ext_params =
  top_unsafe :: bool
  resource_limitations :: bool
  timelock_mixing :: bool
  malleability_allowed :: bool
  repeated_pk :: bool
  raw_pkh :: bool

definition ext_params_new :: ext_params where
  "ext_params_new = \<lparr>top_unsafe = False, resource_limitations = False, timelock_mixing = False,
     malleability_allowed = False, repeated_pk = False, raw_pkh = False\<rparr>"

definition ext_params_sane :: ext_params where
  "ext_params_sane = ext_params_new"

definition ext_params_insane :: ext_params where
  "ext_params_insane = \<lparr>top_unsafe = True, resource_limitations = True, timelock_mixing = True,
     malleability_allowed = True, repeated_pk = True, raw_pkh = False\<rparr>"

definition ext_params_allow_all :: ext_params where
  "ext_params_allow_all = \<lparr>top_unsafe = True, resource_limitations = True, timelock_mixing = True,
     malleability_allowed = True, repeated_pk = True, raw_pkh = True\<rparr>"

datatype analysis_error =
    SiglessBranch
  | RepeatedPubkeys
  | BranchExceedResouceLimits
  | HeightTimelockCombination
  | Malleable
  | ContainsRawPkh

definition requires_sig :: "'pk miniscript \<Rightarrow> bool" where
  "requires_sig ms = safe (mall (ms_ty ms))"

definition is_non_malleable :: "'pk miniscript \<Rightarrow> bool" where
  "is_non_malleable ms = non_malleable (mall (ms_ty ms))"

definition within_resource_limits :: "script_context \<Rightarrow> 'pk key_ops \<Rightarrow> 'pk miniscript \<Rightarrow> bool" where
  "within_resource_limits ctx K ms = is_ok (check_local_validity ctx K ms)"

text \<open>\<open>TimelockInfo::contains_unspendable_path\<close>.\<close>

definition contains_unspendable_path :: "timelock_info \<Rightarrow> bool" where
  "contains_unspendable_path t = contains_combination t"

definition has_mixed_timelocks :: "'pk miniscript \<Rightarrow> bool" where
  "has_mixed_timelocks ms = contains_unspendable_path (ext_timelock (ms_ext ms))"

text \<open>The number of keys against the size of their set.  \<open>iter_pk\<close> never fails (\<open>iter_pk_keys\<close>).\<close>

definition has_repeated_keys :: "'pk miniscript \<Rightarrow> bool" where
  "has_repeated_keys ms =
     (case iter_pk ms of None \<Rightarrow> False | Some pks \<Rightarrow> length (remdups pks) \<noteq> length pks)"

fun is_raw_pkh :: "('pk, 'c) terminal \<Rightarrow> bool" where
  "is_raw_pkh (RawPkH _) = True"
| "is_raw_pkh _ = False"

definition contains_raw_pkh :: "'pk miniscript \<Rightarrow> bool" where
  "contains_raw_pkh ms =
     (case ms_iter ms of None \<Rightarrow> False | Some nodes \<Rightarrow> list_ex (\<lambda>x. is_raw_pkh (ms_node x)) nodes)"

definition sanity_check :: "script_context \<Rightarrow> 'pk key_ops \<Rightarrow> 'pk miniscript \<Rightarrow> analysis_error + unit" where
  "sanity_check ctx K ms =
     (if \<not> requires_sig ms then Inl SiglessBranch
      else if \<not> is_non_malleable ms then Inl Malleable
      else if \<not> within_resource_limits ctx K ms then Inl BranchExceedResouceLimits
      else if has_repeated_keys ms then Inl RepeatedPubkeys
      else if has_mixed_timelocks ms then Inl HeightTimelockCombination
      else Inr ())"

definition ext_params_check ::
    "script_context \<Rightarrow> 'pk key_ops \<Rightarrow> ext_params \<Rightarrow> 'pk miniscript \<Rightarrow> analysis_error + unit" where
  "ext_params_check ctx K ext ms =
     (if \<not> top_unsafe ext \<and> \<not> requires_sig ms then Inl SiglessBranch
      else if \<not> malleability_allowed ext \<and> \<not> is_non_malleable ms then Inl Malleable
      else if \<not> resource_limitations ext \<and> \<not> within_resource_limits ctx K ms then Inl BranchExceedResouceLimits
      else if \<not> repeated_pk ext \<and> has_repeated_keys ms then Inl RepeatedPubkeys
      else if \<not> timelock_mixing ext \<and> has_mixed_timelocks ms then Inl HeightTimelockCombination
      else if \<not> raw_pkh ext \<and> contains_raw_pkh ms then Inl ContainsRawPkh
      else Inr ())"

lemma is_raw_pkh_iff: "is_raw_pkh n \<longleftrightarrow> (\<exists>h. n = RawPkH h)"
  by (cases n) auto

lemma has_repeated_keys_iff: "has_repeated_keys ms \<longleftrightarrow> \<not> distinct (all_keys ms)"
  by (simp add: has_repeated_keys_def iter_pk_keys)

lemma contains_raw_pkh_iff: "contains_raw_pkh ms \<longleftrightarrow> (\<exists>x \<in> set (pre_order ms). \<exists>h. ms_node x = RawPkH h)"
  by (auto simp: contains_raw_pkh_def ms_iter_nodes list_ex_iff is_raw_pkh_iff)

lemma sanity_check_ext:
  "ext_params_check ctx K ext_params_sane ms = Inr () \<longleftrightarrow> sanity_check ctx K ms = Inr () \<and> \<not> contains_raw_pkh ms"
  by (auto simp: ext_params_check_def sanity_check_def ext_params_sane_def ext_params_new_def)

definition ext_params_le :: "ext_params \<Rightarrow> ext_params \<Rightarrow> bool" where
  "ext_params_le e e' \<longleftrightarrow>
     (top_unsafe e \<longrightarrow> top_unsafe e') \<and> (resource_limitations e \<longrightarrow> resource_limitations e')
     \<and> (timelock_mixing e \<longrightarrow> timelock_mixing e') \<and> (malleability_allowed e \<longrightarrow> malleability_allowed e')
     \<and> (repeated_pk e \<longrightarrow> repeated_pk e') \<and> (raw_pkh e \<longrightarrow> raw_pkh e')"

lemma ext_params_check_mono:
  "ext_params_check ctx K e ms = Inr () \<Longrightarrow> ext_params_le e e' \<Longrightarrow> ext_params_check ctx K e' ms = Inr ()"
  by (auto simp: ext_params_check_def ext_params_le_def split: if_splits)

lemma ext_params_order:
  "ext_params_le ext_params_sane e" "ext_params_le ext_params_insane ext_params_allow_all"
  "ext_params_check ctx K ext_params_allow_all ms = Inr ()"
  by (simp_all add: ext_params_le_def ext_params_sane_def ext_params_new_def ext_params_insane_def
      ext_params_allow_all_def ext_params_check_def)

end
