(* ===== verification/Envelope.thy ===== *)
theory Envelope
  imports Inscription
begin

section \<open>Parsing inscription envelopes\<close>

text \<open>
  \<^verbatim>\<open>ord/envelope.rs\<close> and \<open>parse_inscriptions\<close> of \<^verbatim>\<open>ord/mod.rs\<close>:
  the scan of a tapscript for envelopes, the interpretation of an envelope's payload as an
  inscription, and the strict parser, which accepts only envelopes that it can reproduce.  A script
  is a byte vector; the bitcoin crate's iterator over its instructions is a parameter.  A peekable
  iterator is the list of the items still to come.
\<close>

subsection \<open>Instructions\<close>

datatype script_error = NonMinimalPush | EarlyEndOfScript | NumericOverflow | OtherScriptError

datatype instruction = PushBytes bytes | Op opcode

type_synonym instr_iter = "(script_error + instruction) list"

record script_lib =
  into_script :: "builder \<Rightarrow> bytes"              \<comment> \<open>\<open>Builder::into_script\<close>\<close>
  instructions :: "bytes \<Rightarrow> instr_iter"           \<comment> \<open>\<open>Script::instructions\<close>\<close>
  read_scriptint :: "bytes \<Rightarrow> script_error + int"
  scriptint_bytes :: "int \<Rightarrow> bytes"               \<comment> \<open>what \<open>push_int\<close> pushes for a large number\<close>
  opcode_byte :: "opcode \<Rightarrow> u8"

subsection \<open>Scanning a tapscript\<close>

record 'a envelope =
  env_input :: nat
  env_offset :: nat
  env_payload :: 'a
  env_pushnum :: bool
  env_stutter :: bool

type_synonym raw_envelope = "bytes list envelope"

definition accept :: "instruction \<Rightarrow> instr_iter \<Rightarrow> bool \<times> instr_iter" where
  "accept i it = (case it of Inr x # rest \<Rightarrow> if x = i then (True, rest) else (False, it) | _ \<Rightarrow> (False, it))"

definition peeks_empty_push :: "instr_iter \<Rightarrow> bool" where
  "peeks_empty_push it = (case it of Inr (PushBytes []) # _ \<Rightarrow> True | _ \<Rightarrow> False)"

text \<open>The loop over the payload; the inner option is the early return without an envelope.\<close>

fun read_payload ::
    "bool \<Rightarrow> bytes list \<Rightarrow> instr_iter \<Rightarrow> script_error + ((bool \<times> bytes list) option \<times> instr_iter)"
  where
  "read_payload pushnum payload [] = Inr (None, [])"
| "read_payload pushnum payload (Inl e # it) = Inl e"
| "read_payload pushnum payload (Inr (PushBytes push) # it) = read_payload pushnum (payload @ [push]) it"
| "read_payload pushnum payload (Inr (Op opc) # it) =
     (case opc of
        OP_ENDIF \<Rightarrow> Inr (Some (pushnum, payload), it)
      | OP_PUSHNUM_NEG1 \<Rightarrow> read_payload True (payload @ [[0x81]]) it
      | OP_PUSHNUM n \<Rightarrow> read_payload True (payload @ [[of_nat n]]) it
      | _ \<Rightarrow> Inr (None, it))"

definition from_instructions ::
    "nat \<Rightarrow> nat \<Rightarrow> bool \<Rightarrow> instr_iter \<Rightarrow> script_error + ((bool \<times> raw_envelope option) \<times> instr_iter)"
  where
  "from_instructions input offset stutter it =
     (case accept (Op OP_IF) it of
        (False, it1) \<Rightarrow> Inr ((peeks_empty_push it1, None), it1)
      | (True, it1) \<Rightarrow>
          (case accept (PushBytes PROTOCOL_ID) it1 of
             (False, it2) \<Rightarrow> Inr ((peeks_empty_push it2, None), it2)
           | (True, it2) \<Rightarrow>
               (case read_payload False [] it2 of
                  Inl e \<Rightarrow> Inl e
                | Inr (None, it3) \<Rightarrow> Inr ((False, None), it3)
                | Inr (Some (pushnum, payload), it3) \<Rightarrow>
                    if offset \<ge> 2 ^ 32 then Inl NumericOverflow
                    else Inr ((False, Some \<lparr>env_input = input, env_offset = offset,
                           env_payload = payload, env_pushnum = pushnum, env_stutter = stutter\<rparr>), it3))))"

lemma read_payload_shorter:
  "read_payload pushnum payload it = Inr (r, it') \<Longrightarrow> length it' \<le> length it"
  by (induction pushnum payload it rule: read_payload.induct)
    (auto split: opcode.splits if_splits simp: le_SucI)

lemma accept_shorter: "accept i it = (b, it') \<Longrightarrow> length it' \<le> length it"
  by (auto simp: accept_def split: list.splits sum.splits if_splits)

lemma from_instructions_shorter:
  "from_instructions input offset stutter it = Inr (r, it') \<Longrightarrow> length it' \<le> length it"
  by (auto simp: from_instructions_def split: prod.splits bool.splits sum.splits option.splits if_splits
      dest!: accept_shorter read_payload_shorter)

function scan_tapscript ::
    "nat \<Rightarrow> raw_envelope list \<Rightarrow> bool \<Rightarrow> instr_iter \<Rightarrow> script_error + raw_envelope list" where
  "scan_tapscript input envelopes stuttered [] = Inr envelopes"
| "scan_tapscript input envelopes stuttered (Inl e # it) = Inl e"
| "scan_tapscript input envelopes stuttered (Inr i # it) =
     (if i = PushBytes [] then
        (case from_instructions input (length envelopes) stuttered it of
           Inl e \<Rightarrow> Inl e
         | Inr ((stutter, Some env), it') \<Rightarrow> scan_tapscript input (envelopes @ [env]) stuttered it'
         | Inr ((stutter, None), it') \<Rightarrow> scan_tapscript input envelopes stutter it')
      else scan_tapscript input envelopes stuttered it)"
  by pat_completeness auto
termination
  by (relation "measure (\<lambda>(_, _, _, it). length it)")
    (auto dest!: from_instructions_shorter simp: less_Suc_eq_le)

definition from_tapscript :: "script_lib \<Rightarrow> bytes \<Rightarrow> nat \<Rightarrow> script_error + raw_envelope list" where
  "from_tapscript S script input =
     (if input \<ge> 2 ^ 32 then Inl NumericOverflow
      else scan_tapscript input [] False (instructions S script))"

subsection \<open>Transactions\<close>

text \<open>Only the witnesses of the inputs matter.  The annex prefix is \<open>0x50\<close>.\<close>

definition tapscript_of_witness :: "bytes list \<Rightarrow> bytes option" where
  "tapscript_of_witness w =
     (let has_annex = length w \<ge> 2 \<and> last w \<noteq> [] \<and> hd (last w) = 0x50;
          offset = (if has_annex then 3 else 2)
      in if length w < offset then None else Some (w ! (length w - offset)))"

definition raw_from_transaction :: "script_lib \<Rightarrow> bytes list list \<Rightarrow> raw_envelope list" where
  "raw_from_transaction S inputs =
     concat (map (\<lambda>(i, w).
       case tapscript_of_witness w of
         None \<Rightarrow> []
       | Some script \<Rightarrow> (case from_tapscript S script i of Inl _ \<Rightarrow> [] | Inr es \<Rightarrow> es))
     (enumerate 0 inputs))"

subsection \<open>Interpreting a payload\<close>

text \<open>The map from tags to the values seen for them, as an association list.\<close>

type_synonym fields = "(bytes \<times> bytes list) list"

fun push_field :: "bytes \<Rightarrow> bytes \<Rightarrow> fields \<Rightarrow> fields" where
  "push_field k v [] = [(k, [v])]"
| "push_field k v ((k', vs) # fs) = (if k = k' then (k', vs @ [v]) # fs else (k', vs) # push_field k v fs)"

definition remove_key :: "bytes \<Rightarrow> fields \<Rightarrow> fields" where
  "remove_key k fs = filter (\<lambda>(k', _). k' \<noteq> k) fs"

definition set_field :: "bytes \<Rightarrow> bytes list \<Rightarrow> fields \<Rightarrow> fields" where
  "set_field k vs fs = map (\<lambda>(k', vs'). (k', if k' = k then vs else vs')) fs"

definition remove_field :: "tag \<Rightarrow> fields \<Rightarrow> bytes option \<times> fields" where
  "remove_field t fs =
     (if is_chunked t
      then (case map_of fs (tag_bytes t) of
              None \<Rightarrow> (None, fs)
            | Some value \<Rightarrow>
                (if value = [] then None else Some (concat value), remove_key (tag_bytes t) fs))
      else (case map_of fs (tag_bytes t) of
              None \<Rightarrow> (None, fs)
            | Some [] \<Rightarrow> (None, fs)
            | Some (v # vs) \<Rightarrow>
                (Some v, if vs = [] then remove_key (tag_bytes t) fs else set_field (tag_bytes t) vs fs)))"

text \<open>The payload up to the body, in chunks of two; a single item at the end is incomplete.\<close>

fun collect_fields :: "fields \<Rightarrow> bytes list \<Rightarrow> fields \<times> bool" where
  "collect_fields fs [] = (fs, False)"
| "collect_fields fs [_] = (fs, True)"
| "collect_fields fs (k # v # rest) = collect_fields (push_field k v fs) rest"

text \<open>The position of the first empty push at an even index.\<close>

fun body_position :: "nat \<Rightarrow> bytes list \<Rightarrow> nat option" where
  "body_position i [] = None"
| "body_position i (push # rest) =
     (if i mod 2 = 0 \<and> push = [] then Some i else body_position (Suc i) rest)"

definition parse_payload :: "bytes list \<Rightarrow> inscription" where
  "parse_payload payload =
     (let body = body_position 0 payload;
          (fs0, incomplete) =
            collect_fields [] (take (case body of None \<Rightarrow> length payload | Some i \<Rightarrow> i) payload);
          duplicate = list_ex (\<lambda>(_, vs). length vs > 1) fs0;
          (enc, fs1) = remove_field ContentEncoding fs0;
          (ct, fs2) = remove_field ContentType fs1;
          (del, fs3) = remove_field Delegate fs2;
          (meta, fs4) = remove_field Metadata fs3;
          (proto, fs5) = remove_field Metaprotocol fs4;
          (par, fs6) = remove_field Parent fs5;
          (ptr, fs7) = remove_field Pointer fs6
      in \<lparr>ins_body = map_option (\<lambda>i. concat (drop (i + 1) payload)) body,
          content_encoding = enc, content_type = ct, delegate = del,
          duplicate_field = duplicate, incomplete_field = incomplete, metadata = meta,
          metaprotocol = proto, parent = par, pointer = ptr,
          unrecognized_even_field =
            list_ex (\<lambda>(k, _). k \<noteq> [] \<and> even (unat (hd k))) fs7\<rparr>)"

definition parse_envelope :: "raw_envelope \<Rightarrow> inscription envelope" where
  "parse_envelope e =
     \<lparr>env_input = env_input e, env_offset = env_offset e, env_payload = parse_payload (env_payload e),
      env_pushnum = env_pushnum e, env_stutter = env_stutter e\<rparr>"

definition from_transaction :: "script_lib \<Rightarrow> bytes list list \<Rightarrow> inscription envelope list" where
  "from_transaction S inputs = map parse_envelope (raw_from_transaction S inputs)"

subsection \<open>The strict parser\<close>

datatype inscription_error =
    EnvelopeError script_error
  | ExpectedEnvelope
  | FieldTooLong ins_field
  | NotReproducible

fun rebuild :: "builder \<Rightarrow> inscription list \<Rightarrow> inscription_error + builder" where
  "rebuild b [] = Inr b"
| "rebuild b (i # is) =
     (case validate i of
        Inl f \<Rightarrow> Inl (FieldTooLong f)
      | Inr _ \<Rightarrow> rebuild (append_reveal_script_to_builder i b) is)"

definition parse_inscriptions :: "script_lib \<Rightarrow> bytes \<Rightarrow> inscription_error + inscription list" where
  "parse_inscriptions S script =
     (case from_tapscript S script 0 of
        Inl e \<Rightarrow> Inl (EnvelopeError e)
      | Inr raw \<Rightarrow>
          (if raw = [] then Inl ExpectedEnvelope
           else (let inscriptions = map (\<lambda>r. env_payload (parse_envelope r)) raw in
                 case rebuild [] inscriptions of
                   Inl e \<Rightarrow> Inl e
                 | Inr b \<Rightarrow> (if into_script S b \<noteq> script then Inl NotReproducible else Inr inscriptions))))"

subsection \<open>The instructions of a built script\<close>

text \<open>What the documentation of the bitcoin crate says of a script made with a \<open>Builder\<close>:
  \<open>push_verify\<close> folds into a last opcode with a verifying form, \<open>push_int\<close> uses the small-number
  opcodes where it can, and a slice is one push.\<close>

fun verify_form :: "instruction \<Rightarrow> instruction option" where
  "verify_form (Op OP_EQUAL) = Some (Op OP_EQUALVERIFY)"
| "verify_form (Op OP_NUMEQUAL) = Some (Op OP_NUMEQUALVERIFY)"
| "verify_form (Op OP_CHECKSIG) = Some (Op OP_CHECKSIGVERIFY)"
| "verify_form (Op OP_CHECKMULTISIG) = Some (Op OP_CHECKMULTISIGVERIFY)"
| "verify_form _ = None"

definition int_instruction :: "script_lib \<Rightarrow> int \<Rightarrow> instruction" where
  "int_instruction S n =
     (if n = 0 then PushBytes []
      else if 1 \<le> n \<and> n \<le> 16 then Op (OP_PUSHNUM (nat n))
      else if n = -1 then Op OP_PUSHNUM_NEG1
      else PushBytes (scriptint_bytes S n))"

fun add_call :: "btc \<Rightarrow> script_lib \<Rightarrow> instruction list \<Rightarrow> builder_call \<Rightarrow> instruction list" where
  "add_call L S is (PushOpcode opc) = is @ [if opc = OP_FALSE then PushBytes [] else Op opc]"
| "add_call L S is (PushSlice x) = is @ [PushBytes x]"
| "add_call L S is (PushInt n) = is @ [int_instruction S n]"
| "add_call L S is (PushKey pk) = is @ [PushBytes (pubkey_to_bytes L pk)]"
| "add_call L S is PushVerify =
     (case (if is = [] then None else verify_form (last is)) of
        Some v \<Rightarrow> butlast is @ [v]
      | None \<Rightarrow> is @ [Op OP_VERIFY])"

definition builder_instructions :: "btc \<Rightarrow> script_lib \<Rightarrow> builder \<Rightarrow> instruction list" where
  "builder_instructions L S b = foldl (add_call L S) [] b"

text \<open>A push carries its length, in one, two, three or five bytes.\<close>

definition push_prefix :: "nat \<Rightarrow> bytes" where
  "push_prefix n =
     (if n < 76 then [of_nat n]
      else if n < 0x100 then [0x4c, of_nat n]
      else if n < 0x10000 then [0x4d, of_nat n, of_nat (n div 0x100)]
      else [0x4e, of_nat n, of_nat (n div 0x100), of_nat (n div 0x10000), of_nat (n div 0x1000000)])"

fun instruction_bytes :: "script_lib \<Rightarrow> instruction \<Rightarrow> bytes" where
  "instruction_bytes S (PushBytes x) = push_prefix (length x) @ x"
| "instruction_bytes S (Op opc) = [opcode_byte S opc]"

text \<open>The hypothesis on the crate, for builders of named opcodes whose slices fit into a push.\<close>

fun named_opcode :: "opcode \<Rightarrow> bool" where
  "named_opcode (OP_PUSHNUM n) = (1 \<le> n \<and> n \<le> 16)"
| "named_opcode (OP_OTHER _) = False"
| "named_opcode _ = True"

fun call_fits :: "builder_call \<Rightarrow> bool" where
  "call_fits (PushOpcode opc) = named_opcode opc"
| "call_fits (PushSlice x) = (length x < 2 ^ 32)"
| "call_fits (PushInt n) = (\<bar>n\<bar> < 2 ^ 63)"
| "call_fits (PushKey pk) = (length (inner pk) \<le> 64)"
| "call_fits PushVerify = True"

definition slices_fit :: "builder \<Rightarrow> bool" where
  "slices_fit b = list_all call_fits b"

definition script_laws :: "btc \<Rightarrow> script_lib \<Rightarrow> bool" where
  "script_laws L S \<longleftrightarrow>
     (\<forall>b. slices_fit b \<longrightarrow>
        into_script S b = concat (map (instruction_bytes S) (builder_instructions L S b))
        \<and> instructions S (into_script S b) = map Inr (builder_instructions L S b))"

lemma script_laws_bytes:
  "script_laws L S \<Longrightarrow> slices_fit b \<Longrightarrow>
     into_script S b = concat (map (instruction_bytes S) (builder_instructions L S b))"
  by (simp add: script_laws_def)

lemma script_laws_instructions:
  "script_laws L S \<Longrightarrow> slices_fit b \<Longrightarrow>
     instructions S (into_script S b) = map Inr (builder_instructions L S b)"
  unfolding script_laws_def by blast

lemma builder_instructions_snoc:
  "builder_instructions L S (b @ [c]) = add_call L S (builder_instructions L S b) c"
  by (simp add: builder_instructions_def)

lemma builder_instructions_Nil [simp]: "builder_instructions L S [] = []"
  by (simp add: builder_instructions_def)

lemma foldl_add_call_append:
  "PushVerify \<notin> set cs \<Longrightarrow> foldl (add_call L S) is cs = is @ foldl (add_call L S) [] cs"
proof (induction cs rule: rev_induct)
  case (snoc c cs)
  then show ?case by (cases c) auto
qed simp

lemma builder_instructions_append:
  "PushVerify \<notin> set cs \<Longrightarrow>
     builder_instructions L S (b @ cs) = builder_instructions L S b @ builder_instructions L S cs"
  unfolding builder_instructions_def foldl_append by (rule foldl_add_call_append)

lemma builder_instructions_Cons:
  "PushVerify \<notin> set cs \<Longrightarrow>
     builder_instructions L S (c # cs) = builder_instructions L S [c] @ builder_instructions L S cs"
  using builder_instructions_append [of cs L S "[c]"] by simp

lemma builder_instructions_slices:
  "builder_instructions L S (map PushSlice xs) = map PushBytes xs"
  by (induction xs rule: rev_induct) (simp_all add: builder_instructions_snoc)

subsection \<open>The payload of an inscription\<close>

definition field_pushes :: "tag \<Rightarrow> bytes option \<Rightarrow> (bytes \<times> bytes) list" where
  "field_pushes t v =
     (case v of
        None \<Rightarrow> []
      | Some value \<Rightarrow>
          if is_chunked t \<and> value \<noteq> []
          then map (Pair (tag_bytes t)) (chunks MAX_SCRIPT_ELEMENT_SIZE value)
          else [(tag_bytes t, value)])"

definition all_fields :: "inscription \<Rightarrow> (bytes \<times> bytes) list" where
  "all_fields i =
     field_pushes ContentType (content_type i) @ field_pushes ContentEncoding (content_encoding i)
     @ field_pushes Metaprotocol (metaprotocol i) @ field_pushes Parent (parent i)
     @ field_pushes Delegate (delegate i) @ field_pushes Pointer (pointer i)
     @ field_pushes Metadata (metadata i)"

definition pairs_flat :: "('a \<times> 'a) list \<Rightarrow> 'a list" where
  "pairs_flat kvs = concat (map (\<lambda>(k, v). [k, v]) kvs)"

definition body_pushes :: "bytes option \<Rightarrow> bytes list" where
  "body_pushes b = (case b of None \<Rightarrow> [] | Some x \<Rightarrow> [] # chunks MAX_SCRIPT_ELEMENT_SIZE x)"

definition payload_of :: "inscription \<Rightarrow> bytes list" where
  "payload_of i = pairs_flat (all_fields i) @ body_pushes (ins_body i)"

lemma pairs_flat_simps [simp]:
  "pairs_flat [] = []" "pairs_flat ((k, v) # kvs) = k # v # pairs_flat kvs"
  "pairs_flat (a @ b) = pairs_flat a @ pairs_flat b"
  by (simp_all add: pairs_flat_def)

lemma tag_encode_pushes: "tag_encode t v = map PushSlice (pairs_flat (field_pushes t v))"
  by (auto simp: tag_encode_def field_pushes_def pairs_flat_def map_concat comp_def split: option.splits)

lemma body_encode_pushes:
  "(case b of None \<Rightarrow> [] | Some body \<Rightarrow> PushSlice BODY_TAG # map PushSlice (chunks MAX_SCRIPT_ELEMENT_SIZE body))
   = map PushSlice (body_pushes b)"
  by (auto simp: body_pushes_def BODY_TAG_def split: option.splits)

lemma reveal_eq:
  "append_reveal_script_to_builder i b =
     b @ [PushOpcode OP_FALSE, PushOpcode OP_IF, PushSlice PROTOCOL_ID]
       @ map PushSlice (payload_of i) @ [PushOpcode OP_ENDIF]"
  by (simp add: append_reveal_script_to_builder_def payload_of_def all_fields_def tag_encode_pushes
      body_encode_pushes)

definition envelope_instructions :: "inscription \<Rightarrow> instruction list" where
  "envelope_instructions i =
     [PushBytes [], Op OP_IF, PushBytes PROTOCOL_ID] @ map PushBytes (payload_of i) @ [Op OP_ENDIF]"

lemma builder_instructions_reveal:
  "builder_instructions L S (append_reveal_script_to_builder i b)
     = builder_instructions L S b @ envelope_instructions i"
proof -
  have "builder_instructions L S ([PushOpcode OP_FALSE, PushOpcode OP_IF, PushSlice PROTOCOL_ID]
          @ map PushSlice (payload_of i) @ [PushOpcode OP_ENDIF]) = envelope_instructions i"
    using builder_instructions_slices [of L S "payload_of i"]
    by (subst builder_instructions_append)
      (auto simp: envelope_instructions_def builder_instructions_snoc builder_instructions_def)
  then show ?thesis
    unfolding reveal_eq by (subst builder_instructions_append) auto
qed

subsection \<open>Reading a payload back\<close>

lemma read_payload_pushes:
  "read_payload pn acc (map (Inr \<circ> PushBytes) ps @ Inr (Op OP_ENDIF) # it) = Inr (Some (pn, acc @ ps), it)"
  by (induction ps arbitrary: acc) auto

lemma from_instructions_envelope:
  assumes "offset < 2 ^ 32"
  shows "from_instructions input offset stutter (map Inr (tl (envelope_instructions i)) @ it) =
    Inr ((False, Some \<lparr>env_input = input, env_offset = offset, env_payload = payload_of i,
       env_pushnum = False, env_stutter = stutter\<rparr>), it)"
  using assms read_payload_pushes [of False "[]" "payload_of i" it]
  by (simp add: from_instructions_def envelope_instructions_def accept_def comp_def)

lemma scan_envelopes:
  "length es + length is < 2 ^ 32 \<Longrightarrow>
   \<exists>es'. scan_tapscript input es st (map Inr (concat (map envelope_instructions is))) = Inr (es @ es')
     \<and> map env_payload es' = map payload_of is"
proof (induction "is" arbitrary: es)
  case Nil
  then show ?case by simp
next
  case (Cons i "is")
  let ?e = "\<lparr>env_input = input, env_offset = length es, env_payload = payload_of i,
       env_pushnum = False, env_stutter = st\<rparr>"
  let ?it = "map Inr (concat (map envelope_instructions is))"
  have split: "map Inr (concat (map envelope_instructions (i # is)))
     = Inr (PushBytes []) # (map Inr (tl (envelope_instructions i)) @ ?it)"
    by (simp add: envelope_instructions_def)
  obtain es' where es': "scan_tapscript input (es @ [?e]) st ?it = Inr ((es @ [?e]) @ es')"
    "map env_payload es' = map payload_of is"
    using Cons.IH [of "es @ [?e]"] Cons.prems by auto
  have "scan_tapscript input es st (map Inr (concat (map envelope_instructions (i # is))))
      = Inr (es @ (?e # es'))"
    unfolding split using es'(1) from_instructions_envelope [of "length es" input st i ?it] Cons.prems
    by simp
  then show ?case using es'(2) by (intro exI [of _ "?e # es'"]) simp
qed

lemma map_of_push_field:
  "map_of (push_field k v fs) = (map_of fs)(k \<mapsto> (case map_of fs k of None \<Rightarrow> [v] | Some vs \<Rightarrow> vs @ [v]))"
  by (induction k v fs rule: push_field.induct) (auto simp: fun_eq_iff)

lemma keys_push_field: "fst ` set (push_field k v fs) = insert k (fst ` set fs)"
  by (induction k v fs rule: push_field.induct) auto

lemma distinct_push_field: "distinct (map fst fs) \<Longrightarrow> distinct (map fst (push_field k v fs))"
  by (induction k v fs rule: push_field.induct) (auto simp: keys_push_field [simplified image_iff] keys_push_field)

definition values_of :: "('k \<times> 'v) list \<Rightarrow> 'k \<Rightarrow> 'v list" where
  "values_of kvs k = map snd (filter (\<lambda>p. fst p = k) kvs)"

definition grouped :: "('k \<times> 'v) list \<Rightarrow> ('k \<rightharpoonup> 'v list)" where
  "grouped kvs = (\<lambda>k. if values_of kvs k = [] then None else Some (values_of kvs k))"

lemma values_of_append [simp]: "values_of (a @ b) k = values_of a k @ values_of b k"
  by (simp add: values_of_def)

lemma collect_fields_pairs:
  "map_of fs = grouped done \<Longrightarrow> distinct (map fst fs) \<Longrightarrow>
   \<exists>fs'. collect_fields fs (pairs_flat kvs) = (fs', False) \<and> map_of fs' = grouped (done @ kvs)
     \<and> distinct (map fst fs')"
proof (induction kvs arbitrary: fs "done")
  case Nil
  then show ?case by simp
next
  case (Cons kv kvs)
  obtain k v where kv: "kv = (k, v)" by (cases kv)
  have "map_of (push_field k v fs) = grouped (done @ [kv])"
    by (auto simp: map_of_push_field Cons.prems(1) grouped_def values_of_def kv fun_eq_iff)
  with Cons.IH [of "push_field k v fs" "done @ [kv]"] Cons.prems(2) show ?case
    by (simp add: kv distinct_push_field)
qed

lemma body_position_pairs:
  "\<forall>(k, v) \<in> set kvs. k \<noteq> [] \<Longrightarrow> even n \<Longrightarrow>
     body_position n (pairs_flat kvs @ rest) = body_position (n + length (pairs_flat kvs)) rest"
proof (induction kvs arbitrary: n)
  case (Cons kv kvs)
  obtain k v where kv: "kv = (k, v)" by (cases kv)
  show ?case using Cons.IH [of "Suc (Suc n)"] Cons.prems by (auto simp: kv even_iff_mod_2_eq_zero)
qed simp

lemma even_pairs_flat: "even (length (pairs_flat kvs))"
  by (induction kvs) auto

lemma all_fields_keys: "\<forall>(k, v) \<in> set (all_fields i). k \<in> tag_bytes ` {ContentType, ContentEncoding,
    Metaprotocol, Parent, Delegate, Pointer, Metadata}"
  by (auto simp: all_fields_def field_pushes_def split: option.splits if_splits)

lemma body_position_payload:
  "body_position 0 (payload_of i) =
     (case ins_body i of None \<Rightarrow> None | Some _ \<Rightarrow> Some (length (pairs_flat (all_fields i))))"
proof -
  have "\<forall>(k, v) \<in> set (all_fields i). k \<noteq> []"
    using all_fields_keys [of i] tag_bytes_le by (fastforce dest: arg_cong [where f = length])
  from body_position_pairs [OF this, of 0] show ?thesis
    using even_pairs_flat [of "all_fields i"]
    by (auto simp: payload_of_def body_pushes_def even_iff_mod_2_eq_zero split: option.splits)
qed

lemma remove_field_eq:
  assumes "distinct (map fst fs)" and "is_chunked t \<or> (\<forall>vs. map_of fs (tag_bytes t) = Some vs \<longrightarrow> length vs = 1)"
    and "map_of fs (tag_bytes t) \<noteq> Some []"
  shows "\<exists>fs'. remove_field t fs = (map_option concat (map_of fs (tag_bytes t)), fs')
     \<and> map_of fs' = (map_of fs)(tag_bytes t := None) \<and> distinct (map fst fs')"
proof -
  have rm: "map_of (remove_key k fs) = (map_of fs)(k := None)" for k
    by (induction fs) (auto simp: remove_key_def fun_eq_iff)
  have "distinct (map fst (remove_key k fs))" for k
    using assms(1) by (auto simp: remove_key_def distinct_map intro: inj_on_subset)
  moreover have "map_of fs k = None \<Longrightarrow> (map_of fs)(k := None) = map_of fs" for k
    by (auto simp: fun_eq_iff)
  ultimately show ?thesis
    using assms rm by (cases "map_of fs (tag_bytes t)")
      (auto simp: remove_field_def length_Suc_conv split: list.splits)
qed

text \<open>The values the encoder pushes under a tag.\<close>

definition field_values :: "tag \<Rightarrow> bytes option \<Rightarrow> bytes list" where
  "field_values t v = map snd (field_pushes t v)"

lemma values_of_field_pushes:
  "values_of (field_pushes t v) k = (if k = tag_bytes t then field_values t v else [])"
  by (auto simp: values_of_def field_values_def field_pushes_def filter_map comp_def split: option.splits)

lemma field_values_unchunked: "\<not> is_chunked t \<Longrightarrow> field_values t v = (case v of None \<Rightarrow> [] | Some x \<Rightarrow> [x])"
  by (auto simp: field_values_def field_pushes_def split: option.splits)

lemma MAX_SCRIPT_ELEMENT_SIZE_pos [simp]: "MAX_SCRIPT_ELEMENT_SIZE \<noteq> 0" "0 < MAX_SCRIPT_ELEMENT_SIZE"
  by (simp_all add: MAX_SCRIPT_ELEMENT_SIZE_def)

lemma field_values_None [simp]: "field_values t None = []"
  by (simp add: field_values_def field_pushes_def)

lemma chunks_empty_iff [simp]: "chunks MAX_SCRIPT_ELEMENT_SIZE xs = [] \<longleftrightarrow> xs = []"
  by (subst chunks.simps) simp

lemma length_chunks_gt_1: "1 < length (chunks MAX_SCRIPT_ELEMENT_SIZE xs) \<longleftrightarrow> MAX_SCRIPT_ELEMENT_SIZE < length xs"
  by (subst chunks.simps) (auto simp: not_less)

lemma concat_field_values: "concat (field_values t (Some x)) = x"
  using concat_chunks [of MAX_SCRIPT_ELEMENT_SIZE x]
  by (auto simp: field_values_def field_pushes_def comp_def)

lemma field_values_empty_iff: "field_values t v = [] \<longleftrightarrow> v = None"
  by (auto simp: field_values_def field_pushes_def split: option.splits)

definition tag_value :: "inscription \<Rightarrow> tag \<Rightarrow> bytes option" where
  "tag_value i t =
     (case t of Pointer \<Rightarrow> pointer i | ContentType \<Rightarrow> content_type i | Parent \<Rightarrow> parent i
      | Metadata \<Rightarrow> metadata i | Metaprotocol \<Rightarrow> metaprotocol i | ContentEncoding \<Rightarrow> content_encoding i
      | Delegate \<Rightarrow> delegate i | Unbound \<Rightarrow> None | Nop \<Rightarrow> None)"

lemma values_of_all_fields:
  "values_of (all_fields i) (tag_bytes t) = field_values t (tag_value i t)"
  by (cases t) (simp_all add: all_fields_def values_of_field_pushes tag_value_def)

lemma grouped_all_fields:
  "map_option concat (grouped (all_fields i) (tag_bytes t)) = tag_value i t"
  using concat_field_values by (auto simp: grouped_def values_of_all_fields field_values_empty_iff)

lemma grouped_all_fields_single:
  "is_chunked t \<or> (\<forall>vs. grouped (all_fields i) (tag_bytes t) = Some vs \<longrightarrow> length vs = 1)"
  by (cases "is_chunked t") (auto simp: grouped_def values_of_all_fields field_values_unchunked
      simp del: is_chunked.simps split: option.splits)

lemma grouped_not_Nil [simp]: "grouped kvs k \<noteq> Some []"
  by (simp add: grouped_def)

lemma grouped_dom: "grouped (all_fields i) k \<noteq> None \<Longrightarrow> k \<in> tag_bytes ` {ContentType, ContentEncoding,
    Metaprotocol, Parent, Delegate, Pointer, Metadata}"
  using all_fields_keys [of i] by (fastforce simp: grouped_def values_of_def filter_empty_conv split: if_splits)

lemma tag_bytes_inj: "tag_bytes t = tag_bytes t' \<longleftrightarrow> t = t'"
  by (cases t; cases t') auto

text \<open>What the parser returns for an inscription that was encoded: the three flags are those of the
  encoding.  Metadata of more than 520 bytes is pushed under the same tag several times, which the
  parser reports as a duplicate field.\<close>

definition canonical :: "inscription \<Rightarrow> inscription" where
  "canonical i = i\<lparr>duplicate_field := (case metadata i of None \<Rightarrow> False | Some m \<Rightarrow> length m > MAX_SCRIPT_ELEMENT_SIZE),
     incomplete_field := False, unrecognized_even_field := False\<rparr>"

lemma duplicate_all_fields:
  assumes "map_of fs = grouped (all_fields i)" "distinct (map fst fs)"
  shows "list_ex (\<lambda>(_, vs). length vs > 1) fs \<longleftrightarrow>
    (case metadata i of None \<Rightarrow> False | Some m \<Rightarrow> length m > MAX_SCRIPT_ELEMENT_SIZE)"
proof -
  have meta: "grouped (all_fields i) (tag_bytes Metadata) = (case metadata i of None \<Rightarrow> None
      | Some m \<Rightarrow> Some (if m = [] then [[]] else chunks MAX_SCRIPT_ELEMENT_SIZE m))"
    unfolding grouped_def values_of_all_fields
    by (auto simp: field_values_def field_pushes_def tag_value_def comp_def split: option.splits)
  have "list_ex (\<lambda>(_, vs). length vs > 1) fs \<longleftrightarrow> (\<exists>k vs. grouped (all_fields i) k = Some vs \<and> length vs > 1)"
    unfolding assms(1) [symmetric] using assms(2)
    by (auto simp: list_ex_iff map_of_eq_Some_iff)
  also have "\<dots> \<longleftrightarrow> (\<exists>vs. grouped (all_fields i) (tag_bytes Metadata) = Some vs \<and> length vs > 1)"
  proof safe
    fix k vs assume k: "grouped (all_fields i) k = Some vs" "length vs > 1"
    then obtain t where t: "k = tag_bytes t" using grouped_dom [of i k] unfolding k(1) by blast
    then have "is_chunked t" using grouped_all_fields_single [of t i] k by auto
    then show "\<exists>vs. grouped (all_fields i) (tag_bytes Metadata) = Some vs \<and> 1 < length vs" using k t by auto
  qed blast
  also have "\<dots> \<longleftrightarrow> (case metadata i of None \<Rightarrow> False | Some m \<Rightarrow> length m > MAX_SCRIPT_ELEMENT_SIZE)"
    unfolding meta by (auto simp: length_chunks_gt_1 simp del: One_nat_def split: option.splits)
  finally show ?thesis .
qed

text \<open>Removing a sequence of different tags from the grouped fields.\<close>

lemma remove_field_all:
  assumes fs: "map_of fs = (grouped (all_fields i)) |` (- tag_bytes ` set ts)" "distinct (map fst fs)"
    and t: "t \<notin> set ts"
  shows "\<exists>fs'. remove_field t fs = (tag_value i t, fs')
    \<and> map_of fs' = (grouped (all_fields i)) |` (- tag_bytes ` set (t # ts)) \<and> distinct (map fst fs')"
proof -
  have mt: "map_of fs (tag_bytes t) = grouped (all_fields i) (tag_bytes t)"
    using t by (auto simp: fs restrict_map_def tag_bytes_inj)
  obtain fs' where "remove_field t fs = (map_option concat (map_of fs (tag_bytes t)), fs')"
    "map_of fs' = (map_of fs)(tag_bytes t := None)" "distinct (map fst fs')"
    using remove_field_eq [OF fs(2), of t] mt grouped_all_fields_single [of t i] by auto
  then show ?thesis
    unfolding mt grouped_all_fields using fs(1) by (auto simp: restrict_map_def fun_eq_iff)
qed

lemma parse_payload_of: "parse_payload (payload_of i) = canonical i"
proof -
  let ?n = "length (pairs_flat (all_fields i))"
  have tk: "take (case body_position 0 (payload_of i) of None \<Rightarrow> length (payload_of i) | Some n \<Rightarrow> n) (payload_of i)
      = pairs_flat (all_fields i)"
    unfolding body_position_payload by (auto simp: payload_of_def body_pushes_def split: option.splits)
  have body: "map_option (\<lambda>n. concat (drop (n + 1) (payload_of i))) (body_position 0 (payload_of i)) = ins_body i"
    using concat_chunks [of MAX_SCRIPT_ELEMENT_SIZE] unfolding body_position_payload
    by (auto simp: payload_of_def body_pushes_def split: option.splits)
  obtain fs0 where fs0: "collect_fields [] (pairs_flat (all_fields i)) = (fs0, False)"
      "map_of fs0 = grouped (all_fields i)" "distinct (map fst fs0)"
    using collect_fields_pairs [of "[]" "[]" "all_fields i"] by (auto simp: grouped_def values_of_def fun_eq_iff)
  note rm = remove_field_all [of _ i]
  obtain fs1 where 1: "remove_field ContentEncoding fs0 = (content_encoding i, fs1)"
      "map_of fs1 = grouped (all_fields i) |` (- tag_bytes ` set [ContentEncoding])" "distinct (map fst fs1)"
    using rm [of fs0 "[]" ContentEncoding] fs0 by (auto simp: tag_value_def restrict_map_def)
  obtain fs2 where 2: "remove_field ContentType fs1 = (content_type i, fs2)"
      "map_of fs2 = grouped (all_fields i) |` (- tag_bytes ` set [ContentType, ContentEncoding])" "distinct (map fst fs2)"
    using rm [OF 1(2,3), of ContentType] by (auto simp: tag_value_def)
  obtain fs3 where 3: "remove_field Delegate fs2 = (delegate i, fs3)"
      "map_of fs3 = grouped (all_fields i) |` (- tag_bytes ` set [Delegate, ContentType, ContentEncoding])" "distinct (map fst fs3)"
    using rm [OF 2(2,3), of Delegate] by (auto simp: tag_value_def)
  obtain fs4 where 4: "remove_field Metadata fs3 = (metadata i, fs4)"
      "map_of fs4 = grouped (all_fields i) |` (- tag_bytes ` set [Metadata, Delegate, ContentType, ContentEncoding])"
      "distinct (map fst fs4)"
    using rm [OF 3(2,3), of Metadata] by (auto simp: tag_value_def)
  obtain fs5 where 5: "remove_field Metaprotocol fs4 = (metaprotocol i, fs5)"
      "map_of fs5 = grouped (all_fields i) |` (- tag_bytes ` set [Metaprotocol, Metadata, Delegate, ContentType, ContentEncoding])"
      "distinct (map fst fs5)"
    using rm [OF 4(2,3), of Metaprotocol] by (auto simp: tag_value_def)
  obtain fs6 where 6: "remove_field Parent fs5 = (parent i, fs6)"
      "map_of fs6 = grouped (all_fields i) |` (- tag_bytes ` set [Parent, Metaprotocol, Metadata, Delegate, ContentType, ContentEncoding])"
      "distinct (map fst fs6)"
    using rm [OF 5(2,3), of Parent] by (auto simp: tag_value_def)
  obtain fs7 where 7: "remove_field Pointer fs6 = (pointer i, fs7)"
      "map_of fs7 = grouped (all_fields i) |` (- tag_bytes ` set [Pointer, Parent, Metaprotocol, Metadata, Delegate, ContentType, ContentEncoding])"
    using rm [OF 6(2,3), of Pointer] by (auto simp: tag_value_def)
  have "map_of fs7 k = None" for k
    using grouped_dom [of i k] by (cases "grouped (all_fields i) k") (auto simp: 7(2) restrict_map_def)
  then have "fs7 = []" by (cases fs7) (auto split: if_splits, metis option.distinct(1))
  then show ?thesis
    using duplicate_all_fields [OF fs0(2,3)] tk body
    by (simp add: parse_payload_def Let_def fs0(1) 1(1) 2(1) 3(1) 4(1) 5(1) 6(1) 7(1) canonical_def del: add_0)
qed

subsection \<open>Parsing what was revealed\<close>

text \<open>\<open>rebuild\<close> succeeds exactly when every inscription is valid.\<close>

lemma rebuild_Inr_iff:
  "rebuild b is = Inr b' \<longleftrightarrow>
     (\<forall>i \<in> set is. validate i = Inr ()) \<and> b' = foldl (\<lambda>b i. append_reveal_script_to_builder i b) b is"
  by (induction b "is" rule: rebuild.induct) (auto split: sum.splits)

definition reveal_all :: "inscription list \<Rightarrow> builder" where
  "reveal_all is = foldl (\<lambda>b i. append_reveal_script_to_builder i b) [] is"

lemma validate_canonical [simp]: "validate (canonical i) = validate i"
  by (simp add: validate_def unchunked_fields_def canonical_def)

lemma reveal_canonical [simp]:
  "append_reveal_script_to_builder (canonical i) b = append_reveal_script_to_builder i b"
  by (simp add: append_reveal_script_to_builder_def canonical_def)

lemma reveal_all_snoc: "reveal_all (is @ [i]) = append_reveal_script_to_builder i (reveal_all is)"
  by (simp add: reveal_all_def)

lemma reveal_all_canonical: "reveal_all (map canonical is) = reveal_all is"
proof (induction "is" rule: rev_induct)
  case (snoc i "is")
  then show ?case by (simp add: reveal_all_snoc)
qed simp

lemma reveal_all_instructions:
  "builder_instructions L S (reveal_all is) = concat (map envelope_instructions is)"
proof (induction "is" rule: rev_induct)
  case Nil
  then show ?case by (simp add: reveal_all_def)
next
  case (snoc i "is")
  then show ?case by (simp add: reveal_all_snoc builder_instructions_reveal)
qed

lemma reveal_slices_fit:
  assumes "validate i = Inr ()" "slices_fit b"
  shows "slices_fit (append_reveal_script_to_builder i b)"
proof -
  have "list_all push_ok (map PushSlice (payload_of i))"
    using reveal_pushes_ok [OF assms(1), of "[]"] by (simp add: reveal_eq)
  then have "list_all call_fits (map PushSlice (payload_of i))"
    by (auto simp: list_all_iff MAX_SCRIPT_ELEMENT_SIZE_def)
  then show ?thesis using assms(2) by (simp add: reveal_eq slices_fit_def PROTOCOL_ID_def)
qed

lemma reveal_all_fits: "\<forall>i \<in> set is. validate i = Inr () \<Longrightarrow> slices_fit (reveal_all is)"
proof (induction "is" rule: rev_induct)
  case Nil
  then show ?case by (simp add: reveal_all_def slices_fit_def)
next
  case (snoc i "is")
  then show ?case by (simp add: reveal_all_snoc reveal_slices_fit)
qed

lemma parse_inscriptions_reveal:
  assumes "script_laws L S" "\<forall>i \<in> set is. validate i = Inr ()" "is \<noteq> []" "length is < 2 ^ 32"
  shows "parse_inscriptions S (into_script S (reveal_all is)) = Inr (map canonical is)"
proof -
  have "instructions S (into_script S (reveal_all is)) = map Inr (concat (map envelope_instructions is))"
    using script_laws_instructions [OF assms(1) reveal_all_fits [OF assms(2)]]
    by (simp add: reveal_all_instructions)
  then obtain es where es: "from_tapscript S (into_script S (reveal_all is)) 0 = Inr es"
      "map env_payload es = map payload_of is"
    using scan_envelopes [of "[]" "is" 0 False] assms(4) by (auto simp: from_tapscript_def)
  have ne: "es \<noteq> []" using es(2) assms(3) by auto
  have pl: "map (\<lambda>r. env_payload (parse_envelope r)) es = map canonical is"
  proof -
    have "map (\<lambda>r. env_payload (parse_envelope r)) es = map parse_payload (map env_payload es)"
      by (simp add: parse_envelope_def)
    also have "\<dots> = map canonical is" by (simp add: es(2) parse_payload_of)
    finally show ?thesis .
  qed
  have "rebuild [] (map canonical is) = Inr (reveal_all is)"
    using assms(2) reveal_all_canonical [of "is"] by (simp add: rebuild_Inr_iff reveal_all_def)
  then show ?thesis using es(1) ne by (simp add: parse_inscriptions_def pl)
qed

lemma parse_inscriptions_exact:
  assumes "parse_inscriptions S script = Inr is"
  shows "into_script S (reveal_all is) = script \<and> is \<noteq> [] \<and> (\<forall>i \<in> set is. validate i = Inr ())"
  using assms
  by (auto simp: parse_inscriptions_def rebuild_Inr_iff reveal_all_def Let_def split: sum.splits if_splits)
end
