(* ===== verification/Lex.thy ===== *)
theory Lex
  imports Envelope
begin

section \<open>The lexer\<close>

text \<open>
  \<^verbatim>\<open>miniscript/lex.rs\<close>: a script to a sequence of tokens.  The vector of tokens is kept with
  its last element first, the way \<open>TokenIter\<close> hands it to the parser.  The outer option is the panic of
  an index out of range.
\<close>

datatype token =
    TkInscription bytes
  | TkBoolAnd | TkBoolOr | TkAdd | TkEqual | TkNumEqual | TkCheckSig | TkCheckSigAdd | TkCheckMultiSig
  | TkCheckSequenceVerify | TkCheckLockTimeVerify | TkCheckTemplateVerify | TkFromAltStack | TkToAltStack
  | TkDrop | TkDup | TkIf | TkIfDup | TkNotIf | TkElse | TkEndIf | TkZeroNotEqual | TkSize | TkSwap
  | TkVerify | TkRipemd160 | TkHash160 | TkSha256 | TkHash256
  | TkNum u32 | TkHash20 bytes | TkBytes32 bytes | TkBytes33 bytes | TkBytes65 bytes

text \<open>The error of an envelope carries a message in the code.\<close>

datatype envelope_error = MissingProtocol | UnknownProtocol | MissingEndif | NotPushOnly

datatype lex_error =
    LexInscription envelope_error
  | InvalidInt bytes script_error
  | InvalidOpcode opcode
  | NegativeInt bytes int
  | NonMinimalVerify token
  | LexScript script_error

definition instruction_size :: "u8 \<Rightarrow> instruction \<Rightarrow> nat" where
  "instruction_size opcode instruction =
     (case instruction of
        Op _ \<Rightarrow> 1
      | PushBytes bytes \<Rightarrow>
          length bytes + (if opcode = 0x4c then 2 else if opcode = 0x4d then 3 else if opcode = 0x4e then 5 else 1))"

definition non_minimal_push :: "u8 \<Rightarrow> bytes \<Rightarrow> bool" where
  "non_minimal_push opcode bytes \<longleftrightarrow>
     opcode = 0x4c \<and> length bytes < 76
     \<or> opcode = 0x4d \<and> length bytes < 0x100
     \<or> opcode = 0x4e \<and> length bytes < 0x10000
     \<or> length bytes = 1 \<and> (hd bytes = 0x81 \<or> 1 \<le> hd bytes \<and> hd bytes \<le> 16)"

fun is_push_num :: "opcode \<Rightarrow> bool" where
  "is_push_num OP_PUSHNUM_NEG1 = True"
| "is_push_num (OP_PUSHNUM _) = True"
| "is_push_num _ = False"

text \<open>The loop over an envelope, up to its \<open>OP_ENDIF\<close>.\<close>

fun lex_envelope_items ::
    "bytes \<Rightarrow> instr_iter \<Rightarrow> nat \<Rightarrow> (lex_error + instr_iter \<times> nat) option" where
  "lex_envelope_items script [] position = Some (Inl (LexInscription MissingEndif))"
| "lex_envelope_items script (Inl e # it) position = Some (Inl (LexScript e))"
| "lex_envelope_items script (Inr item # it) position =
     (if length script \<le> position then None
      else (let position = position + instruction_size (script ! position) item in
            case item of
              PushBytes _ \<Rightarrow> lex_envelope_items script it position
            | Op opc \<Rightarrow>
                (if opc = OP_ENDIF then Some (Inr (it, position))
                 else if is_push_num opc then lex_envelope_items script it position
                 else Some (Inl (LexInscription NotPushOnly)))))"

definition lex_envelope :: "bytes \<Rightarrow> instr_iter \<Rightarrow> nat \<Rightarrow> (lex_error + instr_iter \<times> nat) option" where
  "lex_envelope script it position =
     (case it of
        [] \<Rightarrow> Some (Inl (LexInscription MissingProtocol))
      | Inl e # _ \<Rightarrow> Some (Inl (LexScript e))
      | Inr protocol # it' \<Rightarrow>
          (if length script \<le> position then None
           else if protocol \<noteq> PushBytes PROTOCOL_ID then Some (Inl (LexInscription UnknownProtocol))
           else lex_envelope_items script it' (position + instruction_size (script ! position) protocol)))"

text \<open>The tokens of an opcode; \<open>ret\<close> has the last token first.\<close>

definition lex_op :: "opcode \<Rightarrow> token list \<Rightarrow> lex_error + token list" where
  "lex_op opc ret =
     (case opc of
        OP_BOOLAND \<Rightarrow> Inr (TkBoolAnd # ret)
      | OP_BOOLOR \<Rightarrow> Inr (TkBoolOr # ret)
      | OP_EQUAL \<Rightarrow> Inr (TkEqual # ret)
      | OP_EQUALVERIFY \<Rightarrow> Inr (TkVerify # TkEqual # ret)
      | OP_NUMEQUAL \<Rightarrow> Inr (TkNumEqual # ret)
      | OP_NUMEQUALVERIFY \<Rightarrow> Inr (TkVerify # TkNumEqual # ret)
      | OP_CHECKSIG \<Rightarrow> Inr (TkCheckSig # ret)
      | OP_CHECKSIGVERIFY \<Rightarrow> Inr (TkVerify # TkCheckSig # ret)
      | OP_CHECKSIGADD \<Rightarrow> Inr (TkCheckSigAdd # ret)
      | OP_CHECKMULTISIG \<Rightarrow> Inr (TkCheckMultiSig # ret)
      | OP_CHECKMULTISIGVERIFY \<Rightarrow> Inr (TkVerify # TkCheckMultiSig # ret)
      | OP_CSV \<Rightarrow> Inr (TkCheckSequenceVerify # ret)
      | OP_NOP4 \<Rightarrow> Inr (TkCheckTemplateVerify # ret)
      | OP_CLTV \<Rightarrow> Inr (TkCheckLockTimeVerify # ret)
      | OP_FROMALTSTACK \<Rightarrow> Inr (TkFromAltStack # ret)
      | OP_TOALTSTACK \<Rightarrow> Inr (TkToAltStack # ret)
      | OP_DROP \<Rightarrow> Inr (TkDrop # ret)
      | OP_DUP \<Rightarrow> Inr (TkDup # ret)
      | OP_ADD \<Rightarrow> Inr (TkAdd # ret)
      | OP_IF \<Rightarrow> Inr (TkIf # ret)
      | OP_IFDUP \<Rightarrow> Inr (TkIfDup # ret)
      | OP_NOTIF \<Rightarrow> Inr (TkNotIf # ret)
      | OP_ELSE \<Rightarrow> Inr (TkElse # ret)
      | OP_ENDIF \<Rightarrow> Inr (TkEndIf # ret)
      | OP_0NOTEQUAL \<Rightarrow> Inr (TkZeroNotEqual # ret)
      | OP_SIZE \<Rightarrow> Inr (TkSize # ret)
      | OP_SWAP \<Rightarrow> Inr (TkSwap # ret)
      | OP_VERIFY \<Rightarrow>
          (case ret of
             TkEqual # _ \<Rightarrow> Inl (NonMinimalVerify TkEqual)
           | TkCheckSig # _ \<Rightarrow> Inl (NonMinimalVerify TkCheckSig)
           | TkCheckMultiSig # _ \<Rightarrow> Inl (NonMinimalVerify TkCheckMultiSig)
           | _ \<Rightarrow> Inr (TkVerify # ret))
      | OP_RIPEMD160 \<Rightarrow> Inr (TkRipemd160 # ret)
      | OP_HASH160 \<Rightarrow> Inr (TkHash160 # ret)
      | OP_SHA256 \<Rightarrow> Inr (TkSha256 # ret)
      | OP_HASH256 \<Rightarrow> Inr (TkHash256 # ret)
      | OP_FALSE \<Rightarrow> Inr (TkNum 0 # ret)
      | OP_PUSHNUM n \<Rightarrow> Inr (TkNum (of_nat n) # ret)
      | OP_PUSHNUM_NEG1 \<Rightarrow> Inl (InvalidOpcode opc)
      | OP_OTHER _ \<Rightarrow> Inl (InvalidOpcode opc))"

definition lex_push :: "script_lib \<Rightarrow> bytes \<Rightarrow> token list \<Rightarrow> lex_error + token list" where
  "lex_push S bytes ret =
     (if length bytes = 20 then Inr (TkHash20 bytes # ret)
      else if length bytes = 32 then Inr (TkBytes32 bytes # ret)
      else if length bytes = 33 then Inr (TkBytes33 bytes # ret)
      else if length bytes = 65 then Inr (TkBytes65 bytes # ret)
      else (case read_scriptint S bytes of
              Inr v \<Rightarrow> (if v \<ge> 0 then Inr (TkNum (word_of_int v) # ret) else Inl (NegativeInt bytes v))
            | Inl e \<Rightarrow> Inl (InvalidInt bytes e)))"

text \<open>\<open>script.as_bytes()[start - 1..position]\<close>: the subtraction must not underflow, and the range must be
  in order and inside the script.\<close>

definition envelope_bytes :: "nat \<Rightarrow> nat \<Rightarrow> bytes \<Rightarrow> bytes option" where
  "envelope_bytes start position script =
     (if start < 1 \<or> position < start - 1 \<or> length script < position then None
      else Some (take (position - (start - 1)) (drop (start - 1) script)))"

lemma lex_envelope_items_shorter:
  "lex_envelope_items script it position = Some (Inr (it', p)) \<Longrightarrow> length it' < length it"
  by (induction script it position rule: lex_envelope_items.induct)
    (auto simp: Let_def intro: less_SucI split: if_splits instruction.splits)

lemma lex_envelope_shorter:
  "lex_envelope script it position = Some (Inr (it', p)) \<Longrightarrow> length it' < length it"
  by (auto simp: lex_envelope_def split: list.splits sum.splits if_splits dest!: lex_envelope_items_shorter)

function lex_loop ::
    "script_lib \<Rightarrow> bytes \<Rightarrow> instr_iter \<Rightarrow> nat \<Rightarrow> token list \<Rightarrow> (lex_error + token list) option" where
  "lex_loop S script [] position ret = Some (Inr ret)"
| "lex_loop S script (Inl e # it) position ret = Some (Inl (LexScript e))"
| "lex_loop S script (Inr ins # it) start ret =
     (if length script \<le> start then None
      else (let opcode = script ! start;
                position = start + instruction_size opcode ins in
            case ins of
              PushBytes bytes \<Rightarrow>
                (if non_minimal_push opcode bytes then Some (Inl (LexScript NonMinimalPush))
                 else (case lex_push S bytes ret of
                         Inl e \<Rightarrow> Some (Inl e)
                       | Inr ret' \<Rightarrow> lex_loop S script it position ret'))
            | Op opc \<Rightarrow>
                (if opc = OP_IF \<and> ret \<noteq> [] \<and> hd ret = TkNum 0
                 then (case lex_envelope script it position of
                         None \<Rightarrow> None
                       | Some (Inl e) \<Rightarrow> Some (Inl e)
                       | Some (Inr (it', position')) \<Rightarrow>
                           (case envelope_bytes start position' script of
                              None \<Rightarrow> None
                            | Some env \<Rightarrow> lex_loop S script it' position' (TkInscription env # tl ret)))
                 else (case lex_op opc ret of
                         Inl e \<Rightarrow> Some (Inl e)
                       | Inr ret' \<Rightarrow> lex_loop S script it position ret'))))"
  by pat_completeness auto
termination
  by (relation "measure (\<lambda>(_, _, it, _, _). length it)") (auto dest!: lex_envelope_shorter)

definition lex_script :: "script_lib \<Rightarrow> bytes \<Rightarrow> (lex_error + token list) option" where
  "lex_script S script = lex_loop S script (instructions S script) 0 []"

end
