(* ===== verification/Build.thy ===== *)
theory Build
  imports TypeCheck
begin

section \<open>Constructors of leaf miniscripts\<close>

text \<open>
  The associated constants and functions of \<^verbatim>\<open>miniscript/mod.rs\<close> that build a
  miniscript without type checking: each writes the type and the extra data of its fragment down.  The
  theorem of this theory is that they write down what \<open>from_ast\<close> would compute.
\<close>

definition ms_TRUE :: "'pk miniscript" where
  "ms_TRUE = Miniscript TrueT ty_TRUE ext_TRUE"

definition ms_FALSE :: "'pk miniscript" where
  "ms_FALSE = Miniscript FalseT ty_FALSE ext_FALSE"

definition ms_pk_k :: "'pk key_ops \<Rightarrow> script_context \<Rightarrow> 'pk \<Rightarrow> 'pk miniscript" where
  "ms_pk_k K ctx pk = Miniscript (PkK pk) ty_pk_k (ext_pk_k (ctx_sig_type ctx) (is_uncompressed K pk))"

definition ms_pk_h :: "'pk key_ops \<Rightarrow> script_context \<Rightarrow> 'pk \<Rightarrow> 'pk miniscript" where
  "ms_pk_h K ctx pk = Miniscript (PkH pk) ty_pk_h (ext_pk_h (ctx_sig_type ctx) (Some (is_uncompressed K pk)))"

text \<open>\<open>pk\<close> and \<open>pkh\<close> unwrap the result of the cast.\<close>

definition ms_pk :: "'pk key_ops \<Rightarrow> script_context \<Rightarrow> 'pk \<Rightarrow> 'pk miniscript option" where
  "ms_pk K ctx pk =
     (let inner = ms_pk_k K ctx pk in
      case ty_cast_check (ms_ty inner) of
        Inl _ \<Rightarrow> None
      | Inr ty \<Rightarrow> Some (Miniscript (Check inner) ty (ext_cast_check (ms_ext inner))))"

definition ms_pkh :: "'pk key_ops \<Rightarrow> script_context \<Rightarrow> 'pk \<Rightarrow> 'pk miniscript option" where
  "ms_pkh K ctx pk =
     (let inner = ms_pk_h K ctx pk in
      case ty_cast_check (ms_ty inner) of
        Inl _ \<Rightarrow> None
      | Inr ty \<Rightarrow> Some (Miniscript (Check inner) ty (ext_cast_check (ms_ext inner))))"

definition ms_expr_raw_pkh :: "script_context \<Rightarrow> hash \<Rightarrow> 'pk miniscript" where
  "ms_expr_raw_pkh ctx h = Miniscript (RawPkH h) ty_pk_h (ext_pk_h (ctx_sig_type ctx) None)"

definition ms_after :: "btc \<Rightarrow> abs_lock_time \<Rightarrow> 'pk miniscript" where
  "ms_after L t = Miniscript (After t) ty_time (ext_after L t)"

definition ms_older :: "btc \<Rightarrow> rel_lock_time \<Rightarrow> 'pk miniscript" where
  "ms_older L t = Miniscript (Older t) ty_time (ext_older L t)"

definition ms_sha256 :: "hash \<Rightarrow> 'pk miniscript" where
  "ms_sha256 h = Miniscript (Sha256 h) ty_hash ext_sha256"

definition ms_hash256 :: "hash \<Rightarrow> 'pk miniscript" where
  "ms_hash256 h = Miniscript (Hash256 h) ty_hash ext_hash256"

definition ms_ripemd160 :: "hash \<Rightarrow> 'pk miniscript" where
  "ms_ripemd160 h = Miniscript (Ripemd160 h) ty_hash ext_ripemd160"

definition ms_hash160 :: "hash \<Rightarrow> 'pk miniscript" where
  "ms_hash160 h = Miniscript (Hash160 h) ty_hash ext_hash160"

definition ms_multi :: "'pk key_ops \<Rightarrow> 'pk threshold \<Rightarrow> 'pk miniscript" where
  "ms_multi K t = Miniscript (Multi t) ty_multi (ext_multi (is_uncompressed K) t)"

definition ms_multi_a :: "'pk threshold \<Rightarrow> 'pk miniscript" where
  "ms_multi_a t = Miniscript (MultiA t) ty_multi_a (ext_multi_a (thr_k t) (thr_n t))"

lemmas ms_leaf_defs =
  ms_TRUE_def ms_FALSE_def ms_pk_k_def ms_pk_h_def ms_expr_raw_pkh_def ms_after_def ms_older_def
  ms_sha256_def ms_hash256_def ms_ripemd160_def ms_hash160_def ms_multi_def ms_multi_a_def

text \<open>A miniscript whose cached data is right, with the extra data of its context.\<close>

definition built_ok :: "btc \<Rightarrow> 'pk key_ops \<Rightarrow> script_context \<Rightarrow> 'pk miniscript \<Rightarrow> bool" where
  "built_ok L K ctx ms \<longleftrightarrow> typed_ms ms \<and> ext_ms L K ctx ms"

lemma built_ok_leaves [simp]:
  "built_ok L K ctx ms_TRUE" "built_ok L K ctx ms_FALSE" "built_ok L K ctx (ms_pk_k K ctx pk)"
  "built_ok L K ctx (ms_pk_h K ctx pk)" "built_ok L K ctx (ms_after L a)" "built_ok L K ctx (ms_older L r)"
  "built_ok L K ctx (ms_expr_raw_pkh ctx h) = (length h = 20)"
  "built_ok L K ctx (ms_sha256 h) = (length h = 32)"
  "built_ok L K ctx (ms_hash256 h) = (length h = 32)"
  "built_ok L K ctx (ms_ripemd160 h) = (length h = 20)"
  "built_ok L K ctx (ms_hash160 h) = (length h = 20)"
  "built_ok L K ctx (ms_multi K t) = wf_threshold MAX_PUBKEYS_PER_MULTISIG t"
  "built_ok L K ctx (ms_multi_a t) = wf_threshold MAX_PUBKEYS_IN_CHECKSIGADD t"
  by (simp_all add: built_ok_def ms_leaf_defs)

lemma built_ok_from_ast:
  assumes "from_ast L K ctx t = Inr ms" "node_ok t" "\<And>c. c \<in> set (children t) \<Longrightarrow> built_ok L K ctx c"
  shows "built_ok L K ctx ms"
  using from_ast_wf [OF assms(1,2)] assms(3) by (auto simp: built_ok_def)

lemma ms_pk_total: "\<exists>ms. ms_pk K ctx pk = Some ms \<and> built_ok L K ctx ms"
  "\<exists>ms. ms_pkh K ctx pk = Some ms \<and> built_ok L K ctx ms"
  by (auto simp: ms_pk_def ms_pkh_def Let_def built_ok_def ms_leaf_defs ty_cast_check_def pair_type_def
      ty_pk_k_def ty_pk_h_def corr_cast_check_def corr_pk_k_def corr_pk_h_def split: sum.splits)

end
