(* ===== verification/Decode.thy ===== *)
theory Decode
  imports Lex Build Encode
begin

section \<open>The script decoder\<close>

text \<open>
  \<^verbatim>\<open>miniscript/decode.rs\<close>: the shift-reduce parser from tokens to a miniscript, with its
  stack of pending non-terminals and its stack of finished terms.  Both stacks, and the tokens, have
  their top first; the tokens are read from the end of the script.  \<open>Ctx::Key::from_slice\<close> is a
  parameter.  A panic (\<open>unwrap\<close> of an empty stack, the final assertions) is its own result, and the
  theory proves that it never is the result.
\<close>

record 'pk decoder =
  dc_lib :: btc
  dc_script :: script_lib
  dc_keys :: "'pk key_ops"
  dc_ctx :: script_context
  dc_from_slice :: "bytes \<Rightarrow> 'pk option"

datatype nonterm =
    NtExpression | NtWExpression | NtSwap | NtMaybeAndV | NtInscribePre
  | NtInscribePost "inscription list" | NtAlt | NtCheck | NtDupIf | NtVerify | NtNonZero
  | NtZeroNotEqual | NtAndV | NtAndB | NtTern | NtOrB | NtOrD | NtOrC
  | NtThreshW nat nat | NtThreshE nat nat   \<comment> \<open>\<open>k\<close>, \<open>n\<close>\<close>
  | NtEndIf | NtEndIfNotIf | NtEndIfElse

datatype decode_error =
    Unexpected token
  | UnexpectedStart
  | PubKeyCtxError
  | MsError ms_error
  | AbsoluteLockTimeError u32
  | RelativeLockTimeError u32
  | ThresholdErr threshold_error
  | InscriptionErr inscription_error
  | LexErr lex_error
  | Trailing token

datatype 'pk dec_result =
    DNext "nonterm list" "'pk miniscript list" "token list"
  | DErr decode_error
  | DPanic

subsection \<open>Matching tokens\<close>

text \<open>The macro \<open>match_token\<close> with a single row of constant patterns.\<close>

fun expect_toks :: "token list \<Rightarrow> token list \<Rightarrow> decode_error + token list" where
  "expect_toks [] toks = Inr toks"
| "expect_toks (e # es) [] = Inl UnexpectedStart"
| "expect_toks (e # es) (t # toks) = (if t = e then expect_toks es toks else Inl (Unexpected t))"

definition then_toks :: "token list \<Rightarrow> token list \<Rightarrow> (token list \<Rightarrow> 'pk dec_result) \<Rightarrow> 'pk dec_result" where
  "then_toks es toks k = (case expect_toks es toks of Inl e \<Rightarrow> DErr e | Inr rest \<Rightarrow> k rest)"

definition next_tok :: "token list \<Rightarrow> (token \<Rightarrow> token list \<Rightarrow> 'pk dec_result) \<Rightarrow> 'pk dec_result" where
  "next_tok toks k = (case toks of [] \<Rightarrow> DErr UnexpectedStart | t # rest \<Rightarrow> k t rest)"

definition is_and_v :: "token list \<Rightarrow> bool" where
  "is_and_v toks =
     (case toks of
        [] \<Rightarrow> False
      | t # _ \<Rightarrow> t \<notin> {TkIf, TkNotIf, TkElse, TkToAltStack, TkSwap})"

fun take_inscriptions ::
    "script_lib \<Rightarrow> inscription list \<Rightarrow> token list \<Rightarrow> decode_error + inscription list \<times> token list" where
  "take_inscriptions S acc (TkInscription script # toks) =
     (case parse_inscriptions S script of
        Inl e \<Rightarrow> Inl (InscriptionErr e)
      | Inr is \<Rightarrow> take_inscriptions S (acc @ rev is) toks)"
| "take_inscriptions S acc toks = Inr (rev acc, toks)"

definition peek_inscription :: "token list \<Rightarrow> bool" where
  "peek_inscription toks = (case toks of TkInscription _ # _ \<Rightarrow> True | _ \<Rightarrow> False)"

subsection \<open>The stack of terms\<close>

definition reduce0 ::
    "'pk decoder \<Rightarrow> nonterm list \<Rightarrow> 'pk miniscript list \<Rightarrow> token list
      \<Rightarrow> ('pk, 'pk miniscript) terminal \<Rightarrow> 'pk dec_result" where
  "reduce0 D nts terms toks t =
     (case from_ast (dc_lib D) (dc_keys D) (dc_ctx D) t of
        Inl e \<Rightarrow> DErr (MsError e)
      | Inr ms \<Rightarrow> DNext nts (ms # terms) toks)"

definition reduce1 ::
    "'pk decoder \<Rightarrow> nonterm list \<Rightarrow> 'pk miniscript list \<Rightarrow> token list
      \<Rightarrow> ('pk miniscript \<Rightarrow> ('pk, 'pk miniscript) terminal) \<Rightarrow> 'pk dec_result" where
  "reduce1 D nts terms toks wrap =
     (case terms of [] \<Rightarrow> DPanic | sub # rest \<Rightarrow> reduce0 D nts rest toks (wrap sub))"

definition reduce2 ::
    "'pk decoder \<Rightarrow> nonterm list \<Rightarrow> 'pk miniscript list \<Rightarrow> token list
      \<Rightarrow> ('pk miniscript \<Rightarrow> 'pk miniscript \<Rightarrow> ('pk, 'pk miniscript) terminal) \<Rightarrow> 'pk dec_result" where
  "reduce2 D nts terms toks wrap =
     (case terms of
        left # right # rest \<Rightarrow> reduce0 D nts rest toks (wrap left right)
      | _ \<Rightarrow> DPanic)"

subsection \<open>Keys of multisignatures\<close>

text \<open>\<open>n\<close> keys, in the order they are read.\<close>

fun take_keys :: "'pk decoder \<Rightarrow> nat \<Rightarrow> token list \<Rightarrow> decode_error + 'pk list \<times> token list" where
  "take_keys D 0 toks = Inr ([], toks)"
| "take_keys D (Suc n) [] = Inl UnexpectedStart"
| "take_keys D (Suc n) (t # toks) =
     (case (case t of TkBytes33 b \<Rightarrow> Some b | TkBytes65 b \<Rightarrow> Some b | _ \<Rightarrow> None) of
        None \<Rightarrow> Inl (Unexpected t)
      | Some b \<Rightarrow>
          (case dc_from_slice D b of
             None \<Rightarrow> Inl PubKeyCtxError
           | Some pk \<Rightarrow>
               (case take_keys D n toks of
                  Inl e \<Rightarrow> Inl e
                | Inr (pks, rest) \<Rightarrow> Inr (pk # pks, rest))))"

text \<open>One key after an opcode; \<open>multi_a\<close> has \<open>CHECKSIGADD\<close> for all but its first key.\<close>

definition take_key32 :: "'pk decoder \<Rightarrow> token list \<Rightarrow> decode_error + 'pk \<times> token list" where
  "take_key32 D toks =
     (case toks of
        [] \<Rightarrow> Inl UnexpectedStart
      | TkBytes32 b # rest \<Rightarrow>
          (case dc_from_slice D b of None \<Rightarrow> Inl PubKeyCtxError | Some pk \<Rightarrow> Inr (pk, rest))
      | t # rest \<Rightarrow> Inl (Unexpected t))"

lemma take_key32_length: "take_key32 D toks = Inr (pk, rest) \<Longrightarrow> length toks = Suc (length rest)"
  by (auto simp: take_key32_def split: list.splits token.splits option.splits)

function take_checksigadd_keys :: "'pk decoder \<Rightarrow> token list \<Rightarrow> decode_error + 'pk list \<times> token list" where
  "take_checksigadd_keys D toks =
     (if toks \<noteq> [] \<and> hd toks = TkCheckSigAdd
      then (case take_key32 D (tl toks) of
              Inl e \<Rightarrow> Inl e
            | Inr (pk, rest) \<Rightarrow>
                (case take_checksigadd_keys D rest of
                   Inl e \<Rightarrow> Inl e
                 | Inr (pks, rest') \<Rightarrow> Inr (pk # pks, rest')))
      else Inr ([], toks))"
  by auto
termination
  by (relation "measure (length \<circ> snd)") (auto dest!: take_key32_length simp: neq_Nil_conv)

declare take_checksigadd_keys.simps [simp del]

subsection \<open>The handler of an expression\<close>

definition hash_toks :: "token \<Rightarrow> token list" where
  "hash_toks h = [h, TkVerify, TkEqual, TkNum 32, TkSize]"

definition push_key ::
    "'pk decoder \<Rightarrow> nonterm list \<Rightarrow> 'pk miniscript list \<Rightarrow> bytes \<Rightarrow> token list \<Rightarrow> 'pk dec_result" where
  "push_key D nts terms b toks =
     (case dc_from_slice D b of
        None \<Rightarrow> DErr PubKeyCtxError
      | Some pk \<Rightarrow> DNext nts (ms_pk_k (dc_keys D) (dc_ctx D) pk # terms) toks)"

text \<open>After \<open>VERIFY\<close>: a pubkey hash, a hash lock or a threshold under \<open>v:\<close>, or any other
  expression under \<open>v:\<close>.\<close>

definition step_verify ::
    "'pk decoder \<Rightarrow> nonterm list \<Rightarrow> 'pk miniscript list \<Rightarrow> token list \<Rightarrow> 'pk dec_result" where
  "step_verify D nts terms toks =
     next_tok toks (\<lambda>t rest.
       case t of
         TkEqual \<Rightarrow>
           next_tok rest (\<lambda>t rest.
             case t of
               TkHash20 h \<Rightarrow>
                 next_tok rest (\<lambda>t rest.
                   case t of
                     TkHash160 \<Rightarrow>
                       next_tok rest (\<lambda>t rest.
                         case t of
                           TkDup \<Rightarrow> DNext nts (ms_expr_raw_pkh (dc_ctx D) h # terms) rest
                         | TkVerify \<Rightarrow>
                             then_toks [TkEqual, TkNum 32, TkSize] rest
                               (\<lambda>rest. DNext (NtVerify # nts) (ms_hash160 h # terms) rest)
                         | _ \<Rightarrow> DErr (Unexpected t))
                   | TkRipemd160 \<Rightarrow>
                       then_toks [TkVerify, TkEqual, TkNum 32, TkSize] rest
                         (\<lambda>rest. DNext (NtVerify # nts) (ms_ripemd160 h # terms) rest)
                   | _ \<Rightarrow> DErr (Unexpected t))
             | TkBytes32 h \<Rightarrow>
                 next_tok rest (\<lambda>t rest.
                   case t of
                     TkSha256 \<Rightarrow>
                       then_toks [TkVerify, TkEqual, TkNum 32, TkSize] rest
                         (\<lambda>rest. DNext (NtVerify # nts) (ms_sha256 h # terms) rest)
                   | TkHash256 \<Rightarrow>
                       then_toks [TkVerify, TkEqual, TkNum 32, TkSize] rest
                         (\<lambda>rest. DNext (NtVerify # nts) (ms_hash256 h # terms) rest)
                   | _ \<Rightarrow> DErr (Unexpected t))
             | TkNum k \<Rightarrow> DNext (NtThreshW (unat k) 0 # NtVerify # nts) terms rest
             | _ \<Rightarrow> DErr (Unexpected t))
       | _ \<Rightarrow> DNext (NtExpression # NtVerify # nts) terms toks)"

definition step_equal ::
    "'pk decoder \<Rightarrow> nonterm list \<Rightarrow> 'pk miniscript list \<Rightarrow> token list \<Rightarrow> 'pk dec_result" where
  "step_equal D nts terms toks =
     next_tok toks (\<lambda>t rest.
       case t of
         TkBytes32 h \<Rightarrow>
           next_tok rest (\<lambda>t rest.
             case t of
               TkSha256 \<Rightarrow>
                 then_toks [TkVerify, TkEqual, TkNum 32, TkSize] rest
                   (\<lambda>rest. DNext nts (ms_sha256 h # terms) rest)
             | TkHash256 \<Rightarrow>
                 then_toks [TkVerify, TkEqual, TkNum 32, TkSize] rest
                   (\<lambda>rest. DNext nts (ms_hash256 h # terms) rest)
             | _ \<Rightarrow> DErr (Unexpected t))
       | TkHash20 h \<Rightarrow>
           next_tok rest (\<lambda>t rest.
             case t of
               TkRipemd160 \<Rightarrow>
                 then_toks [TkVerify, TkEqual, TkNum 32, TkSize] rest
                   (\<lambda>rest. DNext nts (ms_ripemd160 h # terms) rest)
             | TkHash160 \<Rightarrow>
                 then_toks [TkVerify, TkEqual, TkNum 32, TkSize] rest
                   (\<lambda>rest. DNext nts (ms_hash160 h # terms) rest)
             | _ \<Rightarrow> DErr (Unexpected t))
       | TkNum k \<Rightarrow> DNext (NtThreshW (unat k) 0 # nts) terms rest
       | _ \<Rightarrow> DErr (Unexpected t))"

definition step_checkmultisig ::
    "'pk decoder \<Rightarrow> nonterm list \<Rightarrow> 'pk miniscript list \<Rightarrow> token list \<Rightarrow> 'pk dec_result" where
  "step_checkmultisig D nts terms toks =
     next_tok toks (\<lambda>t rest.
       case t of
         TkNum n \<Rightarrow>
           (case validate_k_n MAX_PUBKEYS_PER_MULTISIG 1 (unat n) of
              Inl e \<Rightarrow> DErr (ThresholdErr e)
            | Inr _ \<Rightarrow>
                (case take_keys D (unat n) rest of
                   Inl e \<Rightarrow> DErr e
                 | Inr (keys, rest) \<Rightarrow>
                     next_tok rest (\<lambda>t rest.
                       case t of
                         TkNum k \<Rightarrow>
                           (case threshold_new MAX_PUBKEYS_PER_MULTISIG (unat k) (rev keys) of
                              Inl e \<Rightarrow> DErr (ThresholdErr e)
                            | Inr thresh \<Rightarrow> DNext nts (ms_multi (dc_keys D) thresh # terms) rest)
                       | _ \<Rightarrow> DErr (Unexpected t))))
       | _ \<Rightarrow> DErr (Unexpected t))"

definition step_numequal ::
    "'pk decoder \<Rightarrow> nonterm list \<Rightarrow> 'pk miniscript list \<Rightarrow> token list \<Rightarrow> 'pk dec_result" where
  "step_numequal D nts terms toks =
     next_tok toks (\<lambda>t rest.
       case t of
         TkNum k \<Rightarrow>
           (case validate_k_n MAX_PUBKEYS_IN_CHECKSIGADD (unat k) (unat k) of
              Inl e \<Rightarrow> DErr (ThresholdErr e)
            | Inr _ \<Rightarrow>
                (case take_checksigadd_keys D rest of
                   Inl e \<Rightarrow> DErr e
                 | Inr (keys, rest) \<Rightarrow>
                     then_toks [TkCheckSig] rest (\<lambda>rest.
                       case take_key32 D rest of
                         Inl e \<Rightarrow> DErr e
                       | Inr (pk, rest) \<Rightarrow>
                           (case threshold_new MAX_PUBKEYS_IN_CHECKSIGADD (unat k) (rev (keys @ [pk])) of
                              Inl e \<Rightarrow> DErr (ThresholdErr e)
                            | Inr thresh \<Rightarrow> DNext nts (ms_multi_a thresh # terms) rest))))
       | _ \<Rightarrow> DErr (Unexpected t))"

definition step_expression ::
    "'pk decoder \<Rightarrow> nonterm list \<Rightarrow> 'pk miniscript list \<Rightarrow> token list \<Rightarrow> 'pk dec_result" where
  "step_expression D nts0 terms toks =
     (let nts = NtInscribePre # nts0 in
      next_tok toks (\<lambda>t rest.
        case t of
          TkInscription _ \<Rightarrow>
            (case take_inscriptions (dc_script D) [] toks of
               Inl e \<Rightarrow> DErr e
             | Inr (is, rest) \<Rightarrow> DNext (NtExpression # NtInscribePost is # nts) terms rest)
        | TkBytes33 b \<Rightarrow> push_key D nts terms b rest
        | TkBytes65 b \<Rightarrow> push_key D nts terms b rest
        | TkBytes32 b \<Rightarrow> push_key D nts terms b rest
        | TkDrop \<Rightarrow>
            then_toks [TkCheckTemplateVerify] rest (\<lambda>rest.
              next_tok rest (\<lambda>t rest.
                case t of
                  TkBytes32 h \<Rightarrow> reduce0 D nts terms rest (TxTemplate h)
                | _ \<Rightarrow> DErr (Unexpected t)))
        | TkCheckSig \<Rightarrow> DNext (NtExpression # NtCheck # nts) terms rest
        | TkVerify \<Rightarrow> step_verify D nts terms rest
        | TkZeroNotEqual \<Rightarrow> DNext (NtExpression # NtZeroNotEqual # nts) terms rest
        | TkCheckSequenceVerify \<Rightarrow>
            next_tok rest (\<lambda>t rest.
              case t of
                TkNum n \<Rightarrow>
                  (case rel_lock_time_from_consensus (dc_lib D) n of
                     Inl e \<Rightarrow> DErr (RelativeLockTimeError e)
                   | Inr t \<Rightarrow> DNext nts (ms_older (dc_lib D) t # terms) rest)
              | _ \<Rightarrow> DErr (Unexpected t))
        | TkCheckLockTimeVerify \<Rightarrow>
            next_tok rest (\<lambda>t rest.
              case t of
                TkNum n \<Rightarrow>
                  (case abs_lock_time_from_consensus n of
                     Inl e \<Rightarrow> DErr (AbsoluteLockTimeError e)
                   | Inr t \<Rightarrow> DNext nts (ms_after (dc_lib D) t # terms) rest)
              | _ \<Rightarrow> DErr (Unexpected t))
        | TkEqual \<Rightarrow> step_equal D nts terms rest
        | TkNum n \<Rightarrow>
            (if n = 0 then DNext nts (ms_FALSE # terms) rest
             else if n = 1 then DNext nts (ms_TRUE # terms) rest
             else DErr (Unexpected t))
        | TkEndIf \<Rightarrow> DNext (NtExpression # NtMaybeAndV # NtEndIf # nts) terms rest
        | TkBoolAnd \<Rightarrow> DNext (NtWExpression # NtExpression # NtAndB # nts) terms rest
        | TkBoolOr \<Rightarrow> DNext (NtWExpression # NtExpression # NtOrB # nts) terms rest
        | TkCheckMultiSig \<Rightarrow> step_checkmultisig D nts terms rest
        | TkNumEqual \<Rightarrow> step_numequal D nts terms rest
        | _ \<Rightarrow> DErr (Unexpected t)))"

subsection \<open>The other handlers\<close>

definition step_inscribe_pre ::
    "'pk decoder \<Rightarrow> nonterm list \<Rightarrow> 'pk miniscript list \<Rightarrow> token list \<Rightarrow> 'pk dec_result" where
  "step_inscribe_pre D nts terms toks =
     (if peek_inscription toks
      then (case take_inscriptions (dc_script D) [] toks of
              Inl e \<Rightarrow> DErr e
            | Inr (is, rest) \<Rightarrow> reduce1 D nts terms rest (InscribePre is))
      else DNext nts terms toks)"

definition step_tern ::
    "'pk decoder \<Rightarrow> nonterm list \<Rightarrow> 'pk miniscript list \<Rightarrow> token list \<Rightarrow> 'pk dec_result" where
  "step_tern D nts terms toks =
     (case terms of
        a # b # c # rest \<Rightarrow> reduce0 D nts rest toks (AndOr a c b)
      | _ \<Rightarrow> DPanic)"

definition step_thresh_e ::
    "'pk decoder \<Rightarrow> nat \<Rightarrow> nat \<Rightarrow> nonterm list \<Rightarrow> 'pk miniscript list \<Rightarrow> token list \<Rightarrow> 'pk dec_result" where
  "step_thresh_e D k n nts terms toks =
     (if length terms < n then DPanic
      else (case threshold_new 0 k (take n terms) of
              Inl e \<Rightarrow> DErr (ThresholdErr e)
            | Inr thresh \<Rightarrow> reduce0 D nts (drop n terms) toks (Thresh thresh)))"

definition step_endif ::
    "nonterm list \<Rightarrow> 'pk miniscript list \<Rightarrow> token list \<Rightarrow> 'pk dec_result" where
  "step_endif nts terms toks =
     next_tok toks (\<lambda>t rest.
       case t of
         TkElse \<Rightarrow> DNext (NtExpression # NtMaybeAndV # NtEndIfElse # nts) terms rest
       | TkIf \<Rightarrow>
           next_tok rest (\<lambda>t rest.
             case t of
               TkDup \<Rightarrow> DNext (NtDupIf # nts) terms rest
             | TkZeroNotEqual \<Rightarrow> then_toks [TkSize] rest (\<lambda>rest. DNext (NtNonZero # nts) terms rest)
             | _ \<Rightarrow> DErr (Unexpected t))
       | TkNotIf \<Rightarrow> DNext (NtEndIfNotIf # nts) terms rest
       | _ \<Rightarrow> DErr (Unexpected t))"

definition step_endif_notif ::
    "nonterm list \<Rightarrow> 'pk miniscript list \<Rightarrow> token list \<Rightarrow> 'pk dec_result" where
  "step_endif_notif nts terms toks =
     next_tok toks (\<lambda>t rest.
       case t of
         TkIfDup \<Rightarrow> DNext (NtExpression # NtOrD # nts) terms rest
       | _ \<Rightarrow> DNext (NtExpression # NtOrC # nts) terms toks)"

definition step_endif_else ::
    "'pk decoder \<Rightarrow> nonterm list \<Rightarrow> 'pk miniscript list \<Rightarrow> token list \<Rightarrow> 'pk dec_result" where
  "step_endif_else D nts terms toks =
     next_tok toks (\<lambda>t rest.
       case t of
         TkIf \<Rightarrow> reduce2 D nts terms rest OrI
       | TkNotIf \<Rightarrow> DNext (NtExpression # NtTern # nts) terms rest
       | _ \<Rightarrow> DErr (Unexpected t))"

definition step_wexpression ::
    "'pk decoder \<Rightarrow> nonterm list \<Rightarrow> 'pk miniscript list \<Rightarrow> token list \<Rightarrow> 'pk dec_result" where
  "step_wexpression D nts0 terms toks =
     (let nts = NtInscribePre # nts0 in
      if peek_inscription toks
      then (case take_inscriptions (dc_script D) [] toks of
              Inl e \<Rightarrow> DErr e
            | Inr (is, rest) \<Rightarrow> DNext (NtWExpression # NtInscribePost is # nts) terms rest)
      else next_tok toks (\<lambda>t rest.
             case t of
               TkFromAltStack \<Rightarrow> DNext (NtExpression # NtMaybeAndV # NtAlt # nts) terms rest
             | _ \<Rightarrow> DNext (NtExpression # NtMaybeAndV # NtSwap # nts) terms toks))"

text \<open>One pass through the loop, for the popped non-terminal.\<close>

fun decode_step ::
    "'pk decoder \<Rightarrow> nonterm \<Rightarrow> nonterm list \<Rightarrow> 'pk miniscript list \<Rightarrow> token list \<Rightarrow> 'pk dec_result" where
  "decode_step D NtExpression nts terms toks = step_expression D nts terms toks"
| "decode_step D NtInscribePre nts terms toks = step_inscribe_pre D nts terms toks"
| "decode_step D (NtInscribePost is) nts terms toks = reduce1 D nts terms toks (InscribePost is)"
| "decode_step D NtMaybeAndV nts terms toks =
     DNext (if is_and_v toks then NtExpression # NtAndV # nts else nts) terms toks"
| "decode_step D NtSwap nts terms toks =
     then_toks [TkSwap] toks (\<lambda>rest. reduce1 D nts terms rest Swap)"
| "decode_step D NtAlt nts terms toks =
     then_toks [TkToAltStack] toks (\<lambda>rest. reduce1 D nts terms rest Alt)"
| "decode_step D NtCheck nts terms toks = reduce1 D nts terms toks Check"
| "decode_step D NtDupIf nts terms toks = reduce1 D nts terms toks DupIf"
| "decode_step D NtVerify nts terms toks = reduce1 D nts terms toks Verify"
| "decode_step D NtNonZero nts terms toks = reduce1 D nts terms toks NonZero"
| "decode_step D NtZeroNotEqual nts terms toks = reduce1 D nts terms toks ZeroNotEqual"
| "decode_step D NtAndV nts terms toks =
     (if is_and_v toks then DNext (NtMaybeAndV # NtAndV # nts) terms toks
      else reduce2 D nts terms toks AndV)"
| "decode_step D NtAndB nts terms toks = reduce2 D nts terms toks AndB"
| "decode_step D NtOrB nts terms toks = reduce2 D nts terms toks OrB"
| "decode_step D NtOrC nts terms toks = reduce2 D nts terms toks OrC"
| "decode_step D NtOrD nts terms toks = reduce2 D nts terms toks OrD"
| "decode_step D NtTern nts terms toks = step_tern D nts terms toks"
| "decode_step D (NtThreshW k n) nts terms toks =
     next_tok toks (\<lambda>t rest.
       case t of
         TkAdd \<Rightarrow> DNext (NtWExpression # NtThreshW k (n + 1) # nts) terms rest
       | _ \<Rightarrow> DNext (NtExpression # NtThreshE k (n + 1) # nts) terms toks)"
| "decode_step D (NtThreshE k n) nts terms toks = step_thresh_e D k n nts terms toks"
| "decode_step D NtEndIf nts terms toks = step_endif nts terms toks"
| "decode_step D NtEndIfNotIf nts terms toks = step_endif_notif nts terms toks"
| "decode_step D NtEndIfElse nts terms toks = step_endif_else D nts terms toks"
| "decode_step D NtWExpression nts terms toks = step_wexpression D nts terms toks"

subsection \<open>Termination\<close>

lemma take_inscriptions_length:
  "take_inscriptions S acc toks = Inr (is, rest) \<Longrightarrow> length rest \<le> length toks"
  by (induction S acc toks rule: take_inscriptions.induct) (auto intro: le_SucI split: sum.splits)

lemma take_inscriptions_less:
  "take_inscriptions S acc toks = Inr (is, rest) \<Longrightarrow> peek_inscription toks \<Longrightarrow> length rest < length toks"
  by (auto simp: peek_inscription_def less_Suc_eq_le dest!: take_inscriptions_length
      split: list.splits token.splits sum.splits)

lemma take_keys_length: "take_keys D n toks = Inr (pks, rest) \<Longrightarrow> length toks = n + length rest \<and> length pks = n"
  by (induction D n toks arbitrary: pks rule: take_keys.induct) (auto split: option.splits sum.splits)

lemma take_checksigadd_keys_length:
  "take_checksigadd_keys D toks = Inr (pks, rest) \<Longrightarrow> length rest \<le> length toks"
proof (induction D toks arbitrary: pks rule: take_checksigadd_keys.induct)
  case (1 D toks)
  show ?case
  proof (cases "toks \<noteq> [] \<and> hd toks = TkCheckSigAdd")
    case True
    from 1(2) obtain pk r pks' where r: "take_key32 D (tl toks) = Inr (pk, r)"
      "take_checksigadd_keys D r = Inr (pks', rest)"
      unfolding take_checksigadd_keys.simps [of D toks] by (auto simp: True split: sum.splits)
    have "length rest \<le> length r" using 1(1) [OF True r(1) refl r(2)] .
    then show ?thesis using take_key32_length [OF r(1)] True by (cases toks) auto
  next
    case False
    with 1(2) show ?thesis by (simp add: take_checksigadd_keys.simps [of D toks])
  qed
qed

lemma expect_toks_Inr: "expect_toks es toks = Inr rest \<longleftrightarrow> toks = es @ rest"
  by (induction es toks rule: expect_toks.induct) auto

text \<open>What holds of the next state, whatever the handler reads: \<open>wp p r Q\<close> says that \<open>Q\<close> holds if the
  result is a state; a panic is allowed when \<open>p\<close> is true, an error always.\<close>

fun wp :: "bool \<Rightarrow> 'pk dec_result \<Rightarrow> (nonterm list \<Rightarrow> 'pk miniscript list \<Rightarrow> token list \<Rightarrow> bool) \<Rightarrow> bool" where
  "wp p (DNext nts terms toks) Q = Q nts terms toks"
| "wp p (DErr e) Q = True"
| "wp p DPanic Q = p"

lemma wp_mono: "wp p r Q \<Longrightarrow> (\<And>a b c. Q a b c \<Longrightarrow> Q' a b c) \<Longrightarrow> wp p r Q'"
  by (cases r) auto

lemma wp_DNext: "wp p r Q \<Longrightarrow> r = DNext a b c \<Longrightarrow> Q a b c"
  by simp

lemma wp_no_panic: "wp False r Q \<Longrightarrow> r \<noteq> DPanic"
  by auto

lemma wp_toks:
  "wp p (then_toks es toks k) Q \<longleftrightarrow> (\<forall>rest. toks = es @ rest \<longrightarrow> wp p (k rest) Q)"
  "wp p (next_tok toks k2) Q \<longleftrightarrow> (\<forall>t rest. toks = t # rest \<longrightarrow> wp p (k2 t rest) Q)"
  by (auto simp: then_toks_def next_tok_def expect_toks_Inr [symmetric] split: sum.splits list.splits)

lemma wp_reduce0:
  "wp p (reduce0 D nts terms toks t) Q \<longleftrightarrow>
     (\<forall>ms. from_ast (dc_lib D) (dc_keys D) (dc_ctx D) t = Inr ms \<longrightarrow> Q nts (ms # terms) toks)"
  by (auto simp: reduce0_def split: sum.splits)

lemma wp_reduce1:
  "wp p (reduce1 D nts terms toks f) Q \<longleftrightarrow>
     (terms = [] \<longrightarrow> p) \<and> (\<forall>x r. terms = x # r \<longrightarrow> wp p (reduce0 D nts r toks (f x)) Q)"
  by (cases terms) (simp_all add: reduce1_def)

lemma wp_reduce2:
  "wp p (reduce2 D nts terms toks g) Q \<longleftrightarrow>
     (length terms < 2 \<longrightarrow> p) \<and> (\<forall>x y r. terms = x # y # r \<longrightarrow> wp p (reduce0 D nts r toks (g x y)) Q)"
  by (auto simp: reduce2_def split: list.splits)

lemma wp_cases:
  "wp p (case x of Inl e \<Rightarrow> DErr (f e) | Inr v \<Rightarrow> g v) Q \<longleftrightarrow> (\<forall>v. x = Inr v \<longrightarrow> wp p (g v) Q)"
  "wp p (case y of None \<Rightarrow> DErr e | Some w \<Rightarrow> h w) Q \<longleftrightarrow> (\<forall>w. y = Some w \<longrightarrow> wp p (h w) Q)"
  "wp p (case z of (u, v) \<Rightarrow> i u v) Q \<longleftrightarrow> (\<forall>u v. z = (u, v) \<longrightarrow> wp p (i u v) Q)"
  "wp p (if b then r else r') Q \<longleftrightarrow> (b \<longrightarrow> wp p r Q) \<and> (\<not> b \<longrightarrow> wp p r' Q)"
  by (cases x; cases y; cases z; simp)+

text \<open>The token matches of the handlers.\<close>

lemma wp_token_cases:
  "wp p (case t of TkEqual \<Rightarrow> A | _ \<Rightarrow> B) Q \<longleftrightarrow> (t = TkEqual \<longrightarrow> wp p A Q) \<and> (t \<noteq> TkEqual \<longrightarrow> wp p B Q)"
  "wp p (case t of TkAdd \<Rightarrow> A | _ \<Rightarrow> B) Q \<longleftrightarrow> (t = TkAdd \<longrightarrow> wp p A Q) \<and> (t \<noteq> TkAdd \<longrightarrow> wp p B Q)"
  "wp p (case t of TkIfDup \<Rightarrow> A | _ \<Rightarrow> B) Q \<longleftrightarrow> (t = TkIfDup \<longrightarrow> wp p A Q) \<and> (t \<noteq> TkIfDup \<longrightarrow> wp p B Q)"
  "wp p (case t of TkFromAltStack \<Rightarrow> A | _ \<Rightarrow> B) Q \<longleftrightarrow>
     (t = TkFromAltStack \<longrightarrow> wp p A Q) \<and> (t \<noteq> TkFromAltStack \<longrightarrow> wp p B Q)"
  "wp p (case t of TkHash20 h \<Rightarrow> F h | TkBytes32 h \<Rightarrow> G h | TkNum k \<Rightarrow> H k | _ \<Rightarrow> DErr e) Q \<longleftrightarrow>
     (\<forall>h. t = TkHash20 h \<longrightarrow> wp p (F h) Q) \<and> (\<forall>h. t = TkBytes32 h \<longrightarrow> wp p (G h) Q)
     \<and> (\<forall>k. t = TkNum k \<longrightarrow> wp p (H k) Q)"
  "wp p (case t of TkHash160 \<Rightarrow> A | TkRipemd160 \<Rightarrow> B | _ \<Rightarrow> DErr e) Q \<longleftrightarrow>
     (t = TkHash160 \<longrightarrow> wp p A Q) \<and> (t = TkRipemd160 \<longrightarrow> wp p B Q)"
  "wp p (case t of TkDup \<Rightarrow> A | TkVerify \<Rightarrow> B | _ \<Rightarrow> DErr e) Q \<longleftrightarrow>
     (t = TkDup \<longrightarrow> wp p A Q) \<and> (t = TkVerify \<longrightarrow> wp p B Q)"
  "wp p (case t of TkSha256 \<Rightarrow> A | TkHash256 \<Rightarrow> B | _ \<Rightarrow> DErr e) Q \<longleftrightarrow>
     (t = TkSha256 \<longrightarrow> wp p A Q) \<and> (t = TkHash256 \<longrightarrow> wp p B Q)"
  "wp p (case t of TkNum n \<Rightarrow> H n | _ \<Rightarrow> DErr e) Q \<longleftrightarrow> (\<forall>n. t = TkNum n \<longrightarrow> wp p (H n) Q)"
  "wp p (case t of TkBytes32 h \<Rightarrow> F h | _ \<Rightarrow> DErr e) Q \<longleftrightarrow> (\<forall>h. t = TkBytes32 h \<longrightarrow> wp p (F h) Q)"
  "wp p (case t of TkElse \<Rightarrow> A | TkIf \<Rightarrow> B | TkNotIf \<Rightarrow> C | _ \<Rightarrow> DErr e) Q \<longleftrightarrow>
     (t = TkElse \<longrightarrow> wp p A Q) \<and> (t = TkIf \<longrightarrow> wp p B Q) \<and> (t = TkNotIf \<longrightarrow> wp p C Q)"
  "wp p (case t of TkIf \<Rightarrow> A | TkNotIf \<Rightarrow> B | _ \<Rightarrow> DErr e) Q \<longleftrightarrow>
     (t = TkIf \<longrightarrow> wp p A Q) \<and> (t = TkNotIf \<longrightarrow> wp p B Q)"
  "wp p (case t of TkDup \<Rightarrow> A | TkZeroNotEqual \<Rightarrow> B | _ \<Rightarrow> DErr e) Q \<longleftrightarrow>
     (t = TkDup \<longrightarrow> wp p A Q) \<and> (t = TkZeroNotEqual \<longrightarrow> wp p B Q)"
  by (cases t; simp)+

lemmas wp_simps = wp.simps wp_toks wp_reduce0 wp_reduce1 wp_reduce2 wp_cases wp_token_cases

text \<open>How far a handler gets: tokens consumed, and non-terminals pushed.\<close>

definition consumes :: "nat \<Rightarrow> nat \<Rightarrow> nat \<Rightarrow> nonterm list \<Rightarrow> 'pk miniscript list \<Rightarrow> token list \<Rightarrow> bool" where
  "consumes n l m a b c \<longleftrightarrow> length c + n \<le> l \<and> length a \<le> m"

lemma consumes_mono: "consumes n l m a b c \<Longrightarrow> n' \<le> n \<Longrightarrow> l \<le> l' \<Longrightarrow> m \<le> m' \<Longrightarrow> consumes n' l' m' a b c"
  by (simp add: consumes_def)

lemma step_verify_consumes: "wp True (step_verify D nts terms toks) (consumes 0 (length toks) (length nts + 2))"
  unfolding step_verify_def by (auto simp: wp_simps consumes_def)

lemma step_equal_consumes: "wp True (step_equal D nts terms toks) (consumes 0 (length toks) (length nts + 2))"
  unfolding step_equal_def by (auto simp: wp_simps consumes_def)

lemma step_checkmultisig_consumes:
  "wp True (step_checkmultisig D nts terms toks) (consumes 0 (length toks) (length nts + 2))"
  unfolding step_checkmultisig_def by (auto simp: wp_simps consumes_def dest!: take_keys_length)

lemma step_numequal_consumes:
  "wp True (step_numequal D nts terms toks) (consumes 0 (length toks) (length nts + 2))"
  unfolding step_numequal_def
  by (auto simp: wp_simps consumes_def dest!: take_checksigadd_keys_length take_key32_length)

lemma step_expression_consumes:
  "wp True (step_expression D nts terms toks) (consumes 1 (length toks) (length nts + 4))"
proof (cases toks)
  case Nil
  then show ?thesis by (simp add: step_expression_def Let_def next_tok_def)
next
  case (Cons t rest)
  note sub = step_verify_consumes step_equal_consumes step_checkmultisig_consumes step_numequal_consumes
  note mono = wp_mono [OF sub(1)] wp_mono [OF sub(2)] wp_mono [OF sub(3)] wp_mono [OF sub(4)]
  have next_t: "next_tok toks k = k t rest" for k :: "token \<Rightarrow> token list \<Rightarrow> 'a dec_result"
    by (simp add: next_tok_def Cons)
  show ?thesis
    using take_inscriptions_less [of "dc_script D" "[]" toks]
    unfolding step_expression_def Let_def next_t
    by (cases t; simp)
      (auto simp: wp_simps push_key_def peek_inscription_def Cons consumes_def less_Suc_eq_le intro!: mono)
qed

text \<open>The measure of a state.  An expression consumes a token, which pays for what it pushes; \<open>and_v\<close>
  pushes without consuming, but only on the way to an expression.\<close>

definition decode_measure :: "nonterm list \<Rightarrow> token list \<Rightarrow> nat" where
  "decode_measure nts toks =
     100 * length toks + length nts
     + (case nts of
          NtExpression # _ \<Rightarrow> 0
        | NtMaybeAndV # _ \<Rightarrow> (if is_and_v toks then 10 else 50)
        | _ \<Rightarrow> 50)"

lemma decode_measure_bounds:
  "100 * length toks + length nts \<le> decode_measure nts toks"
  "decode_measure nts toks \<le> 100 * length toks + length nts + 50"
  by (auto simp: decode_measure_def split: list.splits nonterm.splits)

lemma decode_measure_consumed:
  assumes "length c < length toks" "length a \<le> length nts + 4"
  shows "decode_measure a c < decode_measure nts toks"
  using assms decode_measure_bounds(1) [of toks nts] decode_measure_bounds(2) [of a c] by linarith

lemma decode_measure_popped:
  assumes "length c \<le> length toks" "nt \<noteq> NtExpression" "nt \<noteq> NtMaybeAndV \<or> \<not> is_and_v toks"
  shows "decode_measure nts c < decode_measure (nt # nts) toks"
proof -
  have "decode_measure (nt # nts) toks = 100 * length toks + length nts + 51"
    using assms(2,3) by (auto simp: decode_measure_def split: nonterm.splits)
  then show ?thesis using assms(1) decode_measure_bounds(2) [of nts c] by linarith
qed

lemma decode_measure_to_expression:
  assumes "nt \<noteq> NtExpression" "length nts' \<le> length nts + 3"
  shows "decode_measure (NtExpression # nts') toks < decode_measure (nt # nts) toks"
  using assms by (auto simp: decode_measure_def split: nonterm.splits)

lemma decode_step_less:
  "wp True (decode_step D nt nts terms toks) (\<lambda>a b c. decode_measure a c < decode_measure (nt # nts) toks)"
proof (cases nt)
  case NtExpression
  then show ?thesis
    using step_expression_consumes [of D nts terms toks]
    by (auto elim!: wp_mono intro!: decode_measure_consumed simp: consumes_def)
next
  case NtWExpression
  then show ?thesis
    by (auto simp: step_wexpression_def Let_def wp_simps decode_measure_to_expression decode_measure_consumed
        dest: take_inscriptions_less)
next
  case NtInscribePre
  then show ?thesis
    by (auto simp: step_inscribe_pre_def wp_simps decode_measure_popped dest!: take_inscriptions_length)
next
  case NtAndV
  have "decode_measure (NtMaybeAndV # NtAndV # nts) toks < decode_measure (NtAndV # nts) toks" if "is_and_v toks"
    using that by (simp add: decode_measure_def)
  with NtAndV show ?thesis by (auto simp: wp_simps decode_measure_popped)
next
  case NtEndIf
  then show ?thesis by (auto simp: step_endif_def wp_simps decode_measure_consumed)
next
  case NtEndIfNotIf
  then show ?thesis
    by (auto simp: step_endif_notif_def wp_simps decode_measure_to_expression decode_measure_consumed)
next
  case NtEndIfElse
  then show ?thesis by (auto simp: step_endif_else_def wp_simps decode_measure_consumed)
next
  case (NtThreshE k n)
  then show ?thesis by (auto simp: step_thresh_e_def wp_simps decode_measure_popped)
next
  case NtTern
  then show ?thesis by (auto simp: step_tern_def wp_simps decode_measure_popped split: list.splits)
qed (auto simp: wp_simps decode_measure_popped decode_measure_to_expression decode_measure_consumed)

subsection \<open>The loop\<close>

text \<open>The result carries the tokens that were not consumed; \<open>None\<close> is a panic.\<close>

function decode_loop ::
    "'pk decoder \<Rightarrow> nonterm list \<Rightarrow> 'pk miniscript list \<Rightarrow> token list
      \<Rightarrow> (decode_error + 'pk miniscript \<times> token list) option" where
  "decode_loop D [] terms toks = (case terms of [ms] \<Rightarrow> Some (Inr (ms, toks)) | _ \<Rightarrow> None)"
| "decode_loop D (nt # nts) terms toks =
     (case decode_step D nt nts terms toks of
        DPanic \<Rightarrow> None
      | DErr e \<Rightarrow> Some (Inl e)
      | DNext nts' terms' toks' \<Rightarrow> decode_loop D nts' terms' toks')"
  by pat_completeness auto
termination
  by (relation "measure (\<lambda>(_, nts, _, toks). decode_measure nts toks)") (auto dest: wp_DNext [OF decode_step_less])

definition decode :: "'pk decoder \<Rightarrow> token list \<Rightarrow> (decode_error + 'pk miniscript \<times> token list) option" where
  "decode D toks = decode_loop D [NtExpression, NtMaybeAndV] [] toks"
subsection \<open>The decoder does not panic\<close>

text \<open>How many terms a non-terminal takes from the stack; each leaves one.  The decoder keeps the two
  stacks balanced.\<close>

fun nt_arity :: "nonterm \<Rightarrow> nat" where
  "nt_arity NtExpression = 0"
| "nt_arity NtWExpression = 0"
| "nt_arity NtAndV = 2"
| "nt_arity NtAndB = 2"
| "nt_arity NtOrB = 2"
| "nt_arity NtOrC = 2"
| "nt_arity NtOrD = 2"
| "nt_arity NtEndIfElse = 2"
| "nt_arity NtTern = 3"
| "nt_arity (NtThreshW k n) = n"
| "nt_arity (NtThreshE k n) = n"
| "nt_arity _ = 1"

fun balanced :: "nonterm list \<Rightarrow> nat \<Rightarrow> bool" where
  "balanced [] n = (n = 1)"
| "balanced (nt # nts) n = (nt_arity nt \<le> n \<and> balanced nts (Suc (n - nt_arity nt)))"

lemma step_verify_balanced:
  "balanced nts (Suc (length terms)) \<Longrightarrow>
     wp False (step_verify D nts terms toks) (\<lambda>a b c. balanced a (length b))"
  unfolding step_verify_def by (auto simp: wp_simps)

lemma step_equal_balanced:
  "balanced nts (Suc (length terms)) \<Longrightarrow>
     wp False (step_equal D nts terms toks) (\<lambda>a b c. balanced a (length b))"
  unfolding step_equal_def by (auto simp: wp_simps)

lemma step_checkmultisig_balanced:
  "balanced nts (Suc (length terms)) \<Longrightarrow>
     wp False (step_checkmultisig D nts terms toks) (\<lambda>a b c. balanced a (length b))"
  unfolding step_checkmultisig_def by (auto simp: wp_simps)

lemma step_numequal_balanced:
  "balanced nts (Suc (length terms)) \<Longrightarrow>
     wp False (step_numequal D nts terms toks) (\<lambda>a b c. balanced a (length b))"
  unfolding step_numequal_def by (auto simp: wp_simps)

lemma step_expression_balanced:
  assumes "balanced nts (Suc (length terms))"
  shows "wp False (step_expression D nts terms toks) (\<lambda>a b c. balanced a (length b))"
proof (cases toks)
  case Nil
  then show ?thesis by (simp add: step_expression_def Let_def next_tok_def)
next
  case (Cons t rest)
  have next_t: "next_tok toks k = k t rest" for k :: "token \<Rightarrow> token list \<Rightarrow> 'a dec_result"
    by (simp add: next_tok_def Cons)
  show ?thesis
    using assms unfolding step_expression_def Let_def next_t
    by (cases t; simp)
      (auto simp: wp_simps push_key_def
        intro!: step_verify_balanced step_equal_balanced step_checkmultisig_balanced step_numequal_balanced)
qed

lemma decode_step_balanced:
  assumes "balanced (nt # nts) (length terms)"
  shows "wp False (decode_step D nt nts terms toks) (\<lambda>a b c. balanced a (length b))"
proof (cases nt)
  case NtExpression
  then show ?thesis using assms by (simp add: step_expression_balanced)
next
  case NtWExpression
  then show ?thesis using assms by (auto simp: step_wexpression_def Let_def wp_simps)
next
  case NtInscribePre
  then show ?thesis using assms by (cases terms) (auto simp: step_inscribe_pre_def wp_simps)
next
  case NtEndIf
  then show ?thesis using assms by (auto simp: step_endif_def wp_simps)
next
  case NtEndIfNotIf
  then show ?thesis using assms by (auto simp: step_endif_notif_def wp_simps)
next
  case NtEndIfElse
  then show ?thesis using assms by (auto simp: step_endif_else_def wp_simps)
next
  case (NtThreshE k n)
  then show ?thesis using assms by (auto simp: step_thresh_e_def wp_simps)
next
  case NtTern
  then show ?thesis using assms by (auto simp: step_tern_def wp_simps numeral_eq_Suc split: list.splits)
next
  case NtMaybeAndV
  then show ?thesis using assms by (cases terms) auto
next
  case NtAndV
  then show ?thesis using assms by (cases terms; cases "tl terms") (auto simp: wp_simps)
qed (use assms in \<open>auto simp: wp_simps\<close>)

lemma decode_loop_total:
  "balanced nts (length terms) \<Longrightarrow> decode_loop D nts terms toks \<noteq> None"
proof (induction D nts terms toks rule: decode_loop.induct)
  case (1 D terms toks)
  then show ?case by (cases terms; cases "tl terms") auto
next
  case (2 D nt nts terms toks)
  note ok = decode_step_balanced [OF 2(2), of D toks]
  show ?case
  proof (cases "decode_step D nt nts terms toks")
    case (DNext a b c)
    with ok have "balanced a (length b)" by simp
    from 2(1) [OF DNext this] show ?thesis by (simp add: DNext)
  next
    case DPanic
    with ok show ?thesis by simp
  qed simp
qed

lemma decode_total: "decode D toks \<noteq> None"
  unfolding decode_def by (rule decode_loop_total) simp
end
