(* ===== verification/DecodeExact.thy ===== *)
theory DecodeExact
  imports Decode
begin

section \<open>The decoder is exact\<close>

text \<open>
  A miniscript that the decoder returns stands for exactly the tokens it consumed.  \<open>atoms_of\<close> gives the
  tokens of a miniscript's script, in the order of the script, with the envelopes of inscriptions
  spelled out as their bytes (an envelope token holds the bytes of the envelope).  The proof is an
  invariant of the two stacks: \<open>render\<close> computes, from the pending non-terminals and the finished
  terms, the atoms of everything consumed so far.
\<close>

type_synonym atom = "token + u8"

fun token_atoms :: "token \<Rightarrow> atom list" where
  "token_atoms (TkInscription s) = map Inr s"
| "token_atoms t = [Inl t]"

definition atoms :: "token list \<Rightarrow> atom list" where
  "atoms ts = concat (map token_atoms ts)"

lemma atoms_simps [simp]:
  "atoms [] = []" "atoms (t # ts) = token_atoms t @ atoms ts" "atoms (a @ b) = atoms a @ atoms b"
  by (simp_all add: atoms_def)

subsection \<open>The tokens of a miniscript\<close>

text \<open>The bytes that are pushed for a key.\<close>

definition full_key_bytes :: "'pk decoder \<Rightarrow> 'pk \<Rightarrow> bytes" where
  "full_key_bytes D pk = pubkey_to_bytes (dc_lib D) (to_public_key (dc_keys D) pk)"

definition ms_key_bytes :: "'pk decoder \<Rightarrow> 'pk \<Rightarrow> bytes" where
  "ms_key_bytes D pk =
     (case ctx_sig_type (dc_ctx D) of
        Ecdsa \<Rightarrow> full_key_bytes D pk
      | Schnorr \<Rightarrow> xonly_serialize (dc_lib D) (to_x_only_pubkey (dc_keys D) pk))"

definition key_token :: "bytes \<Rightarrow> token" where
  "key_token b = (if length b = 32 then TkBytes32 b else if length b = 33 then TkBytes33 b else TkBytes65 b)"

definition ins_atoms :: "'pk decoder \<Rightarrow> inscription list \<Rightarrow> atom list" where
  "ins_atoms D is = map Inr (into_script (dc_script D) (reveal_all is))"

definition hash_atoms :: "token \<Rightarrow> token \<Rightarrow> atom list" where
  "hash_atoms op h = map Inl [TkSize, TkNum 32, TkEqual, TkVerify, op, h, TkEqual]"

definition pkh_atoms :: "hash \<Rightarrow> atom list" where
  "pkh_atoms h = map Inl [TkDup, TkHash160, TkHash20 h, TkEqual, TkVerify]"

definition thresh_tail :: "nat \<Rightarrow> atom list list \<Rightarrow> atom list" where
  "thresh_tail k xs = concat (map (\<lambda>x. x @ [Inl TkAdd]) xs) @ [Inl (TkNum (of_nat k)), Inl TkEqual]"

fun thresh_atoms :: "nat \<Rightarrow> atom list list \<Rightarrow> atom list" where
  "thresh_atoms k [] = []"
| "thresh_atoms k (x # xs) = x @ thresh_tail k xs"

definition multi_atoms :: "nat \<Rightarrow> token list \<Rightarrow> atom list" where
  "multi_atoms k keys =
     Inl (TkNum (of_nat k)) # map Inl keys @ [Inl (TkNum (of_nat (length keys))), Inl TkCheckMultiSig]"

fun multi_a_atoms :: "nat \<Rightarrow> token list \<Rightarrow> atom list" where
  "multi_a_atoms k [] = []"
| "multi_a_atoms k (key # keys) =
     Inl key # Inl TkCheckSig # concat (map (\<lambda>t. [Inl t, Inl TkCheckSigAdd]) keys)
     @ [Inl (TkNum (of_nat k)), Inl TkNumEqual]"

fun atoms_of :: "'pk decoder \<Rightarrow> 'pk miniscript \<Rightarrow> atom list" where
  "atoms_of D (Miniscript TrueT ty ext) = [Inl (TkNum 1)]"
| "atoms_of D (Miniscript FalseT ty ext) = [Inl (TkNum 0)]"
| "atoms_of D (Miniscript (PkK pk) ty ext) = [Inl (key_token (ms_key_bytes D pk))]"
| "atoms_of D (Miniscript (PkH pk) ty ext) = pkh_atoms (hash160_hash (dc_lib D) (ms_key_bytes D pk))"
| "atoms_of D (Miniscript (RawPkH h) ty ext) = pkh_atoms h"
| "atoms_of D (Miniscript (After t) ty ext) =
     [Inl (TkNum (abs_to_consensus_u32 t)), Inl TkCheckLockTimeVerify]"
| "atoms_of D (Miniscript (Older t) ty ext) =
     [Inl (TkNum (rel_to_consensus_u32 t)), Inl TkCheckSequenceVerify]"
| "atoms_of D (Miniscript (Sha256 h) ty ext) = hash_atoms TkSha256 (TkBytes32 h)"
| "atoms_of D (Miniscript (Hash256 h) ty ext) = hash_atoms TkHash256 (TkBytes32 h)"
| "atoms_of D (Miniscript (Ripemd160 h) ty ext) = hash_atoms TkRipemd160 (TkHash20 h)"
| "atoms_of D (Miniscript (Hash160 h) ty ext) = hash_atoms TkHash160 (TkHash20 h)"
| "atoms_of D (Miniscript (TxTemplate h) ty ext) =
     [Inl (TkBytes32 h), Inl TkCheckTemplateVerify, Inl TkDrop]"
| "atoms_of D (Miniscript (InscribePre is x) ty ext) = ins_atoms D is @ atoms_of D x"
| "atoms_of D (Miniscript (InscribePost is x) ty ext) = atoms_of D x @ ins_atoms D is"
| "atoms_of D (Miniscript (Alt x) ty ext) = Inl TkToAltStack # atoms_of D x @ [Inl TkFromAltStack]"
| "atoms_of D (Miniscript (Swap x) ty ext) = Inl TkSwap # atoms_of D x"
| "atoms_of D (Miniscript (Check x) ty ext) = atoms_of D x @ [Inl TkCheckSig]"
| "atoms_of D (Miniscript (DupIf x) ty ext) = Inl TkDup # Inl TkIf # atoms_of D x @ [Inl TkEndIf]"
| "atoms_of D (Miniscript (Verify x) ty ext) = atoms_of D x @ [Inl TkVerify]"
| "atoms_of D (Miniscript (NonZero x) ty ext) =
     Inl TkSize # Inl TkZeroNotEqual # Inl TkIf # atoms_of D x @ [Inl TkEndIf]"
| "atoms_of D (Miniscript (ZeroNotEqual x) ty ext) = atoms_of D x @ [Inl TkZeroNotEqual]"
| "atoms_of D (Miniscript (AndV x y) ty ext) = atoms_of D x @ atoms_of D y"
| "atoms_of D (Miniscript (AndB x y) ty ext) = atoms_of D x @ atoms_of D y @ [Inl TkBoolAnd]"
| "atoms_of D (Miniscript (AndOr x y z) ty ext) =
     atoms_of D x @ Inl TkNotIf # atoms_of D z @ Inl TkElse # atoms_of D y @ [Inl TkEndIf]"
| "atoms_of D (Miniscript (OrB x y) ty ext) = atoms_of D x @ atoms_of D y @ [Inl TkBoolOr]"
| "atoms_of D (Miniscript (OrD x y) ty ext) =
     atoms_of D x @ Inl TkIfDup # Inl TkNotIf # atoms_of D y @ [Inl TkEndIf]"
| "atoms_of D (Miniscript (OrC x y) ty ext) = atoms_of D x @ Inl TkNotIf # atoms_of D y @ [Inl TkEndIf]"
| "atoms_of D (Miniscript (OrI x y) ty ext) =
     Inl TkIf # atoms_of D x @ Inl TkElse # atoms_of D y @ [Inl TkEndIf]"
| "atoms_of D (Miniscript (Thresh (Threshold k xs)) ty ext) = thresh_atoms k (map (atoms_of D) xs)"
| "atoms_of D (Miniscript (Multi t) ty ext) =
     multi_atoms (thr_k t) (map (\<lambda>pk. key_token (full_key_bytes D pk)) (thr_data t))"
| "atoms_of D (Miniscript (MultiA t) ty ext) =
     multi_a_atoms (thr_k t) (map (\<lambda>pk. key_token (ms_key_bytes D pk)) (thr_data t))"

lemma atoms_of_thresh [simp]:
  "atoms_of D (Miniscript (Thresh t) ty ext) = thresh_atoms (thr_k t) (map (atoms_of D) (thr_data t))"
  by (cases t) simp

lemma atoms_of_from_ast:
  assumes "from_ast L K ctx t = Inr ms"
  shows "atoms_of D ms = atoms_of D (Miniscript t ty ext)"
proof -
  have "atoms_of D (Miniscript t ty' ext') = atoms_of D (Miniscript t ty ext)" for ty' ext'
    by (cases t) auto
  then show ?thesis using from_ast_Inr(1) [OF assms] by metis
qed

subsection \<open>What the stacks stand for\<close>

text \<open>The atoms of the term that a non-terminal leaves, from those of the terms it takes, as far as they
  have been consumed.\<close>

fun nt_atoms :: "'pk decoder \<Rightarrow> nonterm \<Rightarrow> atom list list \<Rightarrow> atom list" where
  "nt_atoms D (NtInscribePost is) xs = xs ! 0 @ ins_atoms D is"
| "nt_atoms D NtAlt xs = xs ! 0 @ [Inl TkFromAltStack]"
| "nt_atoms D NtCheck xs = xs ! 0 @ [Inl TkCheckSig]"
| "nt_atoms D NtDupIf xs = Inl TkDup # Inl TkIf # xs ! 0 @ [Inl TkEndIf]"
| "nt_atoms D NtVerify xs = xs ! 0 @ [Inl TkVerify]"
| "nt_atoms D NtNonZero xs = Inl TkSize # Inl TkZeroNotEqual # Inl TkIf # xs ! 0 @ [Inl TkEndIf]"
| "nt_atoms D NtZeroNotEqual xs = xs ! 0 @ [Inl TkZeroNotEqual]"
| "nt_atoms D NtAndB xs = xs ! 0 @ xs ! 1 @ [Inl TkBoolAnd]"
| "nt_atoms D NtOrB xs = xs ! 0 @ xs ! 1 @ [Inl TkBoolOr]"
| "nt_atoms D NtTern xs = xs ! 0 @ Inl TkNotIf # xs ! 1 @ Inl TkElse # xs ! 2 @ [Inl TkEndIf]"
| "nt_atoms D NtOrD xs = xs ! 0 @ Inl TkIfDup # Inl TkNotIf # xs ! 1 @ [Inl TkEndIf]"
| "nt_atoms D NtOrC xs = xs ! 0 @ Inl TkNotIf # xs ! 1 @ [Inl TkEndIf]"
| "nt_atoms D (NtThreshW k n) xs = thresh_tail k xs"
| "nt_atoms D (NtThreshE k n) xs = thresh_atoms k xs"
| "nt_atoms D NtEndIf xs = xs ! 0 @ [Inl TkEndIf]"
| "nt_atoms D NtEndIfNotIf xs = Inl TkNotIf # xs ! 0 @ [Inl TkEndIf]"
| "nt_atoms D NtEndIfElse xs = xs ! 0 @ Inl TkElse # xs ! 1 @ [Inl TkEndIf]"
| "nt_atoms D _ xs = concat xs"

fun render :: "'pk decoder \<Rightarrow> nonterm list \<Rightarrow> atom list list \<Rightarrow> atom list" where
  "render D [] xs = concat xs"
| "render D (nt # nts) xs =
     render D nts (nt_atoms D nt (take (nt_arity nt) xs) # drop (nt_arity nt) xs)"

text \<open>The pending non-terminals are open on the left: what is still read goes in front of their first
  term, and hence in front of everything.\<close>

fun left_open :: "nonterm list \<Rightarrow> bool" where
  "left_open [] = True"
| "left_open (nt # nts) =
     (if nt = NtExpression then nts \<noteq> [] \<and> hd nts \<in> {NtAndB, NtOrB} \<and> left_open nts
      else 1 \<le> nt_arity nt \<and> nt \<notin> {NtDupIf, NtNonZero, NtEndIfNotIf} \<and> left_open nts)"

lemma nt_atoms_Cons:
  assumes "1 \<le> nt_arity nt" "nt \<notin> {NtDupIf, NtNonZero, NtEndIfNotIf}"
  shows "nt_atoms D nt (take (nt_arity nt) ((x # s) # xs)) = x # nt_atoms D nt (take (nt_arity nt) (s # xs))"
  using assms by (cases nt) (auto simp: take_Cons' thresh_tail_def)

lemma render_Cons:
  "left_open nts \<Longrightarrow> render D nts ((x # s) # xs) = x # render D nts (s # xs)"
proof (induction nts arbitrary: s xs rule: length_induct)
  case (1 nts)
  then have IH: "left_open nts' \<Longrightarrow> length nts' < length nts \<Longrightarrow>
      render D nts' ((x # s) # xs) = x # render D nts' (s # xs)" for nts' s xs
    by blast
  show ?case
  proof (cases nts)
    case Nil
    then show ?thesis by simp
  next
    case (Cons nt rest)
    show ?thesis
    proof (cases "nt = NtExpression")
      case True
      then obtain nt' rest' where rest: "rest = nt' # rest'" "nt' = NtAndB \<or> nt' = NtOrB" "left_open rest'"
        using 1(2) Cons by (cases rest) (auto split: if_splits)
      then show ?thesis using IH [of rest'] Cons True by auto
    next
      case False
      have "drop (nt_arity nt) ((x # s) # xs) = drop (nt_arity nt) (s # xs)"
        using 1(2) Cons False by (cases "nt_arity nt") auto
      then show ?thesis using 1(2) Cons False nt_atoms_Cons [of nt D x s xs] IH [of rest] by simp
    qed
  qed
qed

lemma render_append:
  "left_open nts \<Longrightarrow> render D nts ((c @ s) # xs) = c @ render D nts (s # xs)"
  by (induction c) (simp_all add: render_Cons)

subsection \<open>What the crate guarantees\<close>

text \<open>The tokens of the lexer hold byte arrays of a fixed length.\<close>

fun tok_ok :: "token \<Rightarrow> bool" where
  "tok_ok (TkHash20 b) = (length b = 20)"
| "tok_ok (TkBytes32 b) = (length b = 32)"
| "tok_ok (TkBytes33 b) = (length b = 33)"
| "tok_ok (TkBytes65 b) = (length b = 65)"
| "tok_ok t = True"

text \<open>A key that was read from bytes is pushed as those bytes; x-only keys have 32 bytes, full keys 33 or 65.\<close>

definition key_parse_laws :: "'pk decoder \<Rightarrow> bool" where
  "key_parse_laws D \<longleftrightarrow>
     (\<forall>b pk. dc_from_slice D b = Some pk \<longrightarrow> ms_key_bytes D pk = b
        \<and> (case ctx_sig_type (dc_ctx D) of
              Ecdsa \<Rightarrow> full_key_bytes D pk = b \<and> (length b = 33 \<or> length b = 65)
            | Schnorr \<Rightarrow> length b = 32))"

definition decoder_laws :: "'pk decoder \<Rightarrow> bool" where
  "decoder_laws D \<longleftrightarrow> key_parse_laws D \<and> script_laws (dc_lib D) (dc_script D)"

lemma key_token_parse:
  assumes "key_parse_laws D" "dc_from_slice D b = Some pk"
  shows "length b = 33 \<Longrightarrow> key_token (ms_key_bytes D pk) = TkBytes33 b"
    "length b = 65 \<Longrightarrow> key_token (ms_key_bytes D pk) = TkBytes65 b"
    "length b = 32 \<Longrightarrow> key_token (ms_key_bytes D pk) = TkBytes32 b"
    "length b = 33 \<Longrightarrow> key_token (full_key_bytes D pk) = TkBytes33 b"
    "length b = 65 \<Longrightarrow> key_token (full_key_bytes D pk) = TkBytes65 b"
  using assms unfolding key_parse_laws_def key_token_def by (cases "ctx_sig_type (dc_ctx D)"; fastforce)+

subsection \<open>Inscriptions\<close>

lemma builder_instructions_reveal_all:
  "builder_instructions L S (reveal_all (is @ js)) = builder_instructions L S (reveal_all is) @ builder_instructions L S (reveal_all js)"
  by (simp add: reveal_all_instructions)

lemma ins_atoms_append:
  assumes "script_laws (dc_lib D) (dc_script D)" "\<forall>i \<in> set (is @ js). validate i = Inr ()"
  shows "ins_atoms D (is @ js) = ins_atoms D is @ ins_atoms D js"
proof -
  have fit: "slices_fit (reveal_all ks)" if "set ks \<subseteq> set (is @ js)" for ks
    using that assms(2) by (intro reveal_all_fits) auto
  have bytes: "into_script (dc_script D) (reveal_all ks)
      = concat (map (instruction_bytes (dc_script D)) (builder_instructions (dc_lib D) (dc_script D) (reveal_all ks)))"
    if "set ks \<subseteq> set (is @ js)" for ks
    by (rule script_laws_bytes [OF assms(1) fit [OF that]])
  show ?thesis
    unfolding ins_atoms_def bytes [of "is @ js", simplified] bytes [of "is", simplified] bytes [of js, simplified]
    by (simp add: builder_instructions_reveal_all)
qed

lemma ins_atoms_Nil: "script_laws (dc_lib D) (dc_script D) \<Longrightarrow> ins_atoms D [] = []"
  using script_laws_bytes [of "dc_lib D" "dc_script D" "[]"]
  by (simp add: ins_atoms_def reveal_all_def slices_fit_def)

lemma take_inscriptions_atoms:
  assumes "script_laws (dc_lib D) (dc_script D)"
  shows "take_inscriptions (dc_script D) acc toks = Inr (is, rest) \<Longrightarrow> \<forall>i \<in> set acc. validate i = Inr () \<Longrightarrow>
    atoms (rev toks) @ ins_atoms D (rev acc) = atoms (rev rest) @ ins_atoms D is
    \<and> (\<forall>i \<in> set is. validate i = Inr ())"
proof (induction "dc_script D" acc toks rule: take_inscriptions.induct)
  case (1 acc script toks)
  from 1(2) obtain js where js: "parse_inscriptions (dc_script D) script = Inr js"
      "take_inscriptions (dc_script D) (acc @ rev js) toks = Inr (is, rest)"
    by (auto split: sum.splits)
  note ex = parse_inscriptions_exact [OF js(1)]
  have valid: "\<forall>i \<in> set (acc @ rev js). validate i = Inr ()" using 1(3) ex by auto
  have "ins_atoms D (rev (acc @ rev js)) = map Inr script @ ins_atoms D (rev acc)"
    using ins_atoms_append [OF assms, of js "rev acc"] ex 1(3) by (auto simp: ins_atoms_def)
  then show ?case using 1(1) [OF js(1) js(2) valid] by simp
qed auto

lemma take_inscriptions_toks:
  "take_inscriptions S acc toks = Inr (is, rest) \<Longrightarrow> list_all tok_ok toks \<Longrightarrow> list_all tok_ok rest"
  by (induction S acc toks rule: take_inscriptions.induct) (auto split: sum.splits)

subsection \<open>Keys\<close>

lemma take_keys_atoms:
  "key_parse_laws D \<Longrightarrow> take_keys D n toks = Inr (pks, rest) \<Longrightarrow> list_all tok_ok toks \<Longrightarrow>
   atoms (rev toks) = atoms (rev rest) @ map Inl (map (\<lambda>pk. key_token (full_key_bytes D pk)) (rev pks))
   \<and> list_all tok_ok rest \<and> length pks = n"
  by (induction D n toks arbitrary: pks rule: take_keys.induct)
    (auto simp: key_token_parse split: option.splits sum.splits token.splits)

lemma take_key32_atoms:
  "key_parse_laws D \<Longrightarrow> take_key32 D toks = Inr (pk, rest) \<Longrightarrow> list_all tok_ok toks \<Longrightarrow>
   atoms (rev toks) = atoms (rev rest) @ [Inl (key_token (ms_key_bytes D pk))] \<and> list_all tok_ok rest"
  by (auto simp: take_key32_def key_token_parse split: list.splits token.splits option.splits)

lemma take_checksigadd_keys_atoms:
  "key_parse_laws D \<Longrightarrow> take_checksigadd_keys D toks = Inr (pks, rest) \<Longrightarrow> list_all tok_ok toks \<Longrightarrow>
   atoms (rev toks) = atoms (rev rest)
     @ concat (map (\<lambda>t. [Inl t, Inl TkCheckSigAdd]) (map (\<lambda>pk. key_token (ms_key_bytes D pk)) (rev pks)))
   \<and> list_all tok_ok rest"
proof (induction D toks arbitrary: pks rule: take_checksigadd_keys.induct)
  case (1 D toks)
  show ?case
  proof (cases "toks \<noteq> [] \<and> hd toks = TkCheckSigAdd")
    case True
    from 1(3) obtain pk r pks' where r: "take_key32 D (tl toks) = Inr (pk, r)"
      "take_checksigadd_keys D r = Inr (pks', rest)" "pks = pk # pks'"
      unfolding take_checksigadd_keys.simps [of D toks] by (auto simp: True split: sum.splits)
    have ok: "list_all tok_ok (tl toks)" using 1(4) by (cases toks) auto
    note k = take_key32_atoms [OF 1(2) r(1) ok]
    note IH = 1(1) [OF True r(1) refl 1(2) r(2)]
    show ?thesis using IH k True by (cases toks) (auto simp: r(3))
  next
    case False
    with 1(3,4) show ?thesis by (simp add: take_checksigadd_keys.simps [of D toks])
  qed
qed

subsection \<open>Every handler keeps the atoms\<close>

definition whole :: "'pk decoder \<Rightarrow> nonterm list \<Rightarrow> 'pk miniscript list \<Rightarrow> token list \<Rightarrow> atom list" where
  "whole D nts terms toks = atoms (rev toks) @ render D nts (map (atoms_of D) terms)"

definition keeps :: "'pk decoder \<Rightarrow> atom list \<Rightarrow> nonterm list \<Rightarrow> 'pk miniscript list \<Rightarrow> token list \<Rightarrow> bool" where
  "keeps D w nts terms toks \<longleftrightarrow> whole D nts terms toks = w \<and> left_open (tl nts) \<and> list_all tok_ok toks"

text \<open>What has been read of an expression so far, \<open>s\<close>, in front of everything below.\<close>

definition reading :: "'pk decoder \<Rightarrow> nonterm list \<Rightarrow> 'pk miniscript list \<Rightarrow> token list \<Rightarrow> atom list \<Rightarrow> atom list" where
  "reading D nts terms toks s = atoms (rev toks) @ s @ render D nts ([] # map (atoms_of D) terms)"

lemma render_front: "left_open nts \<Longrightarrow> render D nts (s # xs) = s @ render D nts ([] # xs)"
  using render_append [of nts D s "[]" xs] by simp

lemma left_open_tl: "left_open nts \<Longrightarrow> left_open (tl nts)"
  by (cases nts) (auto split: if_splits)

lemma keeps_push:
  assumes "left_open nts" "list_all tok_ok toks" "w = reading D nts terms toks (atoms_of D ms)"
  shows "keeps D w nts (ms # terms) toks"
  using assms left_open_tl [OF assms(1)] render_front [of nts D "atoms_of D ms" "map (atoms_of D) terms"]
  by (simp add: keeps_def whole_def reading_def)

lemma keeps_unary:
  assumes "left_open nts" "list_all tok_ok toks" "nt \<noteq> NtExpression" "nt_arity nt = 1"
    "w = reading D nts terms toks (nt_atoms D nt [atoms_of D ms])"
  shows "keeps D w (nt # nts) (ms # terms) toks"
  using assms render_front [of nts D "nt_atoms D nt [atoms_of D ms]" "map (atoms_of D) terms"]
  by (simp add: keeps_def whole_def reading_def)

lemma atoms_of_leaves [simp]:
  "atoms_of D ms_TRUE = [Inl (TkNum 1)]" "atoms_of D ms_FALSE = [Inl (TkNum 0)]"
  "atoms_of D (ms_pk_k K ctx pk) = [Inl (key_token (ms_key_bytes D pk))]"
  "atoms_of D (ms_expr_raw_pkh ctx h) = pkh_atoms h"
  "atoms_of D (ms_after L a) = [Inl (TkNum (abs_to_consensus_u32 a)), Inl TkCheckLockTimeVerify]"
  "atoms_of D (ms_older L r) = [Inl (TkNum (rel_to_consensus_u32 r)), Inl TkCheckSequenceVerify]"
  "atoms_of D (ms_sha256 h) = hash_atoms TkSha256 (TkBytes32 h)"
  "atoms_of D (ms_hash256 h) = hash_atoms TkHash256 (TkBytes32 h)"
  "atoms_of D (ms_ripemd160 h) = hash_atoms TkRipemd160 (TkHash20 h)"
  "atoms_of D (ms_hash160 h) = hash_atoms TkHash160 (TkHash20 h)"
  "atoms_of D (ms_multi K t) = multi_atoms (thr_k t) (map (\<lambda>pk. key_token (full_key_bytes D pk)) (thr_data t))"
  "atoms_of D (ms_multi_a t) = multi_a_atoms (thr_k t) (map (\<lambda>pk. key_token (ms_key_bytes D pk)) (thr_data t))"
  by (simp_all add: ms_leaf_defs)

lemma step_verify_keeps:
  assumes "left_open nts" "list_all tok_ok toks"
  shows "wp True (step_verify D nts terms toks) (keeps D (reading D nts terms toks [Inl TkVerify]))"
  using assms unfolding step_verify_def
  by (auto simp: wp_simps keeps_def [of _ _ "NtExpression # _"] keeps_def [of _ _ "NtThreshW _ _ # _"] whole_def
      reading_def hash_atoms_def pkh_atoms_def thresh_tail_def render_front [of nts D "_ @ _"] render_front [of nts D "_ # _"]
      intro!: keeps_push keeps_unary)

lemma step_equal_keeps:
  assumes "left_open nts" "list_all tok_ok toks"
  shows "wp True (step_equal D nts terms toks) (keeps D (reading D nts terms toks [Inl TkEqual]))"
  using assms unfolding step_equal_def
  by (auto simp: wp_simps keeps_def [of _ _ "NtThreshW _ _ # _"] whole_def
      reading_def hash_atoms_def thresh_tail_def render_front [of nts D "_ # _"]
      intro!: keeps_push)

lemma step_checkmultisig_keeps:
  assumes "key_parse_laws D" "left_open nts" "list_all tok_ok toks"
  shows "wp True (step_checkmultisig D nts terms toks) (keeps D (reading D nts terms toks [Inl TkCheckMultiSig]))"
  using assms unfolding step_checkmultisig_def
  by (auto simp: wp_simps reading_def multi_atoms_def threshold_new_ok_iff
      intro!: keeps_push dest!: take_keys_atoms [OF assms(1)])

lemma step_numequal_keeps:
  assumes "key_parse_laws D" "left_open nts" "list_all tok_ok toks"
  shows "wp True (step_numequal D nts terms toks) (keeps D (reading D nts terms toks [Inl TkNumEqual]))"
  using assms unfolding step_numequal_def
  by (auto simp: wp_simps reading_def threshold_new_ok_iff
      intro!: keeps_push dest!: take_checksigadd_keys_atoms [OF assms(1)] take_key32_atoms [OF assms(1)])

lemma reading_InscribePre [simp]: "reading D (NtInscribePre # nts) terms toks s = reading D nts terms toks s"
  by (simp add: reading_def)

lemma reduce0_keeps:
  assumes "left_open nts" "list_all tok_ok toks"
    "\<And>ty ext. w = reading D nts terms toks (atoms_of D (Miniscript t ty ext))"
  shows "wp p (reduce0 D nts terms toks t) (keeps D w)"
  unfolding wp_reduce0
proof (intro allI impI)
  fix ms assume "from_ast (dc_lib D) (dc_keys D) (dc_ctx D) t = Inr ms"
  from atoms_of_from_ast [OF this] assms(3) show "keeps D w nts (ms # terms) toks"
    by (intro keeps_push [OF assms(1,2)]) metis
qed

lemma push_key_keeps:
  assumes "key_parse_laws D" "left_open nts" "list_all tok_ok toks" "length b \<in> {32, 33, 65}"
  shows "wp True (push_key D nts terms b toks)
    (keeps D (reading D nts terms toks
       [Inl (if length b = 32 then TkBytes32 b else if length b = 33 then TkBytes33 b else TkBytes65 b)]))"
  using assms unfolding push_key_def
  by (auto simp: wp_simps key_token_parse intro!: keeps_push)

lemma whole_expression:
  "toks = t # rest \<Longrightarrow> \<not> peek_inscription toks \<Longrightarrow> nt = NtExpression \<or> nt = NtWExpression \<Longrightarrow>
     whole D (nt # nts) terms toks = reading D nts terms rest [Inl t]"
  by (cases t) (auto simp: whole_def reading_def peek_inscription_def)

lemma step_expression_keeps:
  assumes laws: "decoder_laws D" and ok: "left_open nts" "list_all tok_ok toks"
  shows "wp True (step_expression D nts terms toks) (keeps D (whole D (NtExpression # nts) terms toks))"
proof (cases toks)
  case Nil
  then show ?thesis by (simp add: step_expression_def Let_def next_tok_def)
next
  case (Cons t rest)
  have next_t: "next_tok toks k = k t rest" for k :: "token \<Rightarrow> token list \<Rightarrow> 'a dec_result"
    by (simp add: next_tok_def Cons)
  have open_pre: "left_open (NtInscribePre # nts)" using ok by simp
  have okr: "list_all tok_ok rest" using ok Cons by simp
  have K: "key_parse_laws D" and S: "script_laws (dc_lib D) (dc_script D)"
    using laws by (auto simp: decoder_laws_def)
  show ?thesis
  proof (cases "peek_inscription toks")
    case True
    then obtain s where t: "t = TkInscription s" by (cases t) (auto simp: peek_inscription_def Cons)
    show ?thesis unfolding step_expression_def Let_def next_t t
      using take_inscriptions_atoms [OF S, of "[]" toks] take_inscriptions_toks [of "dc_script D" "[]" toks] ok
        ins_atoms_Nil [OF S]
      by (auto simp: wp_simps keeps_def whole_def render_front [of nts D "ins_atoms D _"])
  next
    case False
    note w = whole_expression [OF Cons False, of NtExpression D nts terms, simplified]
    have tok: "tok_ok t" using ok(2) Cons by simp
    have rt: "rev toks = rev rest @ [t]" using Cons by simp
    note unf = step_expression_def Let_def next_t w
    show ?thesis
    proof (cases t)
      case TkVerify
      then show ?thesis using step_verify_keeps [OF open_pre okr, of D terms] by (simp add: unf)
    next
      case TkEqual
      then show ?thesis using step_equal_keeps [OF open_pre okr, of D terms] by (simp add: unf)
    next
      case TkCheckMultiSig
      then show ?thesis using step_checkmultisig_keeps [OF K open_pre okr, of terms] by (simp add: unf)
    next
      case TkNumEqual
      then show ?thesis using step_numequal_keeps [OF K open_pre okr, of terms] by (simp add: unf)
    next
      case (TkBytes32 b)
      then show ?thesis using push_key_keeps [OF K open_pre okr, of b terms] tok by (simp add: unf)
    next
      case (TkBytes33 b)
      then show ?thesis using push_key_keeps [OF K open_pre okr, of b terms] tok by (simp add: unf)
    next
      case (TkBytes65 b)
      then show ?thesis using push_key_keeps [OF K open_pre okr, of b terms] tok by (simp add: unf)
    next
      case TkDrop
      then show ?thesis using okr open_pre
        by (auto simp: unf wp_toks wp_token_cases reading_def intro!: reduce0_keeps)
    next
      case (TkInscription s)
      then show ?thesis using False Cons by (simp add: peek_inscription_def)
    next
      case TkCheckSequenceVerify
      then show ?thesis using okr open_pre
        by (auto simp: unf wp_simps reading_def rel_lock_time_from_consensus_def intro!: keeps_push split: if_splits)
    next
      case TkCheckLockTimeVerify
      then show ?thesis using okr open_pre
        by (auto simp: unf wp_simps reading_def dest: abs_lock_time_from_consensus_range intro!: keeps_push)
    next
      case (TkNum n)
      then show ?thesis using okr open_pre by (auto simp: unf wp_simps reading_def intro!: keeps_push)
    qed (use okr open_pre rt in \<open>auto simp: unf wp_simps keeps_def whole_def reading_def render_front [of nts D "_ # _"]\<close>)
  qed
qed

text \<open>A handler that reduces: its non-terminal already holds what it stands for.\<close>

lemma whole_reduce:
  assumes "left_open nts"
  shows "whole D (nt # nts) terms toks = reading D nts (drop (nt_arity nt) terms) toks
    (nt_atoms D nt (map (atoms_of D) (take (nt_arity nt) terms)))"
  by (simp add: whole_def reading_def render_front [OF assms, of D "nt_atoms D nt _"] take_map drop_map)

lemma decode_step_keeps:
  assumes laws: "decoder_laws D" and ok: "left_open nts" "list_all tok_ok toks"
    and bal: "balanced (nt # nts) (length terms)"
  shows "wp True (decode_step D nt nts terms toks) (keeps D (whole D (nt # nts) terms toks))"
proof -
  have S: "script_laws (dc_lib D) (dc_script D)" using laws by (simp add: decoder_laws_def)
  note ins = take_inscriptions_atoms [OF S, of "[]" toks] take_inscriptions_toks [of "dc_script D" "[]" toks]
    ins_atoms_Nil [OF S]
  note front = render_front [of nts D "_ @ _"] render_front [of nts D "_ # _"] render_front [of nts D "atoms_of D _"]
  show ?thesis
  proof (cases nt)
    case NtExpression
    then show ?thesis using step_expression_keeps [OF laws ok] by simp
  next
    case NtWExpression
    then show ?thesis using ok ins
      by (auto simp: step_wexpression_def Let_def wp_simps keeps_def whole_def front render_front [of nts D "ins_atoms D _"])
  next
    case NtInscribePre
    show ?thesis
    proof (cases "peek_inscription toks")
      case True
      then show ?thesis using NtInscribePre ok ins
        by (auto simp: step_inscribe_pre_def whole_reduce wp_cases wp_reduce1 reading_def intro!: reduce0_keeps)
    next
      case False
      then show ?thesis using NtInscribePre ok bal left_open_tl [OF ok(1)]
        by (cases terms) (auto simp: step_inscribe_pre_def keeps_def whole_def)
    qed
  next
    case NtMaybeAndV
    then show ?thesis using ok bal left_open_tl [OF ok(1)] by (cases terms) (auto simp: keeps_def whole_def)
  next
    case NtAndV
    show ?thesis
    proof (cases "is_and_v toks")
      case True
      then show ?thesis using NtAndV ok bal by (cases terms; cases "tl terms") (auto simp: keeps_def whole_def)
    next
      case False
      then show ?thesis using NtAndV ok bal by (auto simp: wp_reduce2 whole_reduce intro!: reduce0_keeps)
    qed
  next
    case (NtThreshW k n)
    then show ?thesis using ok bal
      by (auto simp: wp_simps keeps_def whole_def thresh_tail_def render_Cons)
  next
    case NtEndIf
    then show ?thesis using ok bal
      by (auto simp: step_endif_def wp_simps keeps_def whole_def render_Cons)
  next
    case NtEndIfNotIf
    then show ?thesis using ok bal
      by (auto simp: step_endif_notif_def wp_simps keeps_def whole_def render_Cons)
  next
    case NtEndIfElse
    then show ?thesis using ok bal
      by (auto simp: step_endif_else_def wp_toks wp_token_cases wp_reduce2 keeps_def [of _ _ "NtExpression # _"]
          whole_def reading_def render_Cons render_front [of nts D "_ @ _"] intro!: reduce0_keeps)
  next
    case (NtThreshE k n)
    then show ?thesis using ok bal
      by (auto simp: step_thresh_e_def wp_cases whole_reduce threshold_new_ok_iff intro!: reduce0_keeps)
  next
    case NtTern
    then show ?thesis using ok bal
      by (auto simp: step_tern_def whole_reduce intro!: reduce0_keeps split: list.splits)
  qed (use ok bal in \<open>auto simp: wp_toks wp_reduce1 wp_reduce2 whole_reduce reading_def intro!: reduce0_keeps\<close>)
qed

subsection \<open>Exactness\<close>

lemma decode_loop_exact:
  "decode_loop D nts terms toks = Some (Inr (ms, rest)) \<Longrightarrow> decoder_laws D \<Longrightarrow> left_open (tl nts)
    \<Longrightarrow> list_all tok_ok toks \<Longrightarrow> balanced nts (length terms)
    \<Longrightarrow> whole D nts terms toks = atoms (rev rest) @ atoms_of D ms"
proof (induction D nts terms toks rule: decode_loop.induct)
  case (1 D terms toks)
  then show ?case by (auto simp: whole_def split: list.splits)
next
  case (2 D nt nts terms toks)
  obtain a b c where step: "decode_step D nt nts terms toks = DNext a b c"
    using 2(2) by (cases "decode_step D nt nts terms toks") auto
  have ok: "left_open nts" using 2(4) by simp
  have "keeps D (whole D (nt # nts) terms toks) a b c"
    using decode_step_keeps [OF 2(3) ok 2(5,6)] step by simp
  moreover have "balanced a (length b)" using decode_step_balanced [OF 2(6)] step by (metis wp.simps(1))
  ultimately show ?case using 2(1) [OF step] 2(2,3) step by (simp add: keeps_def)
qed

lemma decode_exact:
  assumes "decode D toks = Some (Inr (ms, rest))" "decoder_laws D" "list_all tok_ok toks"
  shows "atoms (rev toks) = atoms (rev rest) @ atoms_of D ms"
  using decode_loop_exact [of D "[NtExpression, NtMaybeAndV]" "[]" toks ms rest] assms
  by (simp add: decode_def whole_def)

subsection \<open>Well-typedness\<close>

text \<open>Every term on the stack has the type and the extra data that \<open>from_ast\<close> would give it.\<close>

definition terms_ok :: "'pk decoder \<Rightarrow> nonterm list \<Rightarrow> 'pk miniscript list \<Rightarrow> token list \<Rightarrow> bool" where
  "terms_ok D nts terms toks \<longleftrightarrow>
     list_all (built_ok (dc_lib D) (dc_keys D) (dc_ctx D)) terms \<and> list_all tok_ok toks"

lemma reduce0_terms_ok:
  assumes "terms_ok D nts terms toks" "node_ok t"
    "\<And>c. c \<in> set (children t) \<Longrightarrow> built_ok (dc_lib D) (dc_keys D) (dc_ctx D) c"
  shows "wp p (reduce0 D nts' terms toks t) (terms_ok D)"
  using assms by (auto simp: wp_reduce0 terms_ok_def intro: built_ok_from_ast)

lemma step_verify_terms_ok:
  "terms_ok D nts terms toks \<Longrightarrow> wp True (step_verify D nts' terms toks) (terms_ok D)"
  unfolding step_verify_def by (auto simp: wp_simps terms_ok_def)

lemma step_equal_terms_ok:
  "terms_ok D nts terms toks \<Longrightarrow> wp True (step_equal D nts' terms toks) (terms_ok D)"
  unfolding step_equal_def by (auto simp: wp_simps terms_ok_def)

lemma take_keys_toks:
  "take_keys D n toks = Inr (pks, rest) \<Longrightarrow> list_all tok_ok toks \<Longrightarrow> list_all tok_ok rest"
  by (induction D n toks arbitrary: pks rule: take_keys.induct) (auto split: option.splits sum.splits)

lemma take_key32_toks: "take_key32 D toks = Inr (pk, rest) \<Longrightarrow> list_all tok_ok toks \<Longrightarrow> list_all tok_ok rest"
  by (auto simp: take_key32_def split: list.splits token.splits option.splits)

lemma take_checksigadd_keys_toks:
  "take_checksigadd_keys D toks = Inr (pks, rest) \<Longrightarrow> list_all tok_ok toks \<Longrightarrow> list_all tok_ok rest"
proof (induction D toks arbitrary: pks rule: take_checksigadd_keys.induct)
  case (1 D toks)
  show ?case
  proof (cases "toks \<noteq> [] \<and> hd toks = TkCheckSigAdd")
    case True
    from 1(2) obtain pk r pks' where r: "take_key32 D (tl toks) = Inr (pk, r)"
      "take_checksigadd_keys D r = Inr (pks', rest)"
      unfolding take_checksigadd_keys.simps [of D toks] by (auto simp: True split: sum.splits)
    have "list_all tok_ok (tl toks)" using 1(3) by (cases toks) auto
    then show ?thesis using 1(1) [OF True r(1) refl r(2)] take_key32_toks [OF r(1)] by blast
  next
    case False
    with 1(2,3) show ?thesis by (simp add: take_checksigadd_keys.simps [of D toks])
  qed
qed

lemma step_checkmultisig_terms_ok:
  "terms_ok D nts terms toks \<Longrightarrow> wp True (step_checkmultisig D nts' terms toks) (terms_ok D)"
  unfolding step_checkmultisig_def
  by (auto simp: wp_simps terms_ok_def dest!: take_keys_toks dest: wf_threshold_new)

lemma step_numequal_terms_ok:
  "terms_ok D nts terms toks \<Longrightarrow> wp True (step_numequal D nts' terms toks) (terms_ok D)"
  unfolding step_numequal_def
  by (auto simp: wp_simps terms_ok_def dest!: take_checksigadd_keys_toks take_key32_toks dest: wf_threshold_new)

lemma step_expression_terms_ok:
  assumes "terms_ok D nts terms toks"
  shows "wp True (step_expression D nts' terms toks) (terms_ok D)"
proof (cases toks)
  case Nil
  then show ?thesis by (simp add: step_expression_def Let_def next_tok_def)
next
  case (Cons t rest)
  have next_t: "next_tok toks k = k t rest" for k :: "token \<Rightarrow> token list \<Rightarrow> 'a dec_result"
    by (simp add: next_tok_def Cons)
  have rest: "terms_ok D nts terms rest" using assms by (simp add: terms_ok_def Cons)
  note sub = step_verify_terms_ok [OF rest] step_equal_terms_ok [OF rest] step_checkmultisig_terms_ok [OF rest]
    step_numequal_terms_ok [OF rest]
  show ?thesis
    using rest assms take_inscriptions_toks [of "dc_script D" "[]" toks]
    unfolding step_expression_def Let_def next_t
    by (cases t; simp add: sub)
      (auto simp: wp_simps push_key_def terms_ok_def intro: built_ok_from_ast)
qed

lemma decode_step_terms_ok:
  assumes "terms_ok D (nt # nts) terms toks"
  shows "wp True (decode_step D nt nts terms toks) (terms_ok D)"
proof -
  note ins = take_inscriptions_toks [of "dc_script D" "[]" toks]
  show ?thesis
  proof (cases nt)
    case NtExpression
    then show ?thesis using step_expression_terms_ok [OF assms] by simp
  next
    case NtWExpression
    then show ?thesis using assms ins by (auto simp: step_wexpression_def Let_def wp_simps terms_ok_def)
  next
    case NtInscribePre
    then show ?thesis using assms ins
      by (auto simp: step_inscribe_pre_def wp_cases wp_reduce1 terms_ok_def intro!: reduce0_terms_ok)
  next
    case NtEndIf
    then show ?thesis using assms by (auto simp: step_endif_def wp_simps terms_ok_def)
  next
    case NtEndIfNotIf
    then show ?thesis using assms by (auto simp: step_endif_notif_def wp_simps terms_ok_def)
  next
    case NtEndIfElse
    then show ?thesis using assms
      by (auto simp: step_endif_else_def wp_toks wp_token_cases wp_reduce2 terms_ok_def intro!: reduce0_terms_ok)
  next
    case (NtThreshE k n)
    have "terms_ok D nts (take n terms) toks" "terms_ok D nts (drop n terms) toks"
      using assms by (auto simp: terms_ok_def list_all_iff dest: in_set_takeD in_set_dropD)
    with NtThreshE show ?thesis
      by (auto simp: step_thresh_e_def wp_cases threshold_new_ok_iff intro!: reduce0_terms_ok)
        (auto simp: terms_ok_def list_all_iff)
  next
    case NtTern
    then show ?thesis using assms
      by (auto simp: step_tern_def terms_ok_def intro!: reduce0_terms_ok split: list.splits)
  next
    case NtAndV
    then show ?thesis using assms by (auto simp: wp_cases wp_reduce2 terms_ok_def intro!: reduce0_terms_ok)
  qed (use assms in \<open>auto simp: wp_toks wp_reduce1 wp_reduce2 wp_token_cases terms_ok_def intro!: reduce0_terms_ok\<close>)
qed

lemma decode_loop_terms_ok:
  "decode_loop D nts terms toks = Some (Inr (ms, rest)) \<Longrightarrow> terms_ok D nts terms toks
    \<Longrightarrow> built_ok (dc_lib D) (dc_keys D) (dc_ctx D) ms \<and> list_all tok_ok rest"
proof (induction D nts terms toks rule: decode_loop.induct)
  case (1 D terms toks)
  then show ?case by (auto simp: terms_ok_def split: list.splits)
next
  case (2 D nt nts terms toks)
  obtain a b c where step: "decode_step D nt nts terms toks = DNext a b c"
    using 2(2) by (cases "decode_step D nt nts terms toks") auto
  have "terms_ok D a b c" using decode_step_terms_ok [OF 2(3)] step by simp
  then show ?case using 2(1) [OF step] 2(2) step by simp
qed

end
