(* ===== verification/DecodeScript.thy ===== *)
theory DecodeScript
  imports Analysis DecodeExact
begin

section \<open>Decoding a script\<close>

text \<open>
  \<open>Miniscript::decode_with_ext\<close>, \<open>decode_consensus\<close> and \<open>decode\<close> of
  \<^verbatim>\<open>miniscript/mod.rs\<close>: the lexer, the parser, the checks of the top level and the analysis,
  composed.  The theory shows that the composition never panics on a script, and what it accepts.
\<close>

datatype script_decode_error = DecodeError decode_error | AnalysisError analysis_error

definition decode_with_ext ::
    "'pk decoder \<Rightarrow> ext_params \<Rightarrow> bytes \<Rightarrow> (script_decode_error + 'pk miniscript) option" where
  "decode_with_ext D ext script =
     (case lex_script (dc_script D) script of
        None \<Rightarrow> None
      | Some (Inl e) \<Rightarrow> Some (Inl (DecodeError (LexErr e)))
      | Some (Inr tokens) \<Rightarrow>
          (case decode D tokens of
             None \<Rightarrow> None
           | Some (Inl e) \<Rightarrow> Some (Inl (DecodeError e))
           | Some (Inr (top_ms, rest)) \<Rightarrow>
               (case check_global_validity (dc_ctx D) (dc_keys D) top_ms of
                  Inl e \<Rightarrow> Some (Inl (DecodeError (MsError (ContextError e))))
                | Inr _ \<Rightarrow>
                    (case ty_check (ms_node top_ms) of
                       Inl e \<Rightarrow> Some (Inl (DecodeError (MsError (TypeCheckError e))))
                     | Inr type_check \<Rightarrow>
                         (if base (corr type_check) \<noteq> BaseB then Some (Inl (DecodeError (MsError NonTopLevel)))
                          else (case rest of
                                  leading # _ \<Rightarrow> Some (Inl (DecodeError (Trailing leading)))
                                | [] \<Rightarrow>
                                    (case ext_params_check (dc_ctx D) (dc_keys D) ext top_ms of
                                       Inl e \<Rightarrow> Some (Inl (AnalysisError e))
                                     | Inr _ \<Rightarrow> Some (Inr top_ms))))))))"

definition decode_consensus :: "'pk decoder \<Rightarrow> bytes \<Rightarrow> (script_decode_error + 'pk miniscript) option" where
  "decode_consensus D script = decode_with_ext D ext_params_allow_all script"

definition decode_script :: "'pk decoder \<Rightarrow> bytes \<Rightarrow> (script_decode_error + 'pk miniscript) option" where
  "decode_script D script = decode_with_ext D ext_params_sane script"

subsection \<open>The lexer does not panic\<close>

text \<open>What the iterator over instructions guarantees: each instruction starts at the position the lexer
  keeps and ends inside the script.\<close>

fun fits :: "bytes \<Rightarrow> nat \<Rightarrow> instr_iter \<Rightarrow> bool" where
  "fits script p [] = True"
| "fits script p (Inl _ # it) = True"
| "fits script p (Inr i # it) =
     (p < length script \<and> p + instruction_size (script ! p) i \<le> length script
      \<and> fits script (p + instruction_size (script ! p) i) it)"

definition instructions_fit :: "script_lib \<Rightarrow> bool" where
  "instructions_fit S \<longleftrightarrow> (\<forall>script. fits script 0 (instructions S script))"

lemma lex_envelope_items_total: "fits script p it \<Longrightarrow> lex_envelope_items script it p \<noteq> None"
  by (induction script it p rule: lex_envelope_items.induct)
    (auto simp: Let_def split: instruction.splits if_splits)

lemma lex_envelope_items_fits:
  "fits script p it \<Longrightarrow> lex_envelope_items script it p = Some (Inr (it', p')) \<Longrightarrow>
     fits script p' it' \<and> p \<le> p' \<and> p' \<le> length script"
proof (induction script it p rule: lex_envelope_items.induct)
  case (3 script item it p)
  let ?q = "p + instruction_size (script ! p) item"
  have fit: "p < length script" "?q \<le> length script" "fits script ?q it" using 3(3) by simp_all
  consider "it' = it \<and> p' = ?q"
    | opc where "lex_envelope_items script it ?q = Some (Inr (it', p'))"
      "is_push_num opc \<and> item = Op opc \<and> opc \<noteq> OP_ENDIF \<or> (\<exists>b. item = PushBytes b)"
    using 3(4) fit(1) by (auto simp: Let_def split: instruction.splits if_splits)
  then show ?case
  proof cases
    case 1
    then show ?thesis using fit by simp
  next
    case (2 opc)
    then have "fits script p' it' \<and> ?q \<le> p' \<and> p' \<le> length script"
      using 3(1) [OF _ refl] 3(2) [OF _ refl] fit by auto
    then show ?thesis using le_trans [OF le_add1] by blast
  qed
qed simp_all

lemma lex_envelope_fits:
  assumes "fits script p it"
  shows "lex_envelope script it p \<noteq> None"
    "lex_envelope script it p = Some (Inr (it', p')) \<Longrightarrow> fits script p' it' \<and> p \<le> p' \<and> p' \<le> length script"
proof -
  let ?q = "\<lambda>protocol. p + instruction_size (script ! p) protocol"
  show "lex_envelope script it p \<noteq> None"
    using assms lex_envelope_items_total [of script] by (cases it; cases "hd it") (auto simp: lex_envelope_def)
  assume "lex_envelope script it p = Some (Inr (it', p'))"
  then obtain protocol rest where "it = Inr protocol # rest"
    "lex_envelope_items script rest (?q protocol) = Some (Inr (it', p'))"
    by (auto simp: lex_envelope_def split: list.splits sum.splits if_splits)
  with lex_envelope_items_fits [of script "?q protocol" rest it' p'] assms
  show "fits script p' it' \<and> p \<le> p' \<and> p' \<le> length script" by simp
qed

text \<open>A token is on the vector only after a byte was read, so the envelope starts in the script.\<close>

lemma lex_loop_total: "fits script p it \<Longrightarrow> (ret \<noteq> [] \<Longrightarrow> 0 < p) \<Longrightarrow> lex_loop S script it p ret \<noteq> None"
proof (induction S script it p ret rule: lex_loop.induct)
  case (3 S script ins it p ret)
  let ?p = "p + instruction_size (script ! p) ins"
  have p: "p < length script" "fits script ?p it" using 3(4) by simp_all
  show ?case
  proof (cases ins)
    case (PushBytes bytes)
    have pos: "0 < ?p" by (simp add: PushBytes instruction_size_def)
    show ?thesis
      using 3(1) [OF _ refl refl PushBytes] p pos by (auto simp: PushBytes Let_def split: sum.splits)
  next
    case (Op opc)
    show ?thesis
    proof (cases "opc = OP_IF \<and> ret \<noteq> [] \<and> hd ret = TkNum 0")
      case True
      then have start: "0 < p" using 3(5) by blast
      show ?thesis
      proof (cases "lex_envelope script it ?p")
        case None
        then show ?thesis using lex_envelope_fits(1) [OF p(2)] by simp
      next
        case (Some r)
        show ?thesis
        proof (cases r)
          case (Inl e)
          then show ?thesis using True Some p(1) by (simp add: Op Let_def)
        next
          case (Inr ip)
          obtain it' p' where ip: "ip = (it', p')" by (cases ip)
          have fit: "fits script p' it'" "?p \<le> p'" "p' \<le> length script"
            using lex_envelope_fits(2) [OF p(2)] Some Inr ip by simp_all
          then have "\<not> (p < 1 \<or> p' < p - 1 \<or> length script < p')" using start by linarith
          then obtain env where env: "envelope_bytes p p' script = Some env"
            by (simp add: envelope_bytes_def)
          have "lex_loop S script it' p' (TkInscription env # tl ret) \<noteq> None"
            using 3(2) [OF _ refl refl Op True Some Inr ip [symmetric] env] p(1) fit start by simp
          then show ?thesis using True Some Inr ip env p(1) by (simp add: Op Let_def)
        qed
      qed
    next
      case False
      have pos: "0 < ?p" by (simp add: Op instruction_size_def)
      show ?thesis
        using 3(3) [OF _ refl refl Op False] p pos False by (auto simp: Op Let_def split: sum.splits)
    qed
  qed
qed auto

lemma lex_script_total: "instructions_fit S \<Longrightarrow> lex_script S script \<noteq> None"
  using lex_loop_total [of script 0 "instructions S script" "[]" S]
  by (simp add: lex_script_def instructions_fit_def)

subsection \<open>The tokens of the lexer\<close>

lemma lex_op_tok_ok: "lex_op opc ret = Inr ret' \<Longrightarrow> list_all tok_ok ret \<Longrightarrow> list_all tok_ok ret'"
  by (cases opc) (auto simp: lex_op_def split: list.splits token.splits)

lemma lex_push_tok_ok: "lex_push S b ret = Inr ret' \<Longrightarrow> list_all tok_ok ret \<Longrightarrow> list_all tok_ok ret'"
  by (auto simp: lex_push_def split: if_splits sum.splits)

lemma lex_loop_tok_ok:
  "lex_loop S script it p ret = Some (Inr toks) \<Longrightarrow> list_all tok_ok ret \<Longrightarrow> list_all tok_ok toks"
proof (induction S script it p ret rule: lex_loop.induct)
  case (3 S script ins it p ret)
  have "list_all tok_ok (tl ret)" using 3(5) by (cases ret) auto
  then show ?case
    using 3 lex_op_tok_ok lex_push_tok_ok
    by (auto simp: Let_def split: instruction.splits if_splits option.splits sum.splits)
qed auto

lemma lex_script_tok_ok: "lex_script S script = Some (Inr toks) \<Longrightarrow> list_all tok_ok toks"
  by (auto simp: lex_script_def dest: lex_loop_tok_ok)

subsection \<open>The composition\<close>

lemma decode_with_ext_total: "instructions_fit (dc_script D) \<Longrightarrow> decode_with_ext D ext script \<noteq> None"
  using lex_script_total [of "dc_script D" script] decode_total [of D]
  by (auto simp del: not_None_eq simp: decode_with_ext_def split: option.splits sum.splits list.splits prod.splits)

lemma decode_with_ext_Inr:
  assumes "decode_with_ext D ext script = Some (Inr ms)"
  obtains tokens where "lex_script (dc_script D) script = Some (Inr tokens)" "decode D tokens = Some (Inr (ms, []))"
    "check_global_validity (dc_ctx D) (dc_keys D) ms = Inr ()" "ext_params_check (dc_ctx D) (dc_keys D) ext ms = Inr ()"
    "\<exists>ty. ty_check (ms_node ms) = Inr ty \<and> base (corr ty) = BaseB"
  using assms
  by (auto simp: decode_with_ext_def split: option.splits sum.splits list.splits prod.splits if_splits)

lemma decode_with_ext_sound:
  assumes "decode_with_ext D ext script = Some (Inr ms)" "decoder_laws D"
  shows "\<exists>tokens. lex_script (dc_script D) script = Some (Inr tokens) \<and> atoms (rev tokens) = atoms_of D ms"
    and "built_ok (dc_lib D) (dc_keys D) (dc_ctx D) ms"
    and "base (corr (ms_ty ms)) = BaseB"
    and "check_global_validity (dc_ctx D) (dc_keys D) ms = Inr ()"
    and "ext_params_check (dc_ctx D) (dc_keys D) ext ms = Inr ()"
proof -
  obtain tokens where d: "lex_script (dc_script D) script = Some (Inr tokens)" "decode D tokens = Some (Inr (ms, []))"
    "check_global_validity (dc_ctx D) (dc_keys D) ms = Inr ()" "ext_params_check (dc_ctx D) (dc_keys D) ext ms = Inr ()"
    "\<exists>ty. ty_check (ms_node ms) = Inr ty \<and> base (corr ty) = BaseB"
    by (rule decode_with_ext_Inr [OF assms(1)])
  have toks: "list_all tok_ok tokens" by (rule lex_script_tok_ok [OF d(1)])
  show "\<exists>tokens. lex_script (dc_script D) script = Some (Inr tokens) \<and> atoms (rev tokens) = atoms_of D ms"
    using d(1) decode_exact [OF d(2) assms(2) toks] by simp
  show ok: "built_ok (dc_lib D) (dc_keys D) (dc_ctx D) ms"
    using decode_loop_terms_ok [of D "[NtExpression, NtMaybeAndV]" "[]" tokens ms "[]"] d(2) toks
    by (simp add: decode_def terms_ok_def)
  show "base (corr (ms_ty ms)) = BaseB" using d(5) ok by (cases ms) (auto simp: built_ok_def)
  show "check_global_validity (dc_ctx D) (dc_keys D) ms = Inr ()"
    "ext_params_check (dc_ctx D) (dc_keys D) ext ms = Inr ()" by (rule d)+
qed

end
