(* ===== verification/RefScript.thy ===== *)
theory RefScript
  imports RefLib DecodeScript
begin

section \<open>A reference instance of the script crate\<close>

text \<open>
  A concrete \<open>script_lib\<close> that encodes and parses scripts the way the consensus rules do, the
  proof that it satisfies \<open>script_laws\<close> and \<open>instructions_fit\<close>, and a decoder of the keys of
  \<open>RefLib\<close>.  The examples of the development run the decoder on it.
\<close>

subsection \<open>Opcodes\<close>

fun ref_opcode_byte :: "opcode \<Rightarrow> u8" where
  "ref_opcode_byte OP_FALSE = 0x00"
| "ref_opcode_byte OP_PUSHNUM_NEG1 = 0x4f"
| "ref_opcode_byte (OP_PUSHNUM n) = 0x50 + of_nat n"
| "ref_opcode_byte OP_IF = 0x63"
| "ref_opcode_byte OP_NOTIF = 0x64"
| "ref_opcode_byte OP_ELSE = 0x67"
| "ref_opcode_byte OP_ENDIF = 0x68"
| "ref_opcode_byte OP_VERIFY = 0x69"
| "ref_opcode_byte OP_TOALTSTACK = 0x6b"
| "ref_opcode_byte OP_FROMALTSTACK = 0x6c"
| "ref_opcode_byte OP_IFDUP = 0x73"
| "ref_opcode_byte OP_DROP = 0x75"
| "ref_opcode_byte OP_DUP = 0x76"
| "ref_opcode_byte OP_SWAP = 0x7c"
| "ref_opcode_byte OP_SIZE = 0x82"
| "ref_opcode_byte OP_EQUAL = 0x87"
| "ref_opcode_byte OP_EQUALVERIFY = 0x88"
| "ref_opcode_byte OP_0NOTEQUAL = 0x92"
| "ref_opcode_byte OP_ADD = 0x93"
| "ref_opcode_byte OP_BOOLAND = 0x9a"
| "ref_opcode_byte OP_BOOLOR = 0x9b"
| "ref_opcode_byte OP_NUMEQUAL = 0x9c"
| "ref_opcode_byte OP_NUMEQUALVERIFY = 0x9d"
| "ref_opcode_byte OP_RIPEMD160 = 0xa6"
| "ref_opcode_byte OP_SHA256 = 0xa8"
| "ref_opcode_byte OP_HASH160 = 0xa9"
| "ref_opcode_byte OP_HASH256 = 0xaa"
| "ref_opcode_byte OP_CHECKSIG = 0xac"
| "ref_opcode_byte OP_CHECKSIGVERIFY = 0xad"
| "ref_opcode_byte OP_CHECKMULTISIG = 0xae"
| "ref_opcode_byte OP_CHECKMULTISIGVERIFY = 0xaf"
| "ref_opcode_byte OP_CLTV = 0xb1"
| "ref_opcode_byte OP_CSV = 0xb2"
| "ref_opcode_byte OP_NOP4 = 0xb3"
| "ref_opcode_byte OP_CHECKSIGADD = 0xba"
| "ref_opcode_byte (OP_OTHER b) = b"

definition named_opcodes :: "opcode list" where
  "named_opcodes =
     [OP_PUSHNUM_NEG1, OP_IF, OP_NOTIF, OP_ELSE, OP_ENDIF, OP_VERIFY, OP_TOALTSTACK, OP_FROMALTSTACK,
      OP_IFDUP, OP_DROP, OP_DUP, OP_SWAP, OP_SIZE, OP_EQUAL, OP_EQUALVERIFY, OP_0NOTEQUAL, OP_ADD,
      OP_BOOLAND, OP_BOOLOR, OP_NUMEQUAL, OP_NUMEQUALVERIFY, OP_RIPEMD160, OP_SHA256, OP_HASH160,
      OP_HASH256, OP_CHECKSIG, OP_CHECKSIGVERIFY, OP_CHECKMULTISIG, OP_CHECKMULTISIGVERIFY, OP_CLTV,
      OP_CSV, OP_NOP4, OP_CHECKSIGADD] @ map OP_PUSHNUM [1..<17]"

definition ref_opcode :: "u8 \<Rightarrow> opcode" where
  "ref_opcode b =
     (case find (\<lambda>opc. ref_opcode_byte opc = b) named_opcodes of Some opc \<Rightarrow> opc | None \<Rightarrow> OP_OTHER b)"

lemma ref_opcode_byte_list:
  "list_all (\<lambda>opc. ref_opcode (ref_opcode_byte opc) = opc \<and> 78 < unat (ref_opcode_byte opc)) named_opcodes"
  by code_simp

lemma named_opcode_iff: "named_opcode opc \<Longrightarrow> opc \<noteq> OP_FALSE \<Longrightarrow> opc \<in> set named_opcodes"
  by (cases opc) (auto simp: named_opcodes_def)

lemma ref_opcode_ref_opcode_byte:
  assumes "named_opcode opc" "opc \<noteq> OP_FALSE"
  shows "ref_opcode (ref_opcode_byte opc) = opc" "78 < unat (ref_opcode_byte opc)"
  using ref_opcode_byte_list named_opcode_iff [OF assms] by (auto simp: list_all_iff)

subsection \<open>Parsing\<close>

definition le_value :: "bytes \<Rightarrow> nat" where
  "le_value b = foldr (\<lambda>x n. unat x + 256 * n) b 0"

definition read_push :: "nat \<Rightarrow> bytes \<Rightarrow> (bytes \<times> bytes) option" where
  "read_push w bs =
     (let n = le_value (take w bs) in
      if length bs < w + n then None else Some (take n (drop w bs), drop (w + n) bs))"

fun push_width :: "u8 \<Rightarrow> nat" where
  "push_width b = (if b = 0x4c then 1 else if b = 0x4d then 2 else if b = 0x4e then 4 else 0)"

lemma read_push_shorter: "read_push w bs = Some (x, rest) \<Longrightarrow> length rest \<le> length bs"
  by (auto simp: read_push_def Let_def split: if_splits)

function ref_instructions :: "bytes \<Rightarrow> instr_iter" where
  "ref_instructions [] = []"
| "ref_instructions (b # bs) =
     (if unat b < 76 then
        (if length bs < unat b then [Inl EarlyEndOfScript]
         else Inr (PushBytes (take (unat b) bs)) # ref_instructions (drop (unat b) bs))
      else if unat b < 79 then
        (case read_push (push_width b) bs of
           None \<Rightarrow> [Inl EarlyEndOfScript]
         | Some (x, rest) \<Rightarrow> Inr (PushBytes x) # ref_instructions rest)
      else Inr (Op (ref_opcode b)) # ref_instructions bs)"
  by pat_completeness auto
termination
  by (relation "measure length") (auto dest!: read_push_shorter)

fun magnitude_bytes :: "nat \<Rightarrow> nat \<Rightarrow> bytes" where
  "magnitude_bytes 0 n = []"
| "magnitude_bytes (Suc f) n = (if n = 0 then [] else of_nat n # magnitude_bytes f (n div 256))"

definition ref_scriptint_bytes :: "int \<Rightarrow> bytes" where
  "ref_scriptint_bytes n =
     (let m = magnitude_bytes 9 (nat \<bar>n\<bar>); s = (if n < 0 then 0x80 else 0) in
      if m = [] then []
      else if 128 \<le> unat (last m) then m @ [s] else butlast m @ [last m + s])"

definition ref_read_scriptint :: "bytes \<Rightarrow> script_error + int" where
  "ref_read_scriptint b =
     (if 4 < length b then Inl NumericOverflow
      else if b = [] then Inr 0
      else if unat (last b) mod 128 = 0 \<and> (length b \<le> 1 \<or> unat (last (butlast b)) < 128) then Inl NonMinimalPush
      else (let m = int (le_value (butlast b @ [of_nat (unat (last b) mod 128)])) in
            Inr (if 128 \<le> unat (last b) then - m else m)))"

definition ref_script :: script_lib where
  "ref_script =
     (let S0 = \<lparr>into_script = (\<lambda>_. []), instructions = ref_instructions, read_scriptint = ref_read_scriptint,
                scriptint_bytes = ref_scriptint_bytes, opcode_byte = ref_opcode_byte\<rparr> in
      S0\<lparr>into_script := \<lambda>b. concat (map (instruction_bytes S0) (builder_instructions ref_btc S0 b))\<rparr>)"

subsection \<open>The laws\<close>

fun fit_instruction :: "instruction \<Rightarrow> bool" where
  "fit_instruction (PushBytes x) = (length x < 2 ^ 32)"
| "fit_instruction (Op opc) = (named_opcode opc \<and> opc \<noteq> OP_FALSE)"

lemma le_value_Cons [simp]: "le_value [] = 0" "le_value (of_nat n # bs) = n mod 256 + 256 * le_value bs"
  by (simp_all add: le_value_def unat_of_nat)

lemma div_mod_256: "n mod 256 + 256 * (n div 256) = (n::nat)"
  by simp

lemma div_digits: "(n::nat) div 65536 = n div 256 div 256" "n div 16777216 = n div 256 div 256 div 256"
  by (simp_all add: div_mult2_eq [symmetric])

lemma le_value_push:
  "n < 0x100 \<Longrightarrow> le_value [of_nat n :: u8] = n"
  "n < 0x10000 \<Longrightarrow> le_value [of_nat n :: u8, of_nat (n div 0x100)] = n"
  "n < 2 ^ 32 \<Longrightarrow> le_value [of_nat n :: u8, of_nat (n div 0x100), of_nat (n div 0x10000), of_nat (n div 0x1000000)] = n"
  using div_mod_256 [of n] div_mod_256 [of "n div 256"] div_mod_256 [of "n div 256 div 256"]
  by (simp_all add: le_value_Cons div_digits)

lemma read_push_prefix:
  "length p = w \<Longrightarrow> le_value p = length x \<Longrightarrow> read_push w (p @ x @ bs) = Some (x, bs)"
  by (simp add: read_push_def)

lemma ref_instructions_instruction:
  assumes "fit_instruction i" "opcode_byte S = ref_opcode_byte"
  shows "ref_instructions (instruction_bytes S i @ bs) = Inr i # ref_instructions bs"
proof (cases i)
  case (PushBytes x)
  have n: "length x < 2 ^ 32" using assms PushBytes by simp
  consider "length x < 76" | "76 \<le> length x" "length x < 0x100"
    | "0x100 \<le> length x" "length x < 0x10000" | "0x10000 \<le> length x" by linarith
  then show ?thesis
  proof cases
    case 1
    then show ?thesis using PushBytes by (simp add: push_prefix_def unat_of_nat)
  next
    case 2
    then show ?thesis using PushBytes
        read_push_prefix [of "[of_nat (length x)]" 1 x bs] le_value_push(1) [of "length x"]
      by (simp add: push_prefix_def)
  next
    case 3
    then show ?thesis using PushBytes
        read_push_prefix [of "[of_nat (length x), of_nat (length x div 0x100)]" 2 x bs] le_value_push(2) [of "length x"]
      by (simp add: push_prefix_def)
  next
    case 4
    then show ?thesis using PushBytes n
        read_push_prefix [of "[of_nat (length x), of_nat (length x div 0x100), of_nat (length x div 0x10000), of_nat (length x div 0x1000000)]" 4 x bs]
        le_value_push(3) [of "length x"]
      by (simp add: push_prefix_def)
  qed
next
  case (Op opc)
  then show ?thesis using assms ref_opcode_ref_opcode_byte [of opc] by simp
qed

lemma ref_instructions_concat:
  "list_all fit_instruction is \<Longrightarrow> opcode_byte S = ref_opcode_byte \<Longrightarrow>
     ref_instructions (concat (map (instruction_bytes S) is)) = map Inr is"
  by (induction "is") (simp_all add: ref_instructions_instruction)

lemma length_magnitude_bytes: "length (magnitude_bytes f n) \<le> f"
  by (induction f n rule: magnitude_bytes.induct) auto

lemma length_ref_scriptint: "length (ref_scriptint_bytes n) \<le> 10"
  using length_magnitude_bytes [of 9 "nat \<bar>n\<bar>"] by (simp add: ref_scriptint_bytes_def Let_def)

lemma verify_form_fits: "verify_form i = Some v \<Longrightarrow> fit_instruction v"
  by (induction i rule: verify_form.induct) auto

lemma add_call_fits:
  assumes "scriptint_bytes S = ref_scriptint_bytes" "call_fits c" "list_all fit_instruction is"
  shows "list_all fit_instruction (add_call ref_btc S is c)"
proof (cases c)
  case (PushInt n)
  have "length (ref_scriptint_bytes n) < 2 ^ 32" using length_ref_scriptint [of n] by (rule le_less_trans) simp
  then have "fit_instruction (int_instruction S n)" using assms(1) by (auto simp: int_instruction_def)
  then show ?thesis using PushInt assms(3) by simp
next
  case (PushKey pk)
  then show ?thesis using assms by (simp add: ref_btc_def)
next
  case PushVerify
  then show ?thesis using assms
    by (auto simp: list_all_iff split: option.splits dest: verify_form_fits in_set_butlastD)
qed (use assms in auto)

lemma builder_instructions_fit:
  "scriptint_bytes S = ref_scriptint_bytes \<Longrightarrow> slices_fit b \<Longrightarrow>
   list_all fit_instruction (builder_instructions ref_btc S b)"
  by (induction b rule: rev_induct) (simp_all add: builder_instructions_snoc slices_fit_def add_call_fits)

lemma builder_instructions_cong:
  "scriptint_bytes S = scriptint_bytes S' \<Longrightarrow> builder_instructions L S b = builder_instructions L S' b"
proof (induction b rule: rev_induct)
  case (snoc c b)
  then show ?case by (cases c) (simp_all add: builder_instructions_snoc int_instruction_def)
qed simp

lemma instruction_bytes_cong: "opcode_byte S = opcode_byte S' \<Longrightarrow> instruction_bytes S i = instruction_bytes S' i"
  by (cases i) auto

lemma ref_script_sel:
  "instructions ref_script = ref_instructions" "scriptint_bytes ref_script = ref_scriptint_bytes"
  "opcode_byte ref_script = ref_opcode_byte" "read_scriptint ref_script = ref_read_scriptint"
  by (simp_all add: ref_script_def Let_def)

lemma ref_into_script:
  "into_script ref_script b = concat (map (instruction_bytes ref_script) (builder_instructions ref_btc ref_script b))"
proof -
  define S0 where "S0 = \<lparr>into_script = (\<lambda>_. []), instructions = ref_instructions, read_scriptint = ref_read_scriptint,
                scriptint_bytes = ref_scriptint_bytes, opcode_byte = ref_opcode_byte\<rparr>"
  have "into_script ref_script b = concat (map (instruction_bytes S0) (builder_instructions ref_btc S0 b))"
    by (simp add: ref_script_def Let_def S0_def)
  moreover have "builder_instructions ref_btc S0 b = builder_instructions ref_btc ref_script b"
    by (rule builder_instructions_cong) (simp add: S0_def ref_script_sel)
  moreover have "instruction_bytes S0 = instruction_bytes ref_script"
    by (rule ext, rule instruction_bytes_cong) (simp add: S0_def ref_script_sel)
  ultimately show ?thesis by simp
qed

lemma ref_script_laws: "script_laws ref_btc ref_script"
  unfolding script_laws_def
  by (simp add: ref_into_script ref_script_sel ref_instructions_concat builder_instructions_fit)

subsection \<open>Positions\<close>

lemma read_push_Some: "read_push w bs = Some (x, rest) \<Longrightarrow> rest = drop (w + length x) bs"
  by (auto simp: read_push_def Let_def split: if_splits)

lemma push_width_size:
  "76 \<le> unat b \<Longrightarrow> unat b < 79 \<Longrightarrow> instruction_size b (PushBytes x) = Suc (push_width b + length x)"
  by (auto simp: instruction_size_def word_unat_eq_iff)

lemma small_push_size: "unat b < 76 \<Longrightarrow> instruction_size b (PushBytes x) = Suc (length x)"
  by (auto simp: instruction_size_def)

lemma ref_instructions_fits:
  "p \<le> length script \<Longrightarrow> drop p script = bs \<Longrightarrow> fits script p (ref_instructions bs)"
proof (induction bs arbitrary: p rule: ref_instructions.induct)
  case 1
  then show ?case by simp
next
  case (2 b bs)
  have "drop p script = b # bs" by (rule 2(5))
  moreover from this have "p < length script" by (metis drop_all linorder_not_less list.distinct(1))
  ultimately have p: "p < length script" "script ! p = b" "drop (Suc p) script = bs"
    using 2(4) nth_via_drop [of p script b bs] drop_Suc [of p script] tl_drop [of p script]
    by simp_all
  have d: "drop (Suc p + k) script = drop k bs" for k
    using p(3) drop_drop [of k "Suc p" script] by (simp add: add.commute)
  have len: "length bs = length script - Suc p" unfolding p(3) [symmetric] by simp
  show ?case
  proof (cases "unat b < 76")
    case True
    then show ?thesis
      using p(1,2) 2(1) [of "Suc p + unat b"] d [of "unat b"] len small_push_size [of b "take (unat b) bs"]
      by (auto simp: not_less)
  next
    case ge: False
    show ?thesis
    proof (cases "unat b < 79")
      case True
      show ?thesis
      proof (cases "read_push (push_width b) bs")
        case None
        then show ?thesis using ge True by simp
      next
        case (Some r)
        obtain x rest where r: "r = (x, rest)" by (cases r)
        have "fits script (Suc p + (push_width b + length x)) (ref_instructions rest)"
        proof (rule 2(2) [OF ge True Some [unfolded r] refl])
          show "drop (Suc p + (push_width b + length x)) script = rest"
            using d [of "push_width b + length x"] read_push_Some [OF Some [unfolded r]] by simp
          have "push_width b + length x \<le> length bs"
            using Some r by (auto simp: read_push_def Let_def split: if_splits)
          then show "Suc p + (push_width b + length x) \<le> length script" using len p(1) by simp
        qed
        moreover have "Suc p + (push_width b + length x) \<le> length script"
          using Some r len p(1) by (auto simp: read_push_def Let_def split: if_splits)
        ultimately show ?thesis using ge True Some r p push_width_size [of b x] by simp
      qed
    next
      case False
      then show ?thesis
        using ge p 2(3) [of "Suc p"] by (simp add: instruction_size_def)
    qed
  qed
qed

lemma ref_instructions_fit: "instructions_fit ref_script"
  by (simp add: instructions_fit_def ref_script_sel ref_instructions_fits)

subsection \<open>A decoder\<close>

definition ref_from_slice :: "bytes \<Rightarrow> nat option" where
  "ref_from_slice b =
     (case b of
        c # n # r \<Rightarrow> if c = 2 \<and> r = replicate 31 9 then Some (unat n) else None
      | _ \<Rightarrow> None)"

definition ref_decoder :: "nat decoder" where
  "ref_decoder =
     \<lparr>dc_lib = ref_btc, dc_script = ref_script, dc_keys = ref_keys, dc_ctx = Segwitv0,
      dc_from_slice = ref_from_slice\<rparr>"

lemma ref_decoder_laws: "decoder_laws ref_decoder"
proof -
  have "ms_key_bytes ref_decoder n = b \<and> full_key_bytes ref_decoder n = b \<and> length b = 33"
    if "ref_from_slice b = Some n" for b n
    using that
    by (auto simp: ref_decoder_def ref_from_slice_def ms_key_bytes_def full_key_bytes_def
        ref_btc_def ref_keys_def ref_point_def split: list.splits if_splits)
  then show ?thesis
    by (auto simp: decoder_laws_def key_parse_laws_def ref_decoder_def ref_script_laws)
qed

end
