(* ===== verification/Examples.thy ===== *)
theory Examples
  imports RefScript
begin

section \<open>Example miniscripts\<close>

text \<open>
  Three miniscripts over the keys of \<open>RefLib\<close>, and what the witnesses of the properties need of them:
  that they are built and typed, that the reference caller is honest, and what the satisfier returns.
\<close>

subsection \<open>Miniscripts\<close>

text \<open>\<open>or_d(pk(1), and_v(v:pkh(2), older(10)))\<close> in Segwit v0, built node by node.\<close>

definition ex_pk :: "nat miniscript" where
  "ex_pk = mk_ms Segwitv0 (Check (mk_ms Segwitv0 (PkK 1)))"

definition ex_and :: "nat miniscript" where
  "ex_and = mk_ms Segwitv0 (AndV (mk_ms Segwitv0 (Verify (mk_ms Segwitv0 (Check (mk_ms Segwitv0 (PkH 2))))))
     (mk_ms Segwitv0 (Older (RelLockTime 10))))"

definition ex_or :: "nat miniscript" where
  "ex_or = mk_ms Segwitv0 (OrD ex_pk ex_and)"

text \<open>\<open>thresh(2, pk(1), s:pk(2), s:pk(3))\<close>.\<close>

definition ex_swap :: "nat \<Rightarrow> nat miniscript" where
  "ex_swap k = mk_ms Segwitv0 (Swap (mk_ms Segwitv0 (Check (mk_ms Segwitv0 (PkK k)))))"

definition ex_thresh :: "nat miniscript" where
  "ex_thresh = mk_ms Segwitv0 (Thresh (Threshold 2 [ex_pk, ex_swap 2, ex_swap 3]))"

lemma ex_or_built: "built ref_btc ref_keys Segwitv0 ex_or"
  by code_simp

lemma ex_or_typed: "typed_ms ex_or"
  using built_typed [OF ex_or_built] by simp

lemma ex_or_base: "base (corr (ms_ty ex_or)) = BaseB"
  by code_simp

lemma ex_thresh_typed: "typed_ms ex_thresh"
  by code_simp

lemma ex_thresh_base: "base (corr (ms_ty ex_thresh)) = BaseB"
  by code_simp

lemma ex_leaf_hash: "leaf_hash_ok (ref_spend Segwitv0 ks) ms"
  by (simp add: leaf_hash_ok_def ref_spend_def ref_btc_def split: option.splits)

lemma ex_or_honest: "honest (ref_spend Segwitv0 [2]) ex_or"
proof -
  have "list_all (\<lambda>x. node_honest (ref_spend Segwitv0 [2]) (ms_node x)) (pre_order ex_or)" by code_simp
  then show ?thesis by (simp add: honest_def ref_spend_def ref_interp_def)
qed

lemma ex_thresh_honest: "honest (ref_spend Segwitv0 [1, 3]) ex_thresh"
proof -
  have "list_all (\<lambda>x. node_honest (ref_spend Segwitv0 [1, 3]) (ms_node x)) (pre_order ex_thresh)" by code_simp
  then show ?thesis by (simp add: honest_def ref_spend_def ref_interp_def)
qed

lemma ex_or_satisfy:
  "satisfy (sp_lib (ref_spend Segwitv0 [2])) (sp_keys (ref_spend Segwitv0 [2])) (sp_ctx (ref_spend Segwitv0 [2]))
     (sp_sat (ref_spend Segwitv0 [2])) ex_or = Some (Inr [[48, 2], 2 # ref_point 2, []])"
  by code_simp

lemma ex_thresh_satisfy:
  "satisfy_malleable (sp_lib (ref_spend Segwitv0 [1, 3])) (sp_keys (ref_spend Segwitv0 [1, 3]))
     (sp_ctx (ref_spend Segwitv0 [1, 3])) (sp_sat (ref_spend Segwitv0 [1, 3])) ex_thresh
     = Some (Inr [[48, 3], [], [48, 1]])"
  by code_simp

end
