(* ===== verification/ScriptProps.thy ===== *)
theory ScriptProps
  imports Examples
begin

section \<open>Properties of scripts and their rebuilding\<close>

text \<open>
  What the parser of inscriptions, the script decoder, the iterators, the rebuilding of miniscripts and
  the analysis promise.  Each property is followed by an instance on the examples.
\<close>

subsection \<open>Inscriptions\<close>

text \<open>C18.  Round trip of inscriptions: the strict parser reads back from a script exactly the
  inscriptions that were revealed in it, up to the canonical form (no second copy of a field).\<close>

theorem inscription_round_trip:
  assumes "script_laws L S" "\<forall>i \<in> set is. validate i = Inr ()" "is \<noteq> []" "length is < 2 ^ 32"
  shows "parse_inscriptions S (into_script S (reveal_all is)) = Inr (map canonical is)"
  using assms by (rule parse_inscriptions_reveal)

definition ex_small_inscription :: inscription where
  "ex_small_inscription = inscription_new (Some [116]) (Some [104, 105])"

lemma ex_small_inscription_valid: "validate ex_small_inscription = Inr ()"
  by code_simp

theorem inscription_round_trip_witness:
  "parse_inscriptions ref_script (into_script ref_script (reveal_all [ex_small_inscription]))
     = Inr (map canonical [ex_small_inscription])"
  by (rule inscription_round_trip [OF ref_script_laws]) (simp_all add: ex_small_inscription_valid)

text \<open>C19.  The strict parser accepts only what it can reproduce: an accepted script is byte for byte
  what revealing the parsed inscriptions gives, there is at least one, and every one is valid.\<close>

theorem parsed_inscriptions_reproducible:
  assumes "parse_inscriptions S script = Inr is"
  shows "into_script S (reveal_all is) = script \<and> is \<noteq> [] \<and> (\<forall>i \<in> set is. validate i = Inr ())"
  using assms by (rule parse_inscriptions_exact)

definition ex_envelope :: bytes where
  "ex_envelope = [0x00, 0x63, 3, 111, 114, 100, 1, 1, 1, 116, 0x00, 2, 104, 105, 0x68]"

lemma ex_envelope_parse:
  "parse_inscriptions ref_script ex_envelope = Inr [ex_small_inscription]"
proof -
  have "into_script ref_script (reveal_all [ex_small_inscription]) = ex_envelope"
    "canonical ex_small_inscription = ex_small_inscription" by code_simp+
  then show ?thesis
    using parse_inscriptions_reveal [OF ref_script_laws, of "[ex_small_inscription]"]
    by (simp add: ex_small_inscription_valid)
qed

theorem parsed_inscriptions_reproducible_witness:
  "into_script ref_script (reveal_all [ex_small_inscription]) = ex_envelope
     \<and> validate ex_small_inscription = Inr ()"
  using parsed_inscriptions_reproducible [OF ex_envelope_parse] by simp

subsection \<open>The decoder\<close>

text \<open>C20.  Decoding never panics: whatever the bytes, lexing and parsing end, no stack is popped
  empty, no slice is out of range, and the final assertions hold.\<close>

theorem decode_never_panics:
  assumes "instructions_fit (dc_script D)"
  shows "\<exists>r. decode_with_ext D ext script = Some r"
  using decode_with_ext_total [OF assms] by auto

theorem decode_never_panics_witness:
  "\<exists>r. decode_with_ext ref_decoder ext_params_sane [0x63, 0x4d, 0xff] = Some r"
  by (rule decode_never_panics) (simp add: ref_decoder_def ref_instructions_fit)





end
