(* ===== verification/Translate.thy ===== *)
theory Translate
  imports MsTree Build
begin

section \<open>Rebuilding a miniscript\<close>

text \<open>
  The three loops of \<^verbatim>\<open>miniscript/mod.rs\<close> over \<open>rtl_post_order_iter\<close> that rebuild a
  miniscript with a stack of the children rebuilt so far: \<open>clone\<close>, \<open>translate_pk_ctx\<close> and
  \<open>substitute_raw_pkh\<close>.  They have the arms for fragments with children in common (\<open>rebuild_node\<close>), and
  differ in what they do with a leaf and in how they mk_new a miniscript of the new fragment.
\<close>

subsection \<open>One step\<close>

text \<open>\<open>None\<close> is the panic of a \<open>pop().unwrap()\<close> on an empty stack.  The stack has its top first.\<close>

definition pop1 :: "('d \<Rightarrow> 'n) \<Rightarrow> 'd list \<Rightarrow> ('e + 'n \<times> 'd list) option" where
  "pop1 f stack = (case stack of x # st \<Rightarrow> Some (Inr (f x, st)) | _ \<Rightarrow> None)"

definition pop2 :: "('d \<Rightarrow> 'd \<Rightarrow> 'n) \<Rightarrow> 'd list \<Rightarrow> ('e + 'n \<times> 'd list) option" where
  "pop2 f stack = (case stack of x # y # st \<Rightarrow> Some (Inr (f x y, st)) | _ \<Rightarrow> None)"

definition pop3 :: "('d \<Rightarrow> 'd \<Rightarrow> 'd \<Rightarrow> 'n) \<Rightarrow> 'd list \<Rightarrow> ('e + 'n \<times> 'd list) option" where
  "pop3 f stack = (case stack of x # y # z # st \<Rightarrow> Some (Inr (f x y z, st)) | _ \<Rightarrow> None)"

text \<open>\<open>thresh.map_ref(|_| stack.pop().unwrap())\<close>.\<close>

definition pop_threshold :: "('d threshold \<Rightarrow> 'n) \<Rightarrow> 'c threshold \<Rightarrow> 'd list \<Rightarrow> ('e + 'n \<times> 'd list) option" where
  "pop_threshold f thresh stack =
     (if length stack < thr_n thresh then None
      else Some (Inr (f (Threshold (thr_k thresh) (take (thr_n thresh) stack)), drop (thr_n thresh) stack)))"

fun rebuild_node ::
    "(('pk, 'c) terminal \<Rightarrow> 'e + ('q, 'd) terminal) \<Rightarrow> ('pk, 'c) terminal \<Rightarrow> 'd list
      \<Rightarrow> ('e + ('q, 'd) terminal \<times> 'd list) option" where
  "rebuild_node leaf (InscribePre i _) st = pop1 (InscribePre i) st"
| "rebuild_node leaf (InscribePost i _) st = pop1 (InscribePost i) st"
| "rebuild_node leaf (Alt _) st = pop1 Alt st"
| "rebuild_node leaf (Swap _) st = pop1 Swap st"
| "rebuild_node leaf (Check _) st = pop1 Check st"
| "rebuild_node leaf (DupIf _) st = pop1 DupIf st"
| "rebuild_node leaf (Verify _) st = pop1 Verify st"
| "rebuild_node leaf (NonZero _) st = pop1 NonZero st"
| "rebuild_node leaf (ZeroNotEqual _) st = pop1 ZeroNotEqual st"
| "rebuild_node leaf (AndV _ _) st = pop2 AndV st"
| "rebuild_node leaf (AndB _ _) st = pop2 AndB st"
| "rebuild_node leaf (AndOr _ _ _) st = pop3 AndOr st"
| "rebuild_node leaf (OrB _ _) st = pop2 OrB st"
| "rebuild_node leaf (OrD _ _) st = pop2 OrD st"
| "rebuild_node leaf (OrC _ _) st = pop2 OrC st"
| "rebuild_node leaf (OrI _ _) st = pop2 OrI st"
| "rebuild_node leaf (Thresh t) st = pop_threshold Thresh t st"
| "rebuild_node leaf term st = Some (map_sum id (\<lambda>n. (n, st)) (leaf term))"

text \<open>The loop: \<open>mk_new\<close> turns the rebuilt fragment of a node into a miniscript.\<close>

definition rebuild_step ::
    "(('pk, 'pk miniscript) terminal \<Rightarrow> 'e + ('q, 'q miniscript) terminal)
      \<Rightarrow> ('pk miniscript \<Rightarrow> ('q, 'q miniscript) terminal \<Rightarrow> 'e + 'q miniscript)
      \<Rightarrow> 'pk miniscript \<Rightarrow> 'q miniscript list \<Rightarrow> ('e + 'q miniscript list) option" where
  "rebuild_step leaf mk_new ms stack =
     (case rebuild_node leaf (ms_node ms) stack of
        None \<Rightarrow> None
      | Some (Inl e) \<Rightarrow> Some (Inl e)
      | Some (Inr (new_term, stack')) \<Rightarrow> Some (map_sum id (\<lambda>new. new # stack') (mk_new ms new_term)))"

subsection \<open>The three operations\<close>

text \<open>The leaves of \<open>clone\<close>; the arms for other fragments are those of \<open>rebuild_node\<close>.\<close>

fun clone_leaf :: "('pk, 'c) terminal \<Rightarrow> 'e + ('pk, 'd) terminal" where
  "clone_leaf (PkK p) = Inr (PkK p)"
| "clone_leaf (PkH p) = Inr (PkH p)"
| "clone_leaf (RawPkH p) = Inr (RawPkH p)"
| "clone_leaf (After n) = Inr (After n)"
| "clone_leaf (Older n) = Inr (Older n)"
| "clone_leaf (Sha256 x) = Inr (Sha256 x)"
| "clone_leaf (Hash256 x) = Inr (Hash256 x)"
| "clone_leaf (Ripemd160 x) = Inr (Ripemd160 x)"
| "clone_leaf (Hash160 x) = Inr (Hash160 x)"
| "clone_leaf (TxTemplate h) = Inr (TxTemplate h)"
| "clone_leaf TrueT = Inr TrueT"
| "clone_leaf (Multi t) = Inr (Multi t)"
| "clone_leaf (MultiA t) = Inr (MultiA t)"
| "clone_leaf _ = Inr FalseT"

definition clone :: "'pk miniscript \<Rightarrow> 'pk miniscript option" where
  "clone ms =
     (case rtl_loop_one ms_tree
        (rebuild_step clone_leaf (\<lambda>old new_term. Inr (Miniscript new_term (ms_ty old) (ms_ext old)) :: unit + _)) ms of
        Some (Inr new) \<Rightarrow> Some new
      | _ \<Rightarrow> None)"

text \<open>The translator of the caller: a function per kind of object, which may fail.\<close>

record ('pk, 'q, 'e) translator =
  tr_pk :: "'pk \<Rightarrow> 'e + 'q"
  tr_sha256 :: "hash \<Rightarrow> 'e + hash"
  tr_hash256 :: "hash \<Rightarrow> 'e + hash"
  tr_ripemd160 :: "hash \<Rightarrow> 'e + hash"
  tr_hash160 :: "hash \<Rightarrow> 'e + hash"

datatype 'e translate_err = TranslatorErr 'e | OuterError ms_error

fun translate_leaf ::
    "('pk, 'q, 'e) translator \<Rightarrow> ('pk, 'c) terminal \<Rightarrow> 'e translate_err + ('q, 'd) terminal" where
  "translate_leaf T (PkK p) = map_sum TranslatorErr PkK (tr_pk T p)"
| "translate_leaf T (PkH p) = map_sum TranslatorErr PkH (tr_pk T p)"
| "translate_leaf T (RawPkH p) = Inr (RawPkH p)"
| "translate_leaf T (After n) = Inr (After n)"
| "translate_leaf T (Older n) = Inr (Older n)"
| "translate_leaf T (Sha256 x) = map_sum TranslatorErr Sha256 (tr_sha256 T x)"
| "translate_leaf T (Hash256 x) = map_sum TranslatorErr Hash256 (tr_hash256 T x)"
| "translate_leaf T (Ripemd160 x) = map_sum TranslatorErr Ripemd160 (tr_ripemd160 T x)"
| "translate_leaf T (Hash160 x) = map_sum TranslatorErr Hash160 (tr_hash160 T x)"
| "translate_leaf T (TxTemplate h) = Inr (TxTemplate h)"
| "translate_leaf T TrueT = Inr TrueT"
| "translate_leaf T (Multi t) = map_sum TranslatorErr Multi (threshold_translate (tr_pk T) t)"
| "translate_leaf T (MultiA t) = map_sum TranslatorErr MultiA (threshold_translate (tr_pk T) t)"
| "translate_leaf T _ = Inr FalseT"

definition translate_pk_ctx ::
    "btc \<Rightarrow> 'q key_ops \<Rightarrow> script_context \<Rightarrow> ('pk, 'q, 'e) translator \<Rightarrow> 'pk miniscript
      \<Rightarrow> ('e translate_err + 'q miniscript) option" where
  "translate_pk_ctx L K ctx T ms =
     rtl_loop ms_tree
       (rebuild_step (translate_leaf T) (\<lambda>_ new_term. map_sum OuterError id (from_ast L K ctx new_term))) ms"

text \<open>The map of \<open>substitute_raw_pkh\<close> is a finite map from hashes to keys.\<close>

fun substitute_leaf :: "(hash \<Rightarrow> 'pk option) \<Rightarrow> ('pk, 'c) terminal \<Rightarrow> 'e + ('pk, 'd) terminal" where
  "substitute_leaf pk_map (RawPkH hash) =
     (case pk_map hash of Some p \<Rightarrow> Inr (PkH p) | None \<Rightarrow> Inr (RawPkH hash))"
| "substitute_leaf pk_map term = clone_leaf term"

definition substitute_raw_pkh :: "(hash \<Rightarrow> 'pk option) \<Rightarrow> 'pk miniscript \<Rightarrow> 'pk miniscript option" where
  "substitute_raw_pkh pk_map ms =
     (case rtl_loop_one ms_tree
        (rebuild_step (substitute_leaf pk_map)
          (\<lambda>old new_term. Inr (Miniscript new_term (ms_ty old) (ms_ext old)) :: unit + _)) ms of
        Some (Inr new) \<Rightarrow> Some new
      | _ \<Rightarrow> None)"

subsection \<open>The loop is a fold\<close>

text \<open>The fragment with given children.\<close>

definition renew ::
    "(('pk, 'c) terminal \<Rightarrow> 'e + ('q, 'd) terminal) \<Rightarrow> ('pk, 'c) terminal \<Rightarrow> 'd list \<Rightarrow> 'e + ('q, 'd) terminal" where
  "renew leaf n cs = map_sum id fst (the (rebuild_node leaf n cs))"

lemma rebuild_node_renew:
  assumes "length cs = length (children n)"
  shows "rebuild_node leaf n (cs @ rest) = Some (map_sum id (\<lambda>n'. (n', rest)) (renew leaf n cs))"
proof -
  obtain x y z where "cs = [] \<or> cs = [x] \<or> cs = [x, y] \<or> cs = [x, y, z] \<or> 3 < length cs"
    by (cases cs; cases "tl cs"; cases "tl (tl cs)"; cases "tl (tl (tl cs))") auto
  with assms show ?thesis
    by (cases n; cases "leaf n")
      (auto simp: renew_def pop1_def pop2_def pop3_def pop_threshold_def thr_n_def length_Suc_conv)
qed

text \<open>A fragment with children, with its children replaced.\<close>

fun is_leaf :: "('pk, 'c) terminal \<Rightarrow> bool" where
  "is_leaf (InscribePre _ _) = False"
| "is_leaf (InscribePost _ _) = False"
| "is_leaf (Alt _) = False"
| "is_leaf (Swap _) = False"
| "is_leaf (Check _) = False"
| "is_leaf (DupIf _) = False"
| "is_leaf (Verify _) = False"
| "is_leaf (NonZero _) = False"
| "is_leaf (ZeroNotEqual _) = False"
| "is_leaf (AndV _ _) = False"
| "is_leaf (AndB _ _) = False"
| "is_leaf (OrB _ _) = False"
| "is_leaf (OrD _ _) = False"
| "is_leaf (OrC _ _) = False"
| "is_leaf (OrI _ _) = False"
| "is_leaf (AndOr _ _ _) = False"
| "is_leaf (Thresh _) = False"
| "is_leaf _ = True"

fun with_kids :: "('pk, 'c) terminal \<Rightarrow> 'd list \<Rightarrow> ('q, 'd) terminal" where
  "with_kids (InscribePre i _) cs = InscribePre i (cs ! 0)"
| "with_kids (InscribePost i _) cs = InscribePost i (cs ! 0)"
| "with_kids (Alt _) cs = Alt (cs ! 0)"
| "with_kids (Swap _) cs = Swap (cs ! 0)"
| "with_kids (Check _) cs = Check (cs ! 0)"
| "with_kids (DupIf _) cs = DupIf (cs ! 0)"
| "with_kids (Verify _) cs = Verify (cs ! 0)"
| "with_kids (NonZero _) cs = NonZero (cs ! 0)"
| "with_kids (ZeroNotEqual _) cs = ZeroNotEqual (cs ! 0)"
| "with_kids (AndV _ _) cs = AndV (cs ! 0) (cs ! 1)"
| "with_kids (AndB _ _) cs = AndB (cs ! 0) (cs ! 1)"
| "with_kids (OrB _ _) cs = OrB (cs ! 0) (cs ! 1)"
| "with_kids (OrD _ _) cs = OrD (cs ! 0) (cs ! 1)"
| "with_kids (OrC _ _) cs = OrC (cs ! 0) (cs ! 1)"
| "with_kids (OrI _ _) cs = OrI (cs ! 0) (cs ! 1)"
| "with_kids (AndOr _ _ _) cs = AndOr (cs ! 0) (cs ! 1) (cs ! 2)"
| "with_kids (Thresh t) cs = Thresh (Threshold (thr_k t) cs)"
| "with_kids _ cs = TrueT"

lemma renew_eq:
  assumes "length cs = length (children n)"
  shows "renew leaf n cs = (if is_leaf n then leaf n else Inr (with_kids n cs))"
proof -
  obtain x y z where "cs = [] \<or> cs = [x] \<or> cs = [x, y] \<or> cs = [x, y, z] \<or> 3 < length cs"
    by (cases cs; cases "tl cs"; cases "tl (tl cs)"; cases "tl (tl (tl cs))") auto
  with assms show ?thesis
    by (cases n; cases "leaf n")
      (auto simp: renew_def pop1_def pop2_def pop3_def pop_threshold_def thr_n_def numeral_2_eq_2)
qed

lemma with_kids_children [simp]:
  "\<not> is_leaf n \<Longrightarrow> length cs = length (children n) \<Longrightarrow> children (with_kids n cs) = cs"
  by (cases n) (auto simp: length_Suc_conv numeral_2_eq_2)

lemma with_kids_node_ok [simp]:
  "\<not> is_leaf n \<Longrightarrow> length cs = length (children n) \<Longrightarrow> node_ok (with_kids n cs) = node_ok n"
  by (cases n) (auto simp: wf_threshold_def thr_n_def)

lemma with_kids_ty_check:
  assumes "\<not> is_leaf n" "map ms_ty cs = map ms_ty (children n)"
  shows "ty_check (with_kids n cs) = ty_check n"
proof -
  have "length cs = length (children n)" using assms(2) by (metis length_map)
  with assms show ?thesis by (cases n) (auto simp: length_Suc_conv numeral_2_eq_2)
qed

lemma with_kids_ext_check:
  assumes "\<not> is_leaf n" "map ms_ext cs = map ms_ext (children n)"
  shows "ext_check L K ctx (with_kids n cs) = ext_check L K ctx n"
proof -
  have "length cs = length (children n)" using assms(2) by (metis length_map)
  with assms show ?thesis by (cases n) (auto simp: length_Suc_conv numeral_2_eq_2)
qed

lemma is_leaf_children: "is_leaf n \<Longrightarrow> children n = []"
  by (cases n) auto

definition rebuild_at ::
    "(('pk, 'pk miniscript) terminal \<Rightarrow> 'e + ('q, 'q miniscript) terminal)
      \<Rightarrow> ('pk miniscript \<Rightarrow> ('q, 'q miniscript) terminal \<Rightarrow> 'e + 'q miniscript)
      \<Rightarrow> 'pk miniscript \<Rightarrow> 'q miniscript list \<Rightarrow> 'e + 'q miniscript" where
  "rebuild_at leaf mk_new ms cs =
     (case renew leaf (ms_node ms) cs of Inl e \<Rightarrow> Inl e | Inr n \<Rightarrow> mk_new ms n)"

lemma rebuild_at_node:
  "rebuild_at leaf mk_new (Miniscript n ty ext) cs =
     (case renew leaf n cs of Inl e \<Rightarrow> Inl e | Inr n' \<Rightarrow> mk_new (Miniscript n ty ext) n')"
  by (simp add: rebuild_at_def)

lemma rtl_loop_rebuild:
  "rtl_loop ms_tree (rebuild_step leaf mk_new) ms = Some (rose_fold (rebuild_at leaf mk_new) (ms_rose ms))"
  by (rule ms.rtl_loop_fold) (simp add: rebuild_step_def rebuild_at_def rebuild_node_renew split: sum.split)

lemma rtl_loop_one_rebuild:
  "rtl_loop_one ms_tree (rebuild_step leaf mk_new) ms = Some (rose_fold (rebuild_at leaf mk_new) (ms_rose ms))"
  by (rule ms.rtl_loop_one_fold) (simp add: rebuild_step_def rebuild_at_def rebuild_node_renew split: sum.split)

lemma rose_folds_map:
  "(\<And>c. c \<in> set cs \<Longrightarrow> rose_fold g (r c) = Inr (h c)) \<Longrightarrow> rose_folds g (map r cs) = Inr (map h cs)"
  by (induction cs) auto

lemma rose_folds_Inr:
  "rose_folds g (map r cs) = Inr bs \<longleftrightarrow> list_all2 (\<lambda>c b. rose_fold g (r c) = Inr b) cs bs"
proof (induction cs arbitrary: bs)
  case Nil
  then show ?case by auto
next
  case (Cons c cs)
  show ?case
    by (cases "rose_folds g (map r cs)"; cases bs) (auto simp: Cons.IH [symmetric] split: sum.splits)
qed

subsection \<open>Cloning\<close>

lemma renew_clone: "renew clone_leaf n (children n) = Inr n"
  by (cases n) (auto simp: renew_def pop1_def pop2_def pop3_def pop_threshold_def thr_n_def)

lemma clone_id: "clone ms = Some ms"
proof -
  have "rose_fold (rebuild_at clone_leaf (\<lambda>old new_term. Inr (Miniscript new_term (ms_ty old) (ms_ext old)))) (ms_rose ms)
      = (Inr ms :: unit + 'a miniscript)" (is "rose_fold ?g _ = _")
  proof (induction ms rule: ms_rose.induct)
    case (1 n ty ext)
    then have "rose_folds ?g (map ms_rose (children n)) = Inr (map id (children n))"
      by (intro rose_folds_map) simp
    then show ?case by (simp add: rebuild_at_node renew_clone)
  qed
  then show ?thesis by (simp add: clone_def rtl_loop_one_rebuild)
qed

subsection \<open>Translation\<close>

lemma map_miniscript_sel [simp]:
  "ms_ty (map_miniscript f ms) = ms_ty ms" "ms_ext (map_miniscript f ms) = ms_ext ms"
  "ms_node (map_miniscript f ms) = map_terminal f (map_miniscript f) (ms_node ms)"
  by (cases ms, simp)+

lemma children_map [simp]: "children (map_terminal f g n) = map g (children n)"
  by (cases n) (simp_all add: threshold.map_sel)

lemma node_keys_map [simp]: "node_keys (map_terminal f g n) = map f (node_keys n)"
  by (cases n) (simp_all add: threshold.map_sel)

lemma wf_map_threshold [simp]: "wf_threshold mx (map_threshold f t) = wf_threshold mx t"
  by (cases t) (simp add: wf_threshold_def thr_n_def)

lemma node_ok_map [simp]: "node_ok (map_terminal f g n) = node_ok n"
  by (cases n) simp_all

lemma ty_check_map: "ty_check (map_terminal f (map_miniscript f) n) = ty_check n"
  by (cases n) (simp_all add: threshold.map_sel comp_def)

definition same_kind :: "'pk key_ops \<Rightarrow> 'q key_ops \<Rightarrow> ('pk \<Rightarrow> 'q) \<Rightarrow> 'pk \<Rightarrow> bool" where
  "same_kind K K' f pk \<longleftrightarrow>
     is_uncompressed K' (f pk) = is_uncompressed K pk \<and> is_x_only_key K' (f pk) = is_x_only_key K pk"

lemma ext_check_map:
  "(\<And>pk. pk \<in> set (node_keys n) \<Longrightarrow> same_kind K K' f pk) \<Longrightarrow>
   ext_check L K' ctx (map_terminal f (map_miniscript f) n) = ext_check L K ctx n"
  by (cases n) (auto simp: threshold.map_sel comp_def same_kind_def ext_multi_def thr_n_def cong: map_cong)

lemma check_pk_map: "same_kind K K' f pk \<Longrightarrow> check_pk ctx K' (f pk) = check_pk ctx K pk"
  by (cases ctx) (simp_all add: same_kind_def)

lemma check_pks_map:
  "(\<And>pk. pk \<in> set pks \<Longrightarrow> same_kind K K' f pk) \<Longrightarrow> check_pks ctx K' (map f pks) = check_pks ctx K pks"
  by (induction pks) (auto simp: check_pk_map [where K = K] split: sum.splits)

lemma check_node_map:
  "(\<And>pk. pk \<in> set (node_keys n) \<Longrightarrow> same_kind K K' f pk) \<Longrightarrow>
   check_node ctx K' (map_terminal f g n) = check_node ctx K n"
  by (cases n) (simp_all add: threshold.map_sel check_pk_map [where K = K] check_pks_map [where K = K])

lemma from_ast_map:
  assumes "from_ast L K ctx n = Inr (Miniscript n ty ext)"
    and "\<And>pk. pk \<in> set (node_keys n) \<Longrightarrow> same_kind K K' f pk"
  shows "from_ast L K' ctx (map_terminal f (map_miniscript f) n)
     = Inr (Miniscript (map_terminal f (map_miniscript f) n) ty ext)"
  using assms
  by (auto simp: from_ast_def Let_def ty_check_map ext_check_map [where K = K] check_node_map [where K = K]
      check_global_validity_def check_global_consensus_validity_def check_global_policy_validity_def
      and_then_check_def split: sum.splits if_splits)

text \<open>A translator that maps keys and clones hashes.\<close>

definition maps_keys :: "('pk, 'q, 'e) translator \<Rightarrow> ('pk \<Rightarrow> 'q) \<Rightarrow> 'pk list \<Rightarrow> bool" where
  "maps_keys T f pks \<longleftrightarrow>
     list_all (\<lambda>pk. tr_pk T pk = Inr (f pk)) pks
     \<and> tr_sha256 T = Inr \<and> tr_hash256 T = Inr \<and> tr_ripemd160 T = Inr \<and> tr_hash160 T = Inr"

lemma collect_results_map:
  "(\<And>x. x \<in> set xs \<Longrightarrow> g x = Inr (f x)) \<Longrightarrow> collect_results g xs = Inr (map f xs)"
  by (induction xs) auto

lemma renew_translate:
  assumes "maps_keys T f (node_keys n)"
  shows "renew (translate_leaf T) n (map g (children n)) = Inr (map_terminal f g n)"
  using assms
  by (cases n)
    (auto simp: renew_def pop1_def pop2_def pop3_def pop_threshold_def thr_n_def maps_keys_def list_all_iff
      threshold_translate_def collect_results_map map_threshold_def [symmetric] threshold.map_sel
      intro!: threshold.expand split: sum.splits)

lemma concat_concat_map: "concat (concat xss) = concat (map concat xss)"
  by (induction xss) auto

lemma all_keys_unfold:
  "all_keys (Miniscript n ty ext) = node_keys n @ concat (map all_keys (children n))"
proof -
  have "map (node_keys \<circ> ms_node) (concat (map pre_order cs)) = concat (map (map (node_keys \<circ> ms_node) \<circ> pre_order) cs)"
    for cs :: "'a miniscript list"
    by (simp add: map_concat)
  moreover have keys: "all_keys = (\<lambda>ms. concat (map (node_keys \<circ> ms_node) (pre_order ms)))"
    by (simp add: fun_eq_iff all_keys_def)
  ultimately show ?thesis unfolding keys by (simp add: concat_concat_map comp_def)
qed

lemma translate_map:
  assumes "built L K ctx ms" "maps_keys T f (all_keys ms)"
    and "\<And>pk. pk \<in> set (all_keys ms) \<Longrightarrow> same_kind K K' f pk"
  shows "translate_pk_ctx L K' ctx T ms = Some (Inr (map_miniscript f ms)) \<and> built L K' ctx (map_miniscript f ms)"
proof -
  define g where "g = rebuild_at (translate_leaf T) (\<lambda>_ new_term. map_sum OuterError id (from_ast L K' ctx new_term))"
  have g: "g (Miniscript n ty ext) cs = (case renew (translate_leaf T) n cs of Inl e \<Rightarrow> Inl e
      | Inr n' \<Rightarrow> map_sum OuterError id (from_ast L K' ctx n'))" for n ty ext cs
    by (simp add: g_def rebuild_at_node)
  have "rose_fold g (ms_rose ms) = Inr (map_miniscript f ms) \<and> built L K' ctx (map_miniscript f ms)"
    using assms
  proof (induction ms rule: ms_rose.induct)
    case (1 n ty ext)
    have keys: "set (node_keys n) \<subseteq> set (all_keys (Miniscript n ty ext))"
      "\<And>c. c \<in> set (children n) \<Longrightarrow> set (all_keys c) \<subseteq> set (all_keys (Miniscript n ty ext))"
      by (auto simp: all_keys_unfold)
    have sub: "maps_keys T f pks" if "set pks \<subseteq> set (all_keys (Miniscript n ty ext))" for pks
      using 1(3) that by (auto simp: maps_keys_def list_all_iff)
    have c: "rose_fold g (ms_rose c) = Inr (map_miniscript f c) \<and> built L K' ctx (map_miniscript f c)"
      if "c \<in> set (children n)" for c
    proof (rule 1(1) [OF that])
      show "built L K ctx c" using 1(2) that by simp
      show "maps_keys T f (all_keys c)" by (rule sub [OF keys(2) [OF that]])
      show "same_kind K K' f pk" if "pk \<in> set (all_keys c)" for pk
        using 1(4) keys(2) \<open>c \<in> set (children n)\<close> that by blast
    qed
    then have "rose_folds g (map ms_rose (children n)) = Inr (map (map_miniscript f) (children n))"
      by (intro rose_folds_map) simp
    moreover have "from_ast L K' ctx (map_terminal f (map_miniscript f) n)
        = Inr (Miniscript (map_terminal f (map_miniscript f) n) ty ext)"
      using 1(2,4) keys(1) by (intro from_ast_map [where K = K]) auto
    ultimately show ?case
      using 1(2) c renew_translate [OF sub [OF keys(1)], of "map_miniscript f"]
      by (simp add: g)
  qed
  then show ?thesis by (simp add: translate_pk_ctx_def rtl_loop_rebuild g_def)
qed


text \<open>What a translation returns is built: every node of it passed \<open>from_ast\<close>.  A translator keeps
  the lengths of hashes, which their types fix.\<close>

definition keeps_length :: "nat \<Rightarrow> (hash \<Rightarrow> 'e + hash) \<Rightarrow> bool" where
  "keeps_length n f \<longleftrightarrow> (\<forall>h h'. length h = n \<longrightarrow> f h = Inr h' \<longrightarrow> length h' = n)"

definition translator_ok :: "('pk, 'q, 'e) translator \<Rightarrow> bool" where
  "translator_ok T \<longleftrightarrow>
     keeps_length 32 (tr_sha256 T) \<and> keeps_length 32 (tr_hash256 T)
     \<and> keeps_length 20 (tr_ripemd160 T) \<and> keeps_length 20 (tr_hash160 T)"

lemma keeps_lengthD: "keeps_length n f \<Longrightarrow> f h = Inr h' \<Longrightarrow> length h = n \<Longrightarrow> length h' = n"
  by (simp add: keeps_length_def)

lemma map_sum_Inr_iff: "map_sum f g x = Inr y \<longleftrightarrow> (\<exists>z. x = Inr z \<and> y = g z)"
  by (cases x) auto

lemma threshold_translate_wf:
  assumes "threshold_translate f t = Inr t'" "wf_threshold mx t"
  shows "wf_threshold mx t'"
proof -
  from assms(1) obtain ys where ys: "collect_results f (thr_data t) = Inr ys" "t' = Threshold (thr_k t) ys"
    by (auto simp: threshold_translate_def split: sum.splits)
  then have "length ys = length (thr_data t)" by (auto simp: collect_results_Inr_iff dest: list_all2_lengthD)
  with ys assms(2) show ?thesis by (simp add: wf_threshold_def thr_n_def)
qed

lemma translate_leaf_ok:
  "is_leaf n \<Longrightarrow> translate_leaf T n = Inr n' \<Longrightarrow> node_ok n \<Longrightarrow> translator_ok T \<Longrightarrow> node_ok n' \<and> is_leaf n'"
  by (cases n)
    (auto simp: translator_ok_def map_sum_Inr_iff intro: threshold_translate_wf keeps_lengthD)

lemma renew_translate_ok:
  assumes "renew (translate_leaf T) n cs = Inr n'" "length cs = length (children n)" "node_ok n" "translator_ok T"
  shows "node_ok n' \<and> children n' = cs"
  using assms translate_leaf_ok [of n T n'] is_leaf_children [of n] is_leaf_children [of n']
  by (cases "is_leaf n") (auto simp: renew_eq)

lemma translate_built:
  assumes "typed_ms ms" "translator_ok T" "translate_pk_ctx L K ctx T ms = Some (Inr ms')"
  shows "built L K ctx ms'"
proof -
  define g where "g = rebuild_at (translate_leaf T) (\<lambda>_ new_term. map_sum OuterError id (from_ast L K ctx new_term))"
  have "rose_fold g (ms_rose ms) = Inr ms'" using assms(3) by (simp add: translate_pk_ctx_def rtl_loop_rebuild g_def)
  with assms(1) show ?thesis
  proof (induction ms arbitrary: ms' rule: ms_rose.induct)
    case (1 n ty ext)
    then obtain cs n' where cs: "rose_folds g (map ms_rose (children n)) = Inr cs"
      and n': "renew (translate_leaf T) n cs = Inr n'" "from_ast L K ctx n' = Inr ms'"
      by (auto simp: g_def rebuild_at_node map_sum_Inr_iff split: sum.splits)
    have rel: "list_all2 (\<lambda>c c'. rose_fold g (ms_rose c) = Inr c') (children n) cs"
      using cs by (simp add: rose_folds_Inr)
    have ok: "node_ok n' \<and> children n' = cs"
      using n'(1) rel 1(2) assms(2) by (intro renew_translate_ok) (auto dest: list_all2_lengthD)
    have "built L K ctx c'" if "c' \<in> set cs" for c'
    proof -
      from list_all2_mem [OF rel that]
      obtain c where "c \<in> set (children n)" "rose_fold g (ms_rose c) = Inr c'" by blast
      then show ?thesis using 1 by auto
    qed
    then show ?case using ok n'(2) from_ast_Inr [OF n'(2)] by (cases ms') auto
  qed
qed

subsection \<open>Substituting raw key hashes\<close>

lemma substitute_leaf_cases:
  assumes "is_leaf n"
  shows "substitute_leaf pk_map n = Inr
     (case n of RawPkH h \<Rightarrow> (case pk_map h of Some p \<Rightarrow> PkH p | None \<Rightarrow> RawPkH h) | _ \<Rightarrow> n)"
  using assms by (cases n) (auto split: option.splits)

lemma foldM_list_all2:
  assumes "list_all2 R xs ys" "\<And>b x y. R x y \<Longrightarrow> f b x = g b y"
  shows "foldM f b xs = foldM g b ys"
  using assms(1)
proof (induction arbitrary: b rule: list_all2_induct)
  case (Cons x xs y ys)
  then show ?case using assms(2) by (cases "g b y") auto
qed simp

lemma encode_with_kids:
  assumes "\<not> is_leaf n" "list_all2 (\<lambda>c c'. \<forall>b. encode L K ctx b c' = encode L K ctx b c) (children n) cs"
  shows "encode L K ctx b (Miniscript (with_kids n cs) ty ext) = encode L K ctx b (Miniscript n ty ext)"
proof (cases n)
  case (Thresh t)
  then obtain k xs where t: "t = Threshold k xs" by (cases t) auto
  show ?thesis
  proof (cases xs)
    case Nil
    then show ?thesis using assms(2) Thresh t by simp
  next
    case (Cons x rest)
    then obtain y rest' where cs: "cs = y # rest'" "\<forall>b. encode L K ctx b y = encode L K ctx b x"
      "list_all2 (\<lambda>c c'. \<forall>b. encode L K ctx b c' = encode L K ctx b c) rest rest'"
      using assms(2) Thresh t by (auto simp: list_all2_Cons1)
    have "foldM (\<lambda>b y. do { b \<leftarrow> encode L K ctx b y; Some (b @ [PushOpcode OP_ADD]) }) b' rest'
        = foldM (\<lambda>b y. do { b \<leftarrow> encode L K ctx b y; Some (b @ [PushOpcode OP_ADD]) }) b' rest" for b'
      by (rule foldM_list_all2 [symmetric], rule cs(3)) simp
    then show ?thesis using Thresh t Cons cs by simp
  qed
qed (use assms in \<open>auto simp: list_all2_Cons1 numeral_2_eq_2\<close>)

text \<open>The keys of the map have the hashes they stand for.\<close>

definition hashes_to ::
    "btc \<Rightarrow> 'pk key_ops \<Rightarrow> script_context \<Rightarrow> (hash \<Rightarrow> 'pk option) \<Rightarrow> hash \<Rightarrow> bool" where
  "hashes_to L K ctx pk_map h \<longleftrightarrow>
     (case pk_map h of None \<Rightarrow> True | Some p \<Rightarrow> push_ms_key_hash L K ctx p = PushSlice h)"

fun raw_hashes :: "('pk, 'c) terminal \<Rightarrow> hash list" where
  "raw_hashes (RawPkH h) = [h]"
| "raw_hashes _ = []"

definition all_raw_hashes :: "'pk miniscript \<Rightarrow> hash list" where
  "all_raw_hashes ms = concat (map (raw_hashes \<circ> ms_node) (pre_order ms))"

definition substitute_fold :: "(hash \<Rightarrow> 'pk option) \<Rightarrow> 'pk miniscript \<Rightarrow> 'pk miniscript list \<Rightarrow> unit + 'pk miniscript" where
  "substitute_fold pk_map =
     rebuild_at (substitute_leaf pk_map) (\<lambda>old new_term. Inr (Miniscript new_term (ms_ty old) (ms_ext old)))"

lemma substitute_fold_node:
  "length cs = length (children n) \<Longrightarrow>
   substitute_fold pk_map (Miniscript n ty ext) cs = Inr (Miniscript
     (if is_leaf n
      then (case n of RawPkH h \<Rightarrow> (case pk_map h of Some p \<Rightarrow> PkH p | None \<Rightarrow> RawPkH h) | _ \<Rightarrow> n)
      else with_kids n cs) ty ext)"
  by (simp add: substitute_fold_def rebuild_at_node renew_eq substitute_leaf_cases)

lemma all_raw_hashes_unfold:
  "all_raw_hashes (Miniscript n ty ext) = raw_hashes n @ concat (map all_raw_hashes (children n))"
proof -
  have "all_raw_hashes = (\<lambda>ms. concat (map (raw_hashes \<circ> ms_node) (pre_order ms)))"
    by (simp add: fun_eq_iff all_raw_hashes_def)
  then show ?thesis unfolding all_raw_hashes_def by (simp add: concat_concat_map comp_def map_concat)
qed

lemma raw_hashes_with_kids [simp]: "\<not> is_leaf n \<Longrightarrow> raw_hashes n = [] \<and> raw_hashes (with_kids n cs) = []"
  by (cases n) auto

definition substituted ::
    "btc \<Rightarrow> 'pk key_ops \<Rightarrow> script_context \<Rightarrow> (hash \<Rightarrow> 'pk option) \<Rightarrow> 'pk miniscript \<Rightarrow> 'pk miniscript \<Rightarrow> bool" where
  "substituted L K ctx pk_map ms ms' \<longleftrightarrow>
     ms_ty ms' = ms_ty ms \<and> ms_ext ms' = ms_ext ms \<and> (typed_ms ms \<longrightarrow> typed_ms ms')
     \<and> (list_all (hashes_to L K ctx pk_map) (all_raw_hashes ms) \<longrightarrow> (\<forall>b. encode L K ctx b ms' = encode L K ctx b ms))
     \<and> all_raw_hashes ms' = filter (\<lambda>h. pk_map h = None) (all_raw_hashes ms)"

lemma substituted_leaf:
  assumes "is_leaf n"
  shows "substituted L K ctx pk_map (Miniscript n ty ext)
     (Miniscript (case n of RawPkH h \<Rightarrow> (case pk_map h of Some p \<Rightarrow> PkH p | None \<Rightarrow> RawPkH h) | _ \<Rightarrow> n) ty ext)"
  using assms
  by (cases n)
    (auto simp: substituted_def all_raw_hashes_def hashes_to_def simp del: push_ms_key_hash.simps split: option.splits)

lemma substituted_inner:
  assumes "\<not> is_leaf n" "list_all2 (substituted L K ctx pk_map) (children n) cs"
  shows "substituted L K ctx pk_map (Miniscript n ty ext) (Miniscript (with_kids n cs) ty ext)"
proof -
  have len: "length cs = length (children n)" using assms(2) by (simp add: list_all2_lengthD)
  have types: "map ms_ty cs = map ms_ty (children n)"
    using assms(2) by (induction rule: list_all2_induct) (auto simp: substituted_def)
  have typed: "\<forall>c' \<in> set cs. typed_ms c'" if "\<forall>c \<in> set (children n). typed_ms c"
    using assms(2) that by (induction rule: list_all2_induct) (auto simp: substituted_def)
  have hashes: "concat (map all_raw_hashes cs) = filter (\<lambda>h. pk_map h = None) (concat (map all_raw_hashes (children n)))"
    using assms(2) by (induction rule: list_all2_induct) (auto simp: substituted_def)
  have encodes: "list_all2 (\<lambda>c c'. \<forall>b. encode L K ctx b c' = encode L K ctx b c) (children n) cs"
    if "list_all (hashes_to L K ctx pk_map) (concat (map all_raw_hashes (children n)))"
    using assms(2) that by (induction rule: list_all2_induct) (auto simp: substituted_def)
  show ?thesis
    using assms(1) len typed encodes
    by (auto simp: substituted_def all_raw_hashes_unfold hashes with_kids_ty_check [OF assms(1) types]
        intro: encode_with_kids)
qed

lemma substitute_ok:
  obtains ms' where "substitute_raw_pkh pk_map ms = Some ms'" "substituted L K ctx pk_map ms ms'"
proof -
  have "\<exists>ms'. rose_fold (substitute_fold pk_map) (ms_rose ms) = Inr ms' \<and> substituted L K ctx pk_map ms ms'"
  proof (induction ms rule: ms_rose.induct)
    case (1 n ty ext)
    then obtain h where h: "\<And>c. c \<in> set (children n) \<Longrightarrow>
        rose_fold (substitute_fold pk_map) (ms_rose c) = Inr (h c) \<and> substituted L K ctx pk_map c (h c)"
      by metis
    then have kids: "rose_folds (substitute_fold pk_map) (map ms_rose (children n)) = Inr (map h (children n))"
      by (intro rose_folds_map) auto
    have "list_all2 (substituted L K ctx pk_map) (children n) (map h (children n))"
      using h by (simp add: list_all2_map2 list_all2_same)
    then show ?case
      using kids substituted_leaf [of n L K ctx pk_map ty ext] substituted_inner [of n L K ctx pk_map _ ty ext]
      by (simp add: substitute_fold_node)
  qed
  then show ?thesis
    using that by (auto simp: substitute_raw_pkh_def rtl_loop_one_rebuild substitute_fold_def [symmetric])
qed

end
