(* ===== verification/RebuildProps.thy ===== *)
theory RebuildProps
  imports Examples Translate
begin

section \<open>Properties of traversals, rebuilding and analysis\<close>

text \<open>
  What the iterators over a miniscript, the loops that rebuild one and the analysis of one promise.
  Each property is followed by an instance on the examples.
\<close>

subsection \<open>Iterators\<close>

text \<open>C22.  The iterators over a miniscript end and visit every node once, in pre-order: the generic
  \<open>pre_order_iter\<close> of \<open>TreeLike\<close>, the older \<open>Miniscript::iter\<close>, and \<open>iter_pk\<close>, which yields the keys
  of the nodes in that order.\<close>

theorem iterators_agree:
  "pre_order_iter ms_tree ms = Some (pre_order ms) \<and> ms_iter ms = Some (pre_order ms)
     \<and> iter_pk ms = Some (all_keys ms)"
  by (simp add: pre_order_iter_ms ms_iter_nodes iter_pk_keys)

text \<open>C23.  The post-order iterators yield every node with its index and the indices of its children, the
  first child's first, as the recursive definitions have them: from left to right and, for
  \<open>rtl_post_order_iter\<close>, from right to left.  The verbose pre-order iterator yields a node before its
  first child and again after each child, with its index and how many children were visited.\<close>

theorem post_order_iterators:
  "post_order_iter ms_tree ms = Some (post_items 0 (ms_rose ms))
     \<and> rtl_post_order_iter ms_tree ms = Some (rtl_items 0 (ms_rose ms))
     \<and> verbose_pre_order_iter ms_tree ms = Some (verbose_items 0 None (ms_rose ms))"
  by (simp add: ms.post_order_iter_items ms.rtl_post_order_iter_value ms.verbose_pre_order_iter_items)

subsection \<open>Rebuilding\<close>

text \<open>C24.  \<open>Clone\<close>, a loop with an explicit stack, returns the miniscript it was given: it never pops an
  empty stack, and one result is left at the end.\<close>

theorem clone_identity: "clone ms = Some ms"
  by (rule clone_id)

text \<open>C25.  Translating keys by a function that keeps their kind maps the keys and changes nothing else:
  no check of the new context fails, and types and extra data stay.\<close>

theorem translate_maps:
  assumes "built L K ctx ms" "maps_keys T f (all_keys ms)"
    and "list_all (same_kind K K' f) (all_keys ms)"
  shows "translate_pk_ctx L K' ctx T ms = Some (Inr (map_miniscript f ms)) \<and> built L K' ctx (map_miniscript f ms)"
  using translate_map [OF assms(1,2), of K'] assms(3) by (simp add: list_all_iff)

definition ex_translator :: "(nat \<Rightarrow> unit + nat) \<Rightarrow> (nat, nat, unit) translator" where
  "ex_translator g = \<lparr>tr_pk = g, tr_sha256 = Inr, tr_hash256 = Inr, tr_ripemd160 = Inr, tr_hash160 = Inr\<rparr>"

theorem translate_maps_witness:
  "translate_pk_ctx ref_btc ref_keys Segwitv0 (ex_translator (\<lambda>k. Inr (k + 5))) ex_or
     = Some (Inr (map_miniscript (\<lambda>k. k + 5) ex_or))
   \<and> built ref_btc ref_keys Segwitv0 (map_miniscript (\<lambda>k. k + 5) ex_or)"
  by (rule translate_maps [OF ex_or_built])
    (simp_all add: maps_keys_def ex_translator_def list_all_iff same_kind_def ref_keys_def)

text \<open>C26.  Whatever a translator does, a translation that succeeds returns a miniscript all of whose
  nodes passed \<open>from_ast\<close> in the target context; a failure of the translator is reported.\<close>

theorem translate_keeps_invariant:
  assumes "typed_ms ms" "translator_ok T" "translate_pk_ctx L K ctx T ms = Some (Inr ms')"
  shows "built L K ctx ms'"
  using assms by (rule translate_built)

definition ex_swapped :: "nat miniscript" where
  "ex_swapped = mk_ms Segwitv0 (Check (mk_ms Segwitv0 (PkK 3)))"

lemma ex_swapped_translate:
  "translate_pk_ctx ref_btc ref_keys Segwitv0 (ex_translator (\<lambda>k. if k = 1 then Inr 3 else Inl ())) ex_pk
     = Some (Inr ex_swapped)"
  by code_simp

theorem translate_keeps_invariant_witness: "built ref_btc ref_keys Segwitv0 ex_swapped"
proof (rule translate_keeps_invariant [OF _ _ ex_swapped_translate])
  show "typed_ms ex_pk" by code_simp
  show "translator_ok (ex_translator (\<lambda>k. if k = 1 then Inr 3 else Inl ()))"
    by (simp add: translator_ok_def ex_translator_def keeps_length_def)
qed

text \<open>C27.  Substituting keys for raw key hashes never fails, keeps types and extra data and well-typedness,
  leaves only the hashes the map does not know, and keeps the script when the keys have these hashes.\<close>

theorem substitute_keeps_script:
  "\<exists>ms'. substitute_raw_pkh pk_map ms = Some ms'
     \<and> ms_ty ms' = ms_ty ms \<and> ms_ext ms' = ms_ext ms \<and> (typed_ms ms \<longrightarrow> typed_ms ms')
     \<and> (list_all (hashes_to L K ctx pk_map) (all_raw_hashes ms) \<longrightarrow> (\<forall>b. encode L K ctx b ms' = encode L K ctx b ms))
     \<and> all_raw_hashes ms' = filter (\<lambda>h. pk_map h = None) (all_raw_hashes ms)"
  using substitute_ok [of pk_map ms L K ctx] unfolding substituted_def by metis

definition ex_raw :: "nat miniscript" where
  "ex_raw = mk_ms Segwitv0 (Check (mk_ms Segwitv0 (RawPkH (2 # 2 # replicate 18 9))))"

definition ex_pk_map :: "hash \<Rightarrow> nat option" where
  "ex_pk_map h = (if h = 2 # 2 # replicate 18 9 then Some 2 else None)"

theorem substitute_keeps_script_witness:
  "\<exists>ms'. substitute_raw_pkh ex_pk_map ex_raw = Some ms' \<and> typed_ms ms' \<and> all_raw_hashes ms' = []
     \<and> (\<forall>b. encode ref_btc ref_keys Segwitv0 b ms' = encode ref_btc ref_keys Segwitv0 b ex_raw)"
proof -
  obtain ms' where ms': "substitute_raw_pkh ex_pk_map ex_raw = Some ms'"
      "typed_ms ex_raw \<longrightarrow> typed_ms ms'"
      "list_all (hashes_to ref_btc ref_keys Segwitv0 ex_pk_map) (all_raw_hashes ex_raw) \<longrightarrow>
        (\<forall>b. encode ref_btc ref_keys Segwitv0 b ms' = encode ref_btc ref_keys Segwitv0 b ex_raw)"
      "all_raw_hashes ms' = filter (\<lambda>h. ex_pk_map h = None) (all_raw_hashes ex_raw)"
    using substitute_keeps_script [of ex_pk_map ex_raw ref_btc ref_keys Segwitv0] by blast
  have "typed_ms ex_raw" "list_all (hashes_to ref_btc ref_keys Segwitv0 ex_pk_map) (all_raw_hashes ex_raw)"
    "filter (\<lambda>h. ex_pk_map h = None) (all_raw_hashes ex_raw) = []" by code_simp+
  with ms' show ?thesis by auto
qed

end
