(* ===== verification/SemPolicy.thy ===== *)
theory SemPolicy
  imports Trees Inscription
begin

section \<open>Semantic policies\<close>

text \<open>
  \<open>Policy\<close> of \<^verbatim>\<open>policy/semantic.rs\<close>, its tree, and \<open>normalized\<close>.  The meaning of a
  policy is its truth value under an assignment of truth values to its leaves (\<open>sem\<close>): a key that signs,
  a hash whose preimage is known, a lock that is met.  The normal forms are described by \<open>nf\<close>;
  \<open>normalized\<close> never panics, keeps the meaning, returns a normal form and changes no normal form.
\<close>

datatype 'pk policy =
    SUnsatisfiable
  | STrivial
  | SKey 'pk
  | SAfter abs_lock_time
  | SOlder rel_lock_time
  | SSha256 hash
  | SHash256 hash
  | SRipemd160 hash
  | SHash160 hash
  | STxTemplate hash
  | SInscribe inscription "'pk policy"
  | SThresh "'pk policy threshold"

lemma size_thresh_policy [termination_simp]:
  "p \<in> set (thr_data t) \<Longrightarrow> size p < Suc (size_threshold size t)"
  by (cases t) (auto simp: less_Suc_eq_le intro: le_SucI size_list_estimation')

subsection \<open>The tree\<close>

fun sem_as_node :: "'pk policy \<Rightarrow> ('pk policy, 'pk policy list) tree_node" where
  "sem_as_node (SInscribe _ sub) = Unary sub"
| "sem_as_node (SThresh thresh) = Nary (thr_data thresh)"
| "sem_as_node _ = Nullary"

definition sem_tree :: "('pk policy, 'pk policy list) tree_ops" where
  "sem_tree = \<lparr>as_node = sem_as_node, nary_len = length, nary_index = (!)\<rparr>"

fun sem_kids :: "'pk policy \<Rightarrow> 'pk policy list" where
  "sem_kids (SInscribe _ sub) = [sub]"
| "sem_kids (SThresh t) = thr_data t"
| "sem_kids _ = []"

lemma size_sem_kids [termination_simp]: "c \<in> set (sem_kids p) \<Longrightarrow> size c < size p"
  by (cases p) (auto dest: size_thresh_policy)

function sem_rose :: "'pk policy \<Rightarrow> 'pk policy rose" where
  "sem_rose p = Rose p (map sem_rose (sem_kids p))"
  by auto
termination by (relation "measure size") (auto simp: size_sem_kids)

declare sem_rose.simps [simp del]

lemma tree_children_sem [simp]: "tree_children sem_tree p = sem_kids p"
  by (cases p) (simp_all add: tree_children_def sem_tree_def map_nth)

interpretation sem: tree_like sem_tree sem_rose
  by unfold_locales (simp add: sem_rose.simps)

lemma policy_induct [case_names Leaf Inscribe Thresh]:
  assumes "\<And>p. sem_kids p = [] \<Longrightarrow> (\<And>t. p \<noteq> SThresh t) \<Longrightarrow> P p"
    and "\<And>i p. P p \<Longrightarrow> P (SInscribe i p)"
    and "\<And>k ps. (\<And>p. p \<in> set ps \<Longrightarrow> P p) \<Longrightarrow> P (SThresh (Threshold k ps))"
  shows "P p"
proof (induction p rule: sem.tree_induct)
  case (Node p)
  show ?case
  proof (cases p)
    case (SThresh t)
    then show ?thesis using Node assms(3) by (cases t) auto
  next
    case (SInscribe i q)
    then show ?thesis using Node assms(2) by simp
  qed (rule assms(1); simp)+
qed

subsection \<open>The meaning\<close>

text \<open>The leaves that are neither trivial nor unsatisfiable.\<close>

fun is_atom :: "'pk policy \<Rightarrow> bool" where
  "is_atom SUnsatisfiable = False"
| "is_atom STrivial = False"
| "is_atom (SInscribe _ _) = False"
| "is_atom (SThresh _) = False"
| "is_atom _ = True"

fun sem :: "('pk policy \<Rightarrow> bool) \<Rightarrow> 'pk policy \<Rightarrow> bool" where
  "sem v SUnsatisfiable = False"
| "sem v STrivial = True"
| "sem v (SInscribe _ p) = sem v p"
| "sem v (SThresh t) = (thr_k t \<le> length (filter (sem v) (thr_data t)))"
| "sem v p = v p"

lemma sem_atom: "is_atom p \<Longrightarrow> sem v p = v p"
  by (cases p) auto

lemma sem_leaf_cases:
  "sem_kids p = [] \<Longrightarrow> (\<And>t. p \<noteq> SThresh t) \<Longrightarrow> p = SUnsatisfiable \<or> p = STrivial \<or> is_atom p"
  by (cases p) auto

subsection \<open>Normalisation\<close>

definition is_trivial :: "'pk policy \<Rightarrow> bool" where
  "is_trivial p = (case p of STrivial \<Rightarrow> True | _ \<Rightarrow> False)"

definition is_unsatisfiable :: "'pk policy \<Rightarrow> bool" where
  "is_unsatisfiable p = (case p of SUnsatisfiable \<Rightarrow> True | _ \<Rightarrow> False)"

text \<open>What a normalised child contributes to the children of the new threshold.\<close>

definition flatten_sub :: "bool \<Rightarrow> bool \<Rightarrow> 'pk policy \<Rightarrow> 'pk policy list" where
  "flatten_sub land lor sub =
     (case sub of
        STrivial \<Rightarrow> []
      | SUnsatisfiable \<Rightarrow> []
      | SThresh subthresh \<Rightarrow>
          (if land \<and> lor then [SThresh subthresh]
           else if land \<and> \<not> lor \<and> thr_k subthresh = thr_n subthresh then thr_data subthresh
           else if \<not> land \<and> lor \<and> thr_k subthresh = 1 then thr_data subthresh
           else [SThresh subthresh])
      | x \<Rightarrow> [x])"

text \<open>\<open>Policy::Thresh(Threshold::new(k, ret_subs).unwrap())\<close>; \<open>None\<close> is the panic.\<close>

definition unwrap_thresh :: "nat \<Rightarrow> 'pk policy list \<Rightarrow> 'pk policy option" where
  "unwrap_thresh k subs = (case threshold_new 0 k subs of Inl _ \<Rightarrow> None | Inr t \<Rightarrow> Some (SThresh t))"

text \<open>The second half of \<open>normalized\<close> for a threshold, from its normalised children.\<close>

definition normalize_thresh :: "nat \<Rightarrow> 'pk policy list \<Rightarrow> 'pk policy option" where
  "normalize_thresh k subs =
     (let trivial_count = length (filter (\<lambda>pol. pol = STrivial) subs);
          unsatisfied_count = length (filter (\<lambda>pol. pol = SUnsatisfiable) subs);
          n = length subs - unsatisfied_count - trivial_count;
          m = k - trivial_count;
          land = (m = n);
          lor = (m = 1);
          ret_subs = concat (map (flatten_sub land lor) subs)
      in if m = 0 then Some STrivial
         else if m > length ret_subs then Some SUnsatisfiable
         else if length ret_subs = 1 then Some (last ret_subs)
         else if land then unwrap_thresh (length ret_subs) ret_subs
         else if lor then unwrap_thresh 1 ret_subs
         else unwrap_thresh m ret_subs)"

fun normalized :: "'pk policy \<Rightarrow> 'pk policy option" where
  "normalized (SInscribe i sub) =
     (case normalized sub of
        None \<Rightarrow> None
      | Some SUnsatisfiable \<Rightarrow> Some SUnsatisfiable
      | Some child \<Rightarrow> Some (SInscribe i child))"
| "normalized (SThresh thresh) =
     (case mapM normalized (thr_data thresh) of
        None \<Rightarrow> None
      | Some subs \<Rightarrow> normalize_thresh (thr_k thresh) subs)"
| "normalized p = Some p"

subsection \<open>Normal forms\<close>

fun is_and_thresh :: "'pk policy \<Rightarrow> bool" where
  "is_and_thresh (SThresh t) = (thr_k t = thr_n t)"
| "is_and_thresh _ = False"

fun is_or_thresh :: "'pk policy \<Rightarrow> bool" where
  "is_or_thresh (SThresh t) = (thr_k t = 1)"
| "is_or_thresh _ = False"

fun nf :: "'pk policy \<Rightarrow> bool" where
  "nf (SInscribe _ p) = (nf p \<and> p \<noteq> SUnsatisfiable)"
| "nf (SThresh t) =
     (1 \<le> thr_k t \<and> thr_k t \<le> thr_n t \<and> 2 \<le> thr_n t
      \<and> list_all (\<lambda>p. nf p \<and> p \<noteq> STrivial \<and> p \<noteq> SUnsatisfiable) (thr_data t)
      \<and> (thr_k t = thr_n t \<longrightarrow> list_all (\<lambda>p. \<not> is_and_thresh p) (thr_data t))
      \<and> (thr_k t = 1 \<longrightarrow> list_all (\<lambda>p. \<not> is_or_thresh p) (thr_data t)))"
| "nf _ = True"

lemma nf_leaf: "sem_kids p = [] \<Longrightarrow> (\<And>t. p \<noteq> SThresh t) \<Longrightarrow> nf p \<and> normalized p = Some p"
  by (cases p) auto

text \<open>The children that stay, and the counts.\<close>

definition proper :: "'pk policy \<Rightarrow> bool" where
  "proper p \<longleftrightarrow> p \<noteq> STrivial \<and> p \<noteq> SUnsatisfiable"

lemma count_proper:
  "length subs - length (filter (\<lambda>p. p = SUnsatisfiable) subs) - length (filter (\<lambda>p. p = STrivial) subs)
    = length (filter proper subs)"
proof -
  have "length subs = length (filter (\<lambda>p. p = SUnsatisfiable) subs) + length (filter (\<lambda>p. p = STrivial) subs)
      + length (filter proper subs)"
    by (induction subs) (auto simp: proper_def)
  then show ?thesis by simp
qed

lemma flatten_proper: "concat (map (flatten_sub a b) subs) = concat (map (flatten_sub a b) (filter proper subs))"
  by (induction subs) (auto simp: proper_def flatten_sub_def)

lemma sem_count:
  "length (filter (sem v) subs) = length (filter (\<lambda>p. p = STrivial) subs) + length (filter (sem v) (filter proper subs))"
  by (induction subs) (auto simp: proper_def)

lemma flatten_sub_proper:
  assumes "nf p" "proper p"
  shows "flatten_sub a b p = (if a \<and> \<not> b \<and> is_and_thresh p \<or> \<not> a \<and> b \<and> is_or_thresh p then sem_kids p else [p])"
  using assms by (cases p) (auto simp: flatten_sub_def proper_def)

lemma flatten_length:
  "list_all (\<lambda>p. nf p \<and> proper p) ps \<Longrightarrow> length ps \<le> length (concat (map (flatten_sub a b) ps))"
proof (induction ps)
  case (Cons p ps)
  then have "1 \<le> length (flatten_sub a b p)" by (cases p) (auto simp: flatten_sub_proper thr_n_def)
  then show ?case using Cons by simp
qed simp

text \<open>The flattened children keep the meaning of a conjunction and of a disjunction.\<close>

lemma sem_nf_thresh_and:
  "nf p \<Longrightarrow> is_and_thresh p \<Longrightarrow> sem v p \<longleftrightarrow> list_all (sem v) (sem_kids p)"
proof (cases p)
  case (SThresh t)
  moreover assume "is_and_thresh p"
  ultimately have "sem v p \<longleftrightarrow> length (thr_data t) \<le> length (filter (sem v) (thr_data t))"
    by (simp add: thr_n_def)
  also have "\<dots> \<longleftrightarrow> list_all (sem v) (thr_data t)"
    by (metis (no_types, lifting) Ball_set filter_id_conv length_filter_le length_filter_less linorder_not_le order_refl)
  finally show ?thesis using SThresh by simp
qed auto

lemma sem_nf_thresh_or:
  "nf p \<Longrightarrow> is_or_thresh p \<Longrightarrow> sem v p \<longleftrightarrow> list_ex (sem v) (sem_kids p)"
  by (cases p) (auto simp: Suc_le_eq filter_empty_conv list_ex_iff)

lemma sem_flatten_and:
  "list_all (\<lambda>p. nf p \<and> proper p) ps \<Longrightarrow>
   list_all (sem v) (concat (map (flatten_sub True False) ps)) \<longleftrightarrow> list_all (sem v) ps"
  by (induction ps) (auto simp: flatten_sub_proper sem_nf_thresh_and split: if_splits)

lemma sem_flatten_or:
  "list_all (\<lambda>p. nf p \<and> proper p) ps \<Longrightarrow>
   list_ex (sem v) (concat (map (flatten_sub False True) ps)) \<longleftrightarrow> list_ex (sem v) ps"
  by (induction ps) (auto simp: flatten_sub_proper sem_nf_thresh_or split: if_splits)

lemma flatten_other:
  "list_all (\<lambda>p. nf p \<and> proper p) ps \<Longrightarrow> a = b \<Longrightarrow> concat (map (flatten_sub a b) ps) = ps"
  by (induction ps) (auto simp: flatten_sub_proper)

lemma sem_all_thresh: "sem v (SThresh (Threshold (length ps) ps)) \<longleftrightarrow> list_all (sem v) ps"
  by (simp add: list_all_iff)
    (metis (no_types, lifting) filter_id_conv length_filter_le length_filter_less linorder_not_le order_refl)

lemma sem_any_thresh: "sem v (SThresh (Threshold 1 ps)) \<longleftrightarrow> list_ex (sem v) ps"
  by (auto simp: Suc_le_eq filter_empty_conv list_ex_iff)

text \<open>A normalised threshold, in terms of the proper children.\<close>

definition norm_result :: "nat \<Rightarrow> 'pk policy list \<Rightarrow> 'pk policy" where
  "norm_result m ps =
     (if m = 0 then STrivial
      else if m > length ps then SUnsatisfiable
      else if length ps = 1 then hd ps
      else if m = length ps
      then (let rs = concat (map (flatten_sub True False) ps) in SThresh (Threshold (length rs) rs))
      else if m = 1 then SThresh (Threshold 1 (concat (map (flatten_sub False True) ps)))
      else SThresh (Threshold m ps))"

lemma unwrap_thresh_Some: "1 \<le> k \<Longrightarrow> k \<le> length ps \<Longrightarrow> unwrap_thresh k ps = Some (SThresh (Threshold k ps))"
  by (simp add: unwrap_thresh_def threshold_new_def validate_k_n_def)

lemma normalize_thresh_eq:
  assumes "list_all nf subs"
  shows "normalize_thresh k subs =
     Some (norm_result (k - length (filter (\<lambda>p. p = STrivial) subs)) (filter proper subs))"
proof -
  define ps where "ps = filter proper subs"
  define m where "m = k - length (filter (\<lambda>p. p = STrivial) subs)"
  have ps: "list_all (\<lambda>p. nf p \<and> proper p) ps" using assms by (auto simp: ps_def list_all_iff)
  define rs where "rs = concat (map (flatten_sub (m = length ps) (m = 1)) ps)"
  have n: "normalize_thresh k subs =
    (if m = 0 then Some STrivial
     else if m > length rs then Some SUnsatisfiable
     else if length rs = 1 then Some (last rs)
     else if m = length ps then unwrap_thresh (length rs) rs
     else if m = 1 then unwrap_thresh 1 rs else unwrap_thresh m rs)"
    unfolding normalize_thresh_def Let_def count_proper flatten_proper [of _ _ subs]
    by (simp add: m_def ps_def rs_def)
  have len: "length ps \<le> length rs" using flatten_length [OF ps] by (simp add: rs_def)
  consider "m = 0" | "0 < m" "length ps < m" | "m = 1" "length ps = 1" | "m = length ps" "2 \<le> m"
    | "m = 1" "2 \<le> length ps" | "2 \<le> m" "m < length ps" by linarith
  then show ?thesis
  proof cases
    case 1
    then show ?thesis by (simp add: n norm_result_def ps_def m_def)
  next
    case 2
    then have "rs = ps"
      unfolding rs_def using flatten_other [OF ps, of "False" "False"] by (cases "m = 1") auto
    then show ?thesis using 2 by (simp add: n norm_result_def ps_def [symmetric] m_def [symmetric])
  next
    case 3
    then have "rs = ps" unfolding rs_def using flatten_other [OF ps, of True True] by simp
    then show ?thesis
      using 3 by (cases ps) (auto simp: n norm_result_def ps_def [symmetric] m_def [symmetric])
  next
    case 4
    then have "rs = concat (map (flatten_sub True False) ps)" unfolding rs_def by simp
    then show ?thesis
      using 4 len by (simp add: n norm_result_def ps_def [symmetric] m_def [symmetric] Let_def unwrap_thresh_Some)
  next
    case 5
    then have "concat (map (flatten_sub False True) ps) = rs" unfolding rs_def by simp
    then have "norm_result m ps = SThresh (Threshold 1 rs)" using 5 by (auto simp: norm_result_def)
    then show ?thesis using 5 len unwrap_thresh_Some [of 1 rs] by (auto simp: n ps_def [symmetric] m_def [symmetric])
  next
    case 6
    then have "rs = ps" unfolding rs_def using flatten_other [OF ps, of False False] by simp
    then show ?thesis
      using 6 by (simp add: n norm_result_def ps_def [symmetric] m_def [symmetric] unwrap_thresh_Some)
  qed
qed


lemma sem_norm_result:
  assumes "list_all (\<lambda>p. nf p \<and> proper p) ps"
  shows "sem v (norm_result m ps) \<longleftrightarrow> m \<le> length (filter (sem v) ps)"
proof -
  have le: "length (filter (sem v) ps) \<le> length ps" by simp
  have all: "length ps \<le> length (filter (sem v) ps) \<longleftrightarrow> list_all (sem v) ps"
    using sem_all_thresh [of v ps] by simp
  have any: "1 \<le> length (filter (sem v) ps) \<longleftrightarrow> list_ex (sem v) ps"
    using sem_any_thresh [of v ps] by simp
  consider "m = 0" | "length ps < m" | "m = 1" "length ps = 1" | "m = length ps" "2 \<le> m"
    | "m = 1" "2 \<le> length ps" | "2 \<le> m" "m < length ps" by linarith
  then show ?thesis
  proof cases
    case 2
    then show ?thesis using le by (simp add: norm_result_def not_le [symmetric] del: length_filter_le)
  next
    case 3
    then show ?thesis by (cases ps) (auto simp: norm_result_def)
  next
    case 4
    then show ?thesis
      using all sem_all_thresh [of v "concat (map (flatten_sub True False) ps)"] sem_flatten_and [OF assms, of v]
      by (auto simp: norm_result_def Let_def simp del: sem.simps)
  next
    case 5
    then show ?thesis
      using any sem_any_thresh [of v "concat (map (flatten_sub False True) ps)"] sem_flatten_or [OF assms, of v]
      by (auto simp: norm_result_def simp del: sem.simps)
  qed (simp_all add: norm_result_def)
qed

lemma nf_kids:
  "nf p \<Longrightarrow> proper p \<Longrightarrow> is_and_thresh p \<Longrightarrow>
   list_all (\<lambda>q. nf q \<and> proper q \<and> \<not> is_and_thresh q) (sem_kids p)"
  "nf p \<Longrightarrow> proper p \<Longrightarrow> is_or_thresh p \<Longrightarrow>
   list_all (\<lambda>q. nf q \<and> proper q \<and> \<not> is_or_thresh q) (sem_kids p)"
  by (cases p; auto simp: list_all_iff proper_def)+

lemma flatten_nf_and:
  "list_all (\<lambda>p. nf p \<and> proper p) ps \<Longrightarrow>
   list_all (\<lambda>p. nf p \<and> proper p \<and> \<not> is_and_thresh p) (concat (map (flatten_sub True False) ps))"
  by (induction ps) (auto simp: flatten_sub_proper dest: nf_kids)

lemma flatten_nf_or:
  "list_all (\<lambda>p. nf p \<and> proper p) ps \<Longrightarrow>
   list_all (\<lambda>p. nf p \<and> proper p \<and> \<not> is_or_thresh p) (concat (map (flatten_sub False True) ps))"
  by (induction ps) (auto simp: flatten_sub_proper dest: nf_kids)

lemma nf_norm_result:
  assumes "list_all (\<lambda>p. nf p \<and> proper p) ps"
  shows "nf (norm_result m ps)"
proof -
  consider "m = 0" | "length ps < m" | "m = 1" "length ps = 1" | "m = length ps" "2 \<le> m"
    | "m = 1" "2 \<le> length ps" | "2 \<le> m" "m < length ps" by linarith
  then show ?thesis
  proof cases
    case 3
    then show ?thesis using assms by (cases ps) (auto simp: norm_result_def)
  next
    case 4
    then show ?thesis
      using flatten_nf_and [OF assms] flatten_length [OF assms, of True False]
      by (auto simp: norm_result_def Let_def thr_n_def list_all_iff proper_def)
  next
    case 5
    then show ?thesis
      using flatten_nf_or [OF assms] flatten_length [OF assms, of False True]
      by (auto simp: norm_result_def thr_n_def list_all_iff proper_def)
  next
    case 6
    then show ?thesis using assms by (auto simp: norm_result_def thr_n_def list_all_iff proper_def)
  qed (simp_all add: norm_result_def)
qed

lemma filter_proper_nf: "list_all nf subs \<Longrightarrow> list_all (\<lambda>p. nf p \<and> proper p) (filter proper subs)"
  by (auto simp: list_all_iff)

lemma norm_result_nf:
  assumes "nf (SThresh (Threshold k ps))"
  shows "norm_result k ps = SThresh (Threshold k ps)"
proof -
  have ps: "list_all (\<lambda>p. nf p \<and> proper p) ps" using assms by (auto simp: list_all_iff proper_def)
  have same: "concat (map (flatten_sub a b) ps) = ps"
    if "list_all (\<lambda>p. \<not> (a \<and> \<not> b \<and> is_and_thresh p \<or> \<not> a \<and> b \<and> is_or_thresh p)) ps" for a b
    using ps that by (induction ps) (auto simp: flatten_sub_proper)
  have "concat (map (flatten_sub True False) ps) = ps" if "k = length ps"
    using assms that by (intro same) (auto simp: thr_n_def list_all_iff)
  moreover have "concat (map (flatten_sub False True) ps) = ps" if "k = 1"
    using assms that by (intro same) (auto simp: list_all_iff)
  ultimately show ?thesis using assms by (auto simp: norm_result_def thr_n_def)
qed

subsection \<open>Correctness of normalisation\<close>

lemma mapM_all:
  assumes "\<And>p. p \<in> set ps \<Longrightarrow> \<exists>q. f p = Some q \<and> R p q"
  shows "\<exists>qs. mapM f ps = Some qs \<and> list_all2 R ps qs"
proof -
  obtain qs where "mapM f ps = Some qs" using mapM_total [of ps f] assms by blast
  moreover have "list_all2 R ps qs"
    using assms calculation by (auto simp: list_all2_conv_all_nth dest: mapM_length) (metis mapM_nth nth_mem option.inject)
  ultimately show ?thesis by blast
qed

definition normalises :: "'pk policy \<Rightarrow> 'pk policy \<Rightarrow> bool" where
  "normalises p q \<longleftrightarrow> nf q \<and> (\<forall>v. sem v q = sem v p) \<and> (nf p \<longrightarrow> q = p)"

lemma normalized_correct: "\<exists>q. normalized p = Some q \<and> normalises p q"
proof (induction p rule: policy_induct)
  case (Leaf p)
  then show ?case using nf_leaf [of p] by (auto simp: normalises_def)
next
  case (Inscribe i p)
  then obtain q where "normalized p = Some q" "normalises p q" by blast
  then show ?case by (cases q) (auto simp: normalises_def)
next
  case (Thresh k ps)
  then obtain qs where qs: "mapM normalized ps = Some qs" "list_all2 normalises ps qs"
    using mapM_all [of ps normalized normalises] by blast
  let ?m = "k - length (filter (\<lambda>p. p = STrivial) qs)"
  have nfs: "list_all nf qs" using qs(2) by (induction rule: list_all2_induct) (auto simp: normalises_def)
  have count: "length (filter (sem v) qs) = length (filter (sem v) ps)" for v
    using qs(2) by (induction rule: list_all2_induct) (auto simp: normalises_def)
  have "normalized (SThresh (Threshold k ps)) = Some (norm_result ?m (filter proper qs))"
    using normalize_thresh_eq [OF nfs, of k] qs(1) by simp
  moreover have "sem v (norm_result ?m (filter proper qs)) = sem v (SThresh (Threshold k ps))" for v
    using sem_norm_result [OF filter_proper_nf [OF nfs], of v ?m] count [of v] sem_count [of v qs] by auto
  moreover have "norm_result ?m (filter proper qs) = SThresh (Threshold k ps)" if "nf (SThresh (Threshold k ps))"
  proof -
    have "list_all nf ps" using that by (auto simp: list_all_iff)
    with qs(2) have "qs = ps" by (induction rule: list_all2_induct) (auto simp: normalises_def)
    moreover have "list_all proper ps" using that by (auto simp: list_all_iff proper_def)
    ultimately show ?thesis
      using norm_result_nf [OF that] by (auto simp: list_all_iff proper_def filter_empty_conv)
  qed
  ultimately show ?case
    using nf_norm_result [OF filter_proper_nf [OF nfs]] by (auto simp: normalises_def simp del: nf.simps)
qed

end
