(* ===== verification/SemOps.thy ===== *)
theory SemOps
  imports SemPolicy "HOL-Library.Multiset"
begin

section \<open>Operations on semantic policies\<close>

text \<open>
  The operations of \<^verbatim>\<open>policy/semantic.rs\<close> that run over the nodes of a policy: filtering at
  an age or a lock time, counting keys, listing timelocks, sorting, translating keys.  Each loop over
  \<open>rtl_post_order_iter\<close> is a \<open>rtl_loop\<close> with the step of the code; the lemmas say what it computes.
\<close>

subsection \<open>Loops\<close>

text \<open>\<open>thresh.map_ref(|_| stack.pop().unwrap())\<close>.\<close>

definition pop_n :: "nat \<Rightarrow> 'b list \<Rightarrow> ('b list \<times> 'b list) option" where
  "pop_n n stack = (if length stack < n then None else Some (take n stack, drop n stack))"

lemma pop_n_append [simp]: "length bs = n \<Longrightarrow> pop_n n (bs @ rest) = Some (bs, rest)"
  by (simp add: pop_n_def)

text \<open>The result of a loop that returns no error.\<close>

definition loop_result :: "(unit + 'b) option \<Rightarrow> 'b option" where
  "loop_result r = (case r of Some (Inr b) \<Rightarrow> Some b | _ \<Rightarrow> None)"

lemma loop_result_Inr [simp]: "loop_result (Some (Inr b)) = Some b"
  by (simp add: loop_result_def)

text \<open>A fold that gives each node a value of its children's values.\<close>

lemma sem_rose_fold:
  assumes "\<And>p. g p (map h (sem_kids p)) = Inr (h p)"
  shows "rose_fold g (sem_rose p) = Inr (h p)"
proof (induction p rule: sem.tree_induct)
  case (Node p)
  have "rose_folds g (map sem_rose cs) = Inr (map h cs)" if "set cs \<subseteq> set (sem_kids p)" for cs
    using that Node by (induction cs) auto
  then show ?case using assms by (subst sem_rose.simps) simp
qed

subsection \<open>Timelocks\<close>

text \<open>A step that keeps leaves unless \<open>new_leaf\<close> replaces them.\<close>

definition rebuild_policy_step ::
    "('pk policy \<Rightarrow> 'pk policy option) \<Rightarrow> 'pk policy \<Rightarrow> 'pk policy list \<Rightarrow> (unit + 'pk policy list) option" where
  "rebuild_policy_step new_leaf p stack =
     (case p of
        SThresh t \<Rightarrow>
          (case pop_n (thr_n t) stack of
             None \<Rightarrow> None
           | Some (ps, rest) \<Rightarrow> Some (Inr (SThresh (Threshold (thr_k t) ps) # rest)))
      | SInscribe i _ \<Rightarrow> (case stack of [] \<Rightarrow> None | sub # rest \<Rightarrow> Some (Inr (SInscribe i sub # rest)))
      | leaf \<Rightarrow> (case new_leaf leaf of None \<Rightarrow> None | Some q \<Rightarrow> Some (Inr (q # stack))))"

text \<open>\<open>relative::LockTime::from\<close> can panic (\<open>None\<close>).\<close>

definition older_leaf :: "btc \<Rightarrow> rel_lock \<Rightarrow> 'pk policy \<Rightarrow> 'pk policy option" where
  "older_leaf L age p =
     (case p of
        SOlder t \<Rightarrow>
          (case rel_lock_of L t of
             None \<Rightarrow> None
           | Some l \<Rightarrow> Some (if rel_is_implied_by L l age then SOlder t else SUnsatisfiable))
      | _ \<Rightarrow> Some p)"

definition at_age :: "btc \<Rightarrow> rel_lock \<Rightarrow> 'pk policy \<Rightarrow> 'pk policy option" where
  "at_age L age p =
     (case loop_result (rtl_loop sem_tree (rebuild_policy_step (older_leaf L age)) p) of
        None \<Rightarrow> None
      | Some q \<Rightarrow> normalized q)"

definition after_leaf :: "btc \<Rightarrow> abs_lock \<Rightarrow> 'pk policy \<Rightarrow> 'pk policy option" where
  "after_leaf L n p =
     (case p of
        SAfter t \<Rightarrow> Some (if abs_is_implied_by L (abs_lock_of L t) n then SAfter t else SUnsatisfiable)
      | _ \<Rightarrow> Some p)"

definition at_lock_time :: "btc \<Rightarrow> abs_lock \<Rightarrow> 'pk policy \<Rightarrow> 'pk policy option" where
  "at_lock_time L n p =
     (case loop_result (rtl_loop sem_tree (rebuild_policy_step (after_leaf L n)) p) of
        None \<Rightarrow> None
      | Some q \<Rightarrow> normalized q)"

text \<open>The policy with its leaves replaced.\<close>

fun map_leaves :: "('pk policy \<Rightarrow> 'pk policy) \<Rightarrow> 'pk policy \<Rightarrow> 'pk policy" where
  "map_leaves f (SInscribe i p) = SInscribe i (map_leaves f p)"
| "map_leaves f (SThresh t) = SThresh (Threshold (thr_k t) (map (map_leaves f) (thr_data t)))"
| "map_leaves f p = f p"

fun leaves :: "'pk policy \<Rightarrow> 'pk policy list" where
  "leaves (SInscribe i p) = leaves p"
| "leaves (SThresh t) = concat (map leaves (thr_data t))"
| "leaves p = [p]"

lemma leaves_leaf: "l \<in> set (leaves p) \<Longrightarrow> l \<noteq> SInscribe i q \<and> l \<noteq> SThresh t"
proof (induction p rule: policy_induct)
  case (Leaf p)
  then show ?case by (cases p) auto
qed auto

lemma count_cong: "map P xs = map Q ys \<Longrightarrow> length (filter P xs) = length (filter Q ys)"
  by (induction xs arbitrary: ys) (auto simp: Cons_eq_map_conv split: if_splits)

lemma leaves_kids: "\<not> (sem_kids p = [] \<and> (\<forall>t. p \<noteq> SThresh t)) \<Longrightarrow> leaves p = concat (map leaves (sem_kids p))"
  by (cases p) auto

lemma rebuild_policy:
  assumes "\<And>l. l \<in> set (leaves p) \<Longrightarrow> new_leaf l = Some (f l)"
  shows "loop_result (rtl_loop sem_tree (rebuild_policy_step new_leaf) p) = Some (map_leaves f p)"
proof -
  define g :: "'a policy \<Rightarrow> 'a policy list \<Rightarrow> unit + 'a policy" where
    "g q bs = (case q of SThresh t \<Rightarrow> Inr (SThresh (Threshold (thr_k t) bs))
       | SInscribe i _ \<Rightarrow> Inr (SInscribe i (hd bs)) | leaf \<Rightarrow> Inr (f leaf))" for q bs
  have "rtl_loop sem_tree (rebuild_policy_step new_leaf) p = Some (rose_fold g (sem_rose p))"
  proof (rule sem.rtl_loop_fold_on [where P = "\<lambda>q. set (leaves q) \<subseteq> set (leaves p)"])
    fix q rest and bs :: "'a policy list"
    assume "set (leaves q) \<subseteq> set (leaves p)" "length bs = length (tree_children sem_tree q)"
    then show "rebuild_policy_step new_leaf q (bs @ rest) = Some (map_sum id (\<lambda>b. b # rest) (g q bs))"
      by (cases q) (auto simp: rebuild_policy_step_def g_def assms thr_n_def length_Suc_conv)
  next
    fix q c
    assume "set (leaves q) \<subseteq> set (leaves p)" "c \<in> set (tree_children sem_tree q)"
    then show "set (leaves c) \<subseteq> set (leaves p)" by (cases q) auto
  qed simp
  moreover have "rose_fold g (sem_rose p) = Inr (map_leaves f p)"
    by (rule sem_rose_fold) (simp add: g_def split: policy.split)
  ultimately show ?thesis by simp
qed

lemma sem_map_leaves:
  assumes "\<And>l. l \<in> set (leaves p) \<Longrightarrow> sem v (f l) = sem w l"
  shows "sem v (map_leaves f p) = sem w p"
  using assms
proof (induction p rule: policy_induct)
  case (Leaf p)
  then show ?case by (cases p) auto
next
  case (Thresh k ps)
  then have "map (sem v) (map (map_leaves f) ps) = map (sem w) ps" by auto
  from count_cong [OF this] show ?case by simp
qed simp

text \<open>At a given age, the leaves \<open>older\<close> that the age does not reach count as unsatisfied.\<close>

definition aged :: "btc \<Rightarrow> rel_lock \<Rightarrow> ('pk policy \<Rightarrow> bool) \<Rightarrow> 'pk policy \<Rightarrow> bool" where
  "aged L age v l = (case l of SOlder t \<Rightarrow> rel_is_implied_by L (the (rel_lock_of L t)) age \<and> v l | _ \<Rightarrow> v l)"

definition locked :: "btc \<Rightarrow> abs_lock \<Rightarrow> ('pk policy \<Rightarrow> bool) \<Rightarrow> 'pk policy \<Rightarrow> bool" where
  "locked L n v l = (case l of SAfter t \<Rightarrow> abs_is_implied_by L (abs_lock_of L t) n \<and> v l | _ \<Rightarrow> v l)"

lemma at_age_correct:
  assumes "\<And>t. SOlder t \<in> set (leaves p) \<Longrightarrow> rel_lock_of L t \<noteq> None"
  shows "\<exists>q. at_age L age p = Some q \<and> nf q \<and> (\<forall>v. sem v q = sem (aged L age v) p)"
proof -
  define f where "f l = the (older_leaf L age l)" for l :: "'a policy"
  have f: "older_leaf L age l = Some (f l)" if "l \<in> set (leaves p)" for l
    using assms that by (cases l) (auto simp: f_def older_leaf_def split: option.splits)
  obtain q where q: "normalized (map_leaves f p) = Some q" "normalises (map_leaves f p) q"
    using normalized_correct by blast
  have "sem v (f l) = sem (aged L age v) l" if l: "l \<in> set (leaves p)" for v l
  proof (cases l)
    case (SOlder t)
    then obtain k where "rel_lock_of L t = Some k" using assms l by blast
    with SOlder show ?thesis by (simp add: f_def older_leaf_def aged_def)
  qed (use leaves_leaf [OF l] in \<open>auto simp: f_def older_leaf_def aged_def\<close>)
  then have "sem v (map_leaves f p) = sem (aged L age v) p" for v by (rule sem_map_leaves)
  with q show ?thesis by (simp add: at_age_def rebuild_policy [OF f] normalises_def)
qed

lemma at_lock_time_correct:
  "\<exists>q. at_lock_time L n p = Some q \<and> nf q \<and> (\<forall>v. sem v q = sem (locked L n v) p)"
proof -
  define f where "f l = the (after_leaf L n l)" for l :: "'a policy"
  have f: "after_leaf L n l = Some (f l)" for l :: "'a policy"
    by (cases l) (auto simp: f_def after_leaf_def)
  obtain q where q: "normalized (map_leaves f p) = Some q" "normalises (map_leaves f p) q"
    using normalized_correct by blast
  have "sem v (f l) = sem (locked L n v) l" if "l \<in> set (leaves p)" for v l
    using leaves_leaf [OF that] by (cases l) (auto simp: f_def after_leaf_def locked_def)
  then have "sem v (map_leaves f p) = sem (locked L n v) p" for v by (rule sem_map_leaves)
  with q show ?thesis by (simp add: at_lock_time_def rebuild_policy [OF f] normalises_def)
qed

subsection \<open>Counting and listing\<close>

fun dedup :: "'a list \<Rightarrow> 'a list" where
  "dedup (x # y # xs) = (if x = y then dedup (y # xs) else x # dedup (y # xs))"
| "dedup xs = xs"

definition timelock_list :: "('pk policy \<Rightarrow> u32 option) \<Rightarrow> 'pk policy \<Rightarrow> u32 list" where
  "timelock_list f p = (case pre_order_iter sem_tree p of None \<Rightarrow> [] | Some nodes \<Rightarrow> List.map_filter f nodes)"

fun older_value :: "'pk policy \<Rightarrow> u32 option" where
  "older_value (SOlder t) = Some (rel_to_consensus_u32 t)"
| "older_value _ = None"

fun after_value :: "'pk policy \<Rightarrow> u32 option" where
  "after_value (SAfter t) = Some (abs_to_consensus_u32 t)"
| "after_value _ = None"

definition real_relative_timelocks :: "'pk policy \<Rightarrow> u32 list" where
  "real_relative_timelocks = timelock_list older_value"

definition relative_timelocks :: "'pk policy \<Rightarrow> u32 list" where
  "relative_timelocks p = dedup (sort (real_relative_timelocks p))"

definition real_absolute_timelocks :: "'pk policy \<Rightarrow> u32 list" where
  "real_absolute_timelocks = timelock_list after_value"

definition absolute_timelocks :: "'pk policy \<Rightarrow> u32 list" where
  "absolute_timelocks p = dedup (sort (real_absolute_timelocks p))"

definition sem_for_each_key :: "('pk \<Rightarrow> bool) \<Rightarrow> 'pk policy \<Rightarrow> bool" where
  "sem_for_each_key pred p =
     (case pre_order_iter sem_tree p of
        None \<Rightarrow> False
      | Some nodes \<Rightarrow> list_all (\<lambda>q. case q of SKey pk \<Rightarrow> pred pk | _ \<Rightarrow> True) nodes)"

fun is_key :: "'pk policy \<Rightarrow> bool" where
  "is_key (SKey _) = True"
| "is_key _ = False"

definition n_keys :: "'pk policy \<Rightarrow> nat" where
  "n_keys p = (case pre_order_iter sem_tree p of None \<Rightarrow> 0 | Some nodes \<Rightarrow> length (filter is_key nodes))"

text \<open>The minimum number of keys, \<open>None\<close> for a policy that cannot be satisfied.\<close>

definition minimum_n_keys_step ::
    "'pk policy \<Rightarrow> nat option list \<Rightarrow> (unit + nat option list) option" where
  "minimum_n_keys_step p stack =
     (case p of
        SUnsatisfiable \<Rightarrow> Some (Inr (None # stack))
      | SInscribe _ _ \<Rightarrow> (case stack of [] \<Rightarrow> None | x # rest \<Rightarrow> Some (Inr (x # rest)))
      | SKey _ \<Rightarrow> Some (Inr (Some 1 # stack))
      | SThresh t \<Rightarrow>
          (case pop_n (thr_n t) stack of
             None \<Rightarrow> None
           | Some (xs, rest) \<Rightarrow>
               (let sublens = List.map_filter id xs in
                if length sublens < thr_k t then Some (Inr (None # rest))
                else Some (Inr (Some (sum_list (take (thr_k t) (sort sublens))) # rest))))
      | _ \<Rightarrow> Some (Inr (Some 0 # stack)))"

definition minimum_n_keys :: "'pk policy \<Rightarrow> nat option option" where
  "minimum_n_keys p = loop_result (rtl_loop sem_tree minimum_n_keys_step p)"

text \<open>\<open>sorted\<close>: \<open>le\<close> is the derived order of policies; \<open>sort\<close> is a stable sort.\<close>

fun insert_by :: "('a \<Rightarrow> 'a \<Rightarrow> bool) \<Rightarrow> 'a \<Rightarrow> 'a list \<Rightarrow> 'a list" where
  "insert_by le x [] = [x]"
| "insert_by le x (y # ys) = (if le x y then x # y # ys else y # insert_by le x ys)"

definition sort_by :: "('a \<Rightarrow> 'a \<Rightarrow> bool) \<Rightarrow> 'a list \<Rightarrow> 'a list" where
  "sort_by le xs = foldr (insert_by le) xs []"

definition sorted_step ::
    "('pk policy \<Rightarrow> 'pk policy \<Rightarrow> bool) \<Rightarrow> 'pk policy \<Rightarrow> 'pk policy list \<Rightarrow> (unit + 'pk policy list) option" where
  "sorted_step le p stack =
     (case p of
        SInscribe i _ \<Rightarrow> (case stack of [] \<Rightarrow> None | sub # rest \<Rightarrow> Some (Inr (SInscribe i sub # rest)))
      | SThresh t \<Rightarrow>
          (case pop_n (thr_n t) stack of
             None \<Rightarrow> None
           | Some (ps, rest) \<Rightarrow> Some (Inr (SThresh (Threshold (thr_k t) (sort_by le ps)) # rest)))
      | _ \<Rightarrow> Some (Inr (p # stack)))"

definition sorted_policy :: "('pk policy \<Rightarrow> 'pk policy \<Rightarrow> bool) \<Rightarrow> 'pk policy \<Rightarrow> 'pk policy option" where
  "sorted_policy le p = loop_result (rtl_loop sem_tree (sorted_step le) p)"


lemma mapM_map_filter: "List.map_filter f xs = map (the \<circ> f) (filter (\<lambda>x. f x \<noteq> None) xs)"
  by (simp add: List.map_filter_def)

lemma dedup_sort: "sorted xs \<Longrightarrow> sorted (dedup xs) \<and> distinct (dedup xs) \<and> set (dedup xs) = set xs"
  by (induction xs rule: dedup.induct) (auto intro: antisym)

text \<open>A filter that only passes leaves finds them in the order of \<open>leaves\<close>.\<close>

lemma filter_pre_nodes:
  assumes "\<And>i q. \<not> P (SInscribe i q)" "\<And>t. \<not> P (SThresh t)"
  shows "filter P (pre_nodes (sem_rose p)) = filter P (leaves p)"
proof (induction p rule: policy_induct)
  case (Leaf p)
  then show ?case by (subst sem_rose.simps) (cases p; simp add: assms)
next
  case (Inscribe i p)
  then show ?case by (subst sem_rose.simps) (simp add: assms)
next
  case (Thresh k ps)
  then show ?case
    by (subst sem_rose.simps) (simp add: assms filter_concat comp_def cong: map_cong)
qed

text \<open>The listed locks are the sorted set of those that occur.\<close>

lemma timelock_list_set:
  assumes "\<And>i q. f (SInscribe i q) = None" "\<And>t. f (SThresh t) = None"
  shows "set (timelock_list f p) = {x. \<exists>l \<in> set (leaves p). f l = Some x}"
proof -
  have "filter (\<lambda>q. f q \<noteq> None) (pre_nodes (sem_rose p)) = filter (\<lambda>q. f q \<noteq> None) (leaves p)"
    by (rule filter_pre_nodes) (simp_all add: assms)
  then show ?thesis
    by (force simp: timelock_list_def sem.pre_order_iter_nodes mapM_map_filter simp del: not_None_eq)
qed

lemma older_value_iff: "older_value l = Some x \<longleftrightarrow> (\<exists>t. l = SOlder t \<and> x = rel_to_consensus_u32 t)"
  by (cases l) auto

lemma after_value_iff: "after_value l = Some x \<longleftrightarrow> (\<exists>t. l = SAfter t \<and> x = abs_to_consensus_u32 t)"
  by (cases l) auto

lemma relative_timelocks_correct:
  "sorted (relative_timelocks p) \<and> distinct (relative_timelocks p)
    \<and> set (relative_timelocks p) = {rel_to_consensus_u32 t | t. SOlder t \<in> set (leaves p)}"
proof -
  have "set (real_relative_timelocks p) = {rel_to_consensus_u32 t | t. SOlder t \<in> set (leaves p)}"
    unfolding real_relative_timelocks_def
    by (subst timelock_list_set) (auto simp: older_value_iff)
  then show ?thesis using dedup_sort [of "sort (real_relative_timelocks p)"] by (simp add: relative_timelocks_def)
qed

lemma absolute_timelocks_correct:
  "sorted (absolute_timelocks p) \<and> distinct (absolute_timelocks p)
    \<and> set (absolute_timelocks p) = {abs_to_consensus_u32 t | t. SAfter t \<in> set (leaves p)}"
proof -
  have "set (real_absolute_timelocks p) = {abs_to_consensus_u32 t | t. SAfter t \<in> set (leaves p)}"
    unfolding real_absolute_timelocks_def
    by (subst timelock_list_set) (auto simp: after_value_iff)
  then show ?thesis using dedup_sort [of "sort (real_absolute_timelocks p)"] by (simp add: absolute_timelocks_def)
qed

lemma n_keys_leaves: "n_keys p = length (filter is_key (leaves p))"
  by (simp add: n_keys_def sem.pre_order_iter_nodes filter_pre_nodes)

subsection \<open>The minimum number of keys\<close>

fun min_keys :: "'pk policy \<Rightarrow> nat option" where
  "min_keys SUnsatisfiable = None"
| "min_keys (SInscribe _ p) = min_keys p"
| "min_keys (SKey _) = Some 1"
| "min_keys (SThresh t) =
     (let sublens = List.map_filter id (map min_keys (thr_data t)) in
      if length sublens < thr_k t then None else Some (sum_list (take (thr_k t) (sort sublens))))"
| "min_keys p = Some 0"

lemma minimum_n_keys_eq: "minimum_n_keys p = Some (min_keys p)"
proof -
  define g :: "'a policy \<Rightarrow> nat option list \<Rightarrow> unit + nat option" where
    "g q bs = (case q of SUnsatisfiable \<Rightarrow> Inr None | SInscribe _ _ \<Rightarrow> Inr (hd bs) | SKey _ \<Rightarrow> Inr (Some 1)
       | SThresh t \<Rightarrow> (let sublens = List.map_filter id bs in
           if length sublens < thr_k t then Inr None else Inr (Some (sum_list (take (thr_k t) (sort sublens)))))
       | _ \<Rightarrow> Inr (Some 0))" for q bs
  have "rtl_loop sem_tree minimum_n_keys_step p = Some (rose_fold g (sem_rose p))"
    by (rule sem.rtl_loop_fold)
      (auto simp: minimum_n_keys_step_def g_def Let_def thr_n_def length_Suc_conv split: policy.split)
  moreover have "rose_fold g (sem_rose p) = Inr (min_keys p)"
    by (rule sem_rose_fold) (simp add: g_def Let_def split: policy.split)
  ultimately show ?thesis by (simp add: minimum_n_keys_def)
qed

text \<open>The number of keys that an assignment uses: the keys among the leaves that it makes true.\<close>

definition keys_used :: "('pk policy \<Rightarrow> bool) \<Rightarrow> 'pk policy \<Rightarrow> nat" where
  "keys_used v p = length (filter (\<lambda>l. is_key l \<and> v l) (leaves p))"


lemma keys_used_thresh: "keys_used v (SThresh (Threshold k ps)) = sum_list (map (keys_used v) ps)"
  by (simp add: keys_used_def [abs_def] filter_concat length_concat comp_def)

text \<open>The \<open>k\<close> least elements have the least sum.\<close>

lemma sum_take_sorted:
  "sorted xs \<Longrightarrow> mset ys \<subseteq># mset xs \<Longrightarrow> k \<le> length ys \<Longrightarrow> sum_list (take k xs) \<le> sum_list ys" for xs :: "nat list"
proof (induction xs arbitrary: ys k)
  case Nil
  then show ?case by simp
next
  case (Cons x xs)
  show ?case
  proof (cases k)
    case (Suc j)
    show ?thesis
    proof (cases "x \<in> set ys")
      case True
      then have "mset ys = add_mset x (mset (remove1 x ys))" by simp
      moreover from this have "mset (remove1 x ys) \<subseteq># mset xs" "sum_list ys = x + sum_list (remove1 x ys)"
        using Cons.prems(2) by (simp_all add: sum_mset_sum_list [symmetric] del: mset_remove1)
      moreover have "j \<le> length (remove1 x ys)" using True Cons.prems(3) Suc by (simp add: length_remove1)
      ultimately show ?thesis using Cons.IH [of "remove1 x ys" j] Cons.prems(1) Suc by simp
    next
      case False
      have sub: "mset ys \<subseteq># mset xs"
      proof (intro mset_subset_eqI)
        fix z
        have c: "count (mset ys) x = 0" using False by (simp add: count_eq_zero_iff)
        show "count (mset ys) z \<le> count (mset xs) z"
        proof (cases "z = x")
          case True
          show ?thesis by (simp only: True c le0)
        next
          case False
          then show ?thesis using mset_subset_eq_count [OF Cons.prems(2), of z] by simp
        qed
      qed
      obtain y zs where ys: "ys = y # zs" using Cons.prems(3) Suc by (cases ys) auto
      have "y \<in># mset xs" using sub ys mset_subset_eqD by fastforce
      then have "x \<le> y" using Cons.prems(1) by auto
      moreover have "mset zs \<subseteq># mset xs" using sub ys by (auto intro: subset_mset.order_trans [rotated])
      ultimately show ?thesis using Cons.IH [of zs j] Cons.prems ys Suc by auto
    qed
  qed simp
qed

lemma mset_map_filter_mono:
  "(\<And>x. x \<in> set xs \<Longrightarrow> P x \<Longrightarrow> Q x) \<Longrightarrow> mset (map f (filter P xs)) \<subseteq># mset (map f (filter Q xs))"
  by (induction xs) (auto intro: subset_mset.order_trans)

lemma map_filter_id: "List.map_filter id (map f xs) = map (the \<circ> f) (filter (\<lambda>x. f x \<noteq> None) xs)"
  by (simp add: List.map_filter_def filter_map comp_def)

lemma min_keys_None: "min_keys p = None \<longleftrightarrow> \<not> sem (\<lambda>_. True) p"
proof (induction p rule: policy_induct)
  case (Leaf p)
  then show ?case by (cases p) auto
next
  case (Thresh k ps)
  then have "filter (\<lambda>p. min_keys p \<noteq> None) ps = filter (sem (\<lambda>_. True)) ps" by (intro filter_cong) auto
  then show ?case by (simp add: map_filter_id Let_def del: not_None_eq)
qed simp

lemma length_filter_mono:
  "(\<And>x. x \<in> set xs \<Longrightarrow> P x \<Longrightarrow> Q x) \<Longrightarrow> length (filter P xs) \<le> length (filter Q xs)"
  by (induction xs) (auto simp: le_SucI)

lemma sum_list_filter_le:
  "(\<And>x. x \<in> set xs \<Longrightarrow> P x \<Longrightarrow> f x \<le> g x) \<Longrightarrow> sum_list (map f (filter P xs)) \<le> sum_list (map g xs)"
  for f g :: "'a \<Rightarrow> nat"
  by (induction xs) (auto intro: add_mono trans_le_add2)

lemma sem_mono: "sem v p \<Longrightarrow> (\<And>l. v l \<Longrightarrow> w l) \<Longrightarrow> sem w p"
proof (induction p rule: policy_induct)
  case (Leaf p)
  then show ?case by (cases p) auto
next
  case (Thresh k ps)
  have "length (filter (sem v) ps) \<le> length (filter (sem w) ps)"
    using Thresh by (intro length_filter_mono) auto
  then show ?case using Thresh.prems by simp
qed simp

lemma min_keys_le: "sem v p \<Longrightarrow> \<exists>m. min_keys p = Some m \<and> m \<le> keys_used v p"
proof (induction p rule: policy_induct)
  case (Leaf p)
  then show ?case by (cases p) (auto simp: keys_used_def)
next
  case (Inscribe i p)
  then show ?case by (simp add: keys_used_def)
next
  case (Thresh k ps)
  define sublens where "sublens = map (the \<circ> min_keys) (filter (\<lambda>p. min_keys p \<noteq> None) ps)"
  define ys where "ys = map (the \<circ> min_keys) (filter (sem v) ps)"
  have sub: "mset ys \<subseteq># mset sublens"
    unfolding ys_def sublens_def using Thresh.IH by (intro mset_map_filter_mono) auto
  have k: "k \<le> length ys" using Thresh.prems by (simp add: ys_def)
  also have "\<dots> \<le> length sublens" using size_mset_mono [OF sub] by simp
  finally have "min_keys (SThresh (Threshold k ps)) = Some (sum_list (take k (sort sublens)))"
    by (simp add: map_filter_id sublens_def Let_def)
  moreover have "sum_list (take k (sort sublens)) \<le> sum_list ys"
    using sub k by (intro sum_take_sorted) simp_all
  moreover have "sum_list ys \<le> sum_list (map (keys_used v) ps)"
    unfolding ys_def using Thresh.IH by (intro sum_list_filter_le) fastforce
  ultimately show ?case by (auto simp: keys_used_thresh)
qed


subsection \<open>Sorting\<close>

fun sort_thresholds :: "('pk policy \<Rightarrow> 'pk policy \<Rightarrow> bool) \<Rightarrow> 'pk policy \<Rightarrow> 'pk policy" where
  "sort_thresholds le (SInscribe i p) = SInscribe i (sort_thresholds le p)"
| "sort_thresholds le (SThresh t) =
     SThresh (Threshold (thr_k t) (sort_by le (map (sort_thresholds le) (thr_data t))))"
| "sort_thresholds le p = p"

lemma sorted_policy_eq: "sorted_policy le p = Some (sort_thresholds le p)"
proof -
  define g :: "'a policy \<Rightarrow> 'a policy list \<Rightarrow> unit + 'a policy" where
    "g q bs = (case q of SInscribe i _ \<Rightarrow> Inr (SInscribe i (hd bs))
       | SThresh t \<Rightarrow> Inr (SThresh (Threshold (thr_k t) (sort_by le bs))) | _ \<Rightarrow> Inr q)" for q bs
  have "rtl_loop sem_tree (sorted_step le) p = Some (rose_fold g (sem_rose p))"
    by (rule sem.rtl_loop_fold)
      (auto simp: sorted_step_def g_def thr_n_def length_Suc_conv split: policy.split)
  moreover have "rose_fold g (sem_rose p) = Inr (sort_thresholds le p)"
    by (rule sem_rose_fold) (simp add: g_def split: policy.split)
  ultimately show ?thesis by (simp add: sorted_policy_def)
qed

lemma mset_insert_by [simp]: "mset (insert_by le x xs) = add_mset x (mset xs)"
  by (induction xs) auto

lemma mset_sort_by [simp]: "mset (sort_by le xs) = mset xs"
proof -
  have "mset (foldr (insert_by le) xs ys) = mset xs + mset ys" for ys by (induction xs) auto
  then show ?thesis by (simp add: sort_by_def)
qed

lemma length_filter_mset: "mset xs = mset ys \<Longrightarrow> length (filter P xs) = length (filter P ys)"
  by (metis mset_filter size_mset)

lemma sem_sort_thresholds: "sem v (sort_thresholds le p) = sem v p"
proof (induction p rule: policy_induct)
  case (Leaf p)
  then show ?case by (cases p) auto
next
  case (Thresh k ps)
  have "length (filter (sem v) (sort_by le (map (sort_thresholds le) ps)))
      = length (filter (sem v) (map (sort_thresholds le) ps))"
    by (rule length_filter_mset) simp
  also have "\<dots> = length (filter (sem v) ps)" using Thresh by (intro count_cong) auto
  finally show ?case by simp
qed simp

lemma mset_leaves_sort_thresholds: "mset (leaves (sort_thresholds le p)) = mset (leaves p)"
proof (induction p rule: policy_induct)
  case (Leaf p)
  then show ?case by (cases p) auto
next
  case (Thresh k ps)
  have "mset (concat (map leaves qs)) = \<Sum>\<^sub># (image_mset (mset \<circ> leaves) (mset qs))" for qs :: "'a policy list"
    by (induction qs) auto
  moreover have "image_mset (mset \<circ> leaves) (mset (map (sort_thresholds le) ps)) = image_mset (mset \<circ> leaves) (mset ps)"
    using Thresh by (induction ps) auto
  ultimately show ?case by simp
qed simp

end
