(* ===== verification/Entail.thy ===== *)
theory Entail
  imports SemOps
begin

section \<open>Entailment of semantic policies\<close>

text \<open>
  \<open>Policy::entails\<close> of \<^verbatim>\<open>policy/semantic.rs\<close>: a decision procedure that sets the first leaf
  of the policy to true and to false in turn.  It ends, because both choices remove a leaf; on normalised
  policies it decides whether every assignment that satisfies the one satisfies the other.
\<close>

subsection \<open>The procedure\<close>

definition ENTAILMENT_MAX_TERMINALS :: nat where
  "ENTAILMENT_MAX_TERMINALS = 20"

text \<open>\<open>n_terminals\<close>: an inscription is counted as a leaf and the count of its child stays on the stack;
  the function is only called on policies without inscriptions.\<close>

definition n_terminals_step :: "'pk policy \<Rightarrow> nat list \<Rightarrow> (unit + nat list) option" where
  "n_terminals_step p stack =
     (case p of
        SThresh t \<Rightarrow>
          (case pop_n (thr_n t) stack of
             None \<Rightarrow> None
           | Some (ns, rest) \<Rightarrow> Some (Inr (sum_list ns # rest)))
      | STrivial \<Rightarrow> Some (Inr (0 # stack))
      | SUnsatisfiable \<Rightarrow> Some (Inr (0 # stack))
      | _ \<Rightarrow> Some (Inr (1 # stack)))"

definition n_terminals :: "'pk policy \<Rightarrow> nat option" where
  "n_terminals p = loop_result (rtl_loop sem_tree n_terminals_step p)"

text \<open>The assertions of debug builds that the policy is normalised are left out.  \<open>None\<close> is the panic
  of an index out of range.\<close>

fun first_constraint :: "'pk policy \<Rightarrow> 'pk policy option" where
  "first_constraint (SThresh (Threshold k (p # ps))) = first_constraint p"
| "first_constraint (SThresh (Threshold k [])) = None"
| "first_constraint p = Some p"

fun satisfy_constraint :: "'pk policy \<Rightarrow> bool \<Rightarrow> 'pk policy \<Rightarrow> 'pk policy option" where
  "satisfy_constraint witness available (SThresh t) =
     (case witness of
        SThresh _ \<Rightarrow> None
      | _ \<Rightarrow>
          (case mapM (satisfy_constraint witness available) (thr_data t) of
             None \<Rightarrow> None
           | Some subs \<Rightarrow> normalized (SThresh (Threshold (thr_k t) subs))))"
| "satisfy_constraint witness available p =
     (case witness of
        SThresh _ \<Rightarrow> None
      | _ \<Rightarrow>
          normalized (if p = witness then (if available then STrivial else SUnsatisfiable) else p))"

fun is_inscribe :: "'pk policy \<Rightarrow> bool" where
  "is_inscribe (SInscribe _ _) = True"
| "is_inscribe _ = False"

definition has_inscribe :: "'pk policy \<Rightarrow> bool" where
  "has_inscribe p = (case pre_order_iter sem_tree p of None \<Rightarrow> False | Some nodes \<Rightarrow> list_ex is_inscribe nodes)"


definition entail_split ::
    "'pk policy \<Rightarrow> 'pk policy \<Rightarrow> (('pk policy \<times> 'pk policy) \<times> ('pk policy \<times> 'pk policy)) option" where
  "entail_split a b =
     (case (normalized a, normalized b) of
        (Some a_norm, Some b_norm) \<Rightarrow>
          (case first_constraint a_norm of
             None \<Rightarrow> None
           | Some c \<Rightarrow>
               (case (satisfy_constraint c True a_norm, satisfy_constraint c True b_norm,
                      satisfy_constraint c False a_norm, satisfy_constraint c False b_norm) of
                  (Some a1, Some b1, Some a2, Some b2) \<Rightarrow> Some ((a1, b1), (a2, b2))
                | _ \<Rightarrow> None))
      | _ \<Rightarrow> None)"

subsection \<open>Termination\<close>

fun atom_count :: "'pk policy \<Rightarrow> nat" where
  "atom_count SUnsatisfiable = 0"
| "atom_count STrivial = 0"
| "atom_count (SThresh t) = sum_list (map atom_count (thr_data t))"
| "atom_count _ = 1"

fun no_inscribe :: "'pk policy \<Rightarrow> bool" where
  "no_inscribe (SInscribe _ _) = False"
| "no_inscribe (SThresh t) = list_all no_inscribe (thr_data t)"
| "no_inscribe _ = True"

lemma has_inscribe_iff: "has_inscribe p \<longleftrightarrow> \<not> no_inscribe p"
proof (induction p rule: policy_induct)
  case (Leaf p)
  then show ?case by (cases p) (simp_all add: has_inscribe_def sem.pre_order_iter_nodes sem_rose.simps)
next
  case (Inscribe i p)
  then show ?case by (simp add: has_inscribe_def sem.pre_order_iter_nodes sem_rose.simps)
next
  case (Thresh k ps)
  then show ?case
    by (subst (asm) has_inscribe_def)
      (auto simp: has_inscribe_def sem.pre_order_iter_nodes sem_rose.simps [of "SThresh _"] list_ex_iff list_all_iff)
qed

definition shrinks :: "'pk policy \<Rightarrow> 'pk policy \<Rightarrow> bool" where
  "shrinks p q \<longleftrightarrow> atom_count q \<le> atom_count p \<and> (no_inscribe p \<longrightarrow> no_inscribe q)"

lemma flatten_shrinks:
  "sum_list (map atom_count (concat (map (flatten_sub a b) ps))) = sum_list (map atom_count ps)"
  "list_all no_inscribe ps \<Longrightarrow> list_all no_inscribe (concat (map (flatten_sub a b) ps))"
proof -
  have "sum_list (map atom_count (flatten_sub a b p)) = atom_count p" for p :: "'a policy"
    by (cases p) (auto simp: flatten_sub_def)
  then show "sum_list (map atom_count (concat (map (flatten_sub a b) ps))) = sum_list (map atom_count ps)"
    by (induction ps) auto
  have "no_inscribe p \<Longrightarrow> list_all no_inscribe (flatten_sub a b p)" for p :: "'a policy"
    by (cases p) (auto simp: flatten_sub_def)
  then show "list_all no_inscribe ps \<Longrightarrow> list_all no_inscribe (concat (map (flatten_sub a b) ps))"
    by (induction ps) auto
qed

lemma norm_result_shrinks: "shrinks (SThresh (Threshold k ps)) (norm_result m ps)"
  using flatten_shrinks [where a = True and b = False and ps = ps]
    flatten_shrinks [where a = False and b = True and ps = ps]
  by (cases ps) (auto simp: shrinks_def norm_result_def Let_def)

lemma sum_list_le2: "list_all2 (\<lambda>p q. f q \<le> f p) ps qs \<Longrightarrow> sum_list (map f qs) \<le> sum_list (map f ps)"
  for f :: "'a \<Rightarrow> nat"
  by (induction rule: list_all2_induct) auto

lemma sum_list_filter: "sum_list (map f (filter P ps)) \<le> sum_list (map f ps)" for f :: "'a \<Rightarrow> nat"
  by (induction ps) auto

lemma shrinks_thresh:
  assumes "list_all2 shrinks ps qs"
  shows "shrinks (SThresh (Threshold k ps)) (norm_result m (filter P qs))"
proof -
  have "sum_list (map atom_count (filter P qs)) \<le> sum_list (map atom_count qs)" by (rule sum_list_filter)
  also have "\<dots> \<le> sum_list (map atom_count ps)"
    using assms by (intro sum_list_le2) (auto simp: shrinks_def elim: list_all2_mono)
  moreover have "list_all no_inscribe ps \<Longrightarrow> list_all no_inscribe qs"
    using assms by (induction rule: list_all2_induct) (auto simp: shrinks_def)
  ultimately show ?thesis
    using norm_result_shrinks [of k "filter P qs" m] by (auto simp: shrinks_def list_all_iff)
qed

lemma normalized_nf: "normalized p = Some q \<Longrightarrow> nf q"
  using normalized_correct [of p] by (auto simp: normalises_def)

lemma normalized_same: "nf p \<Longrightarrow> normalized p = Some p"
  using normalized_correct [of p] by (auto simp: normalises_def)

lemma normalized_thresh:
  assumes "list_all2 (\<lambda>p q. normalized p = Some q) ps qs"
  shows "normalized (SThresh (Threshold k ps)) =
     Some (norm_result (k - length (filter (\<lambda>p. p = STrivial) qs)) (filter proper qs))"
proof -
  have "list_all nf qs"
    using assms by (induction rule: list_all2_induct) (auto dest: normalized_nf)
  moreover have "mapM normalized ps = Some qs" using assms by (simp add: mapM_Some_iff)
  ultimately show ?thesis by (simp add: normalize_thresh_eq)
qed

lemma normalized_shrinks: "normalized p = Some q \<Longrightarrow> shrinks p q"
proof (induction p arbitrary: q rule: policy_induct)
  case (Leaf p)
  then show ?case using nf_leaf [of p] by (auto simp: shrinks_def)
next
  case (Inscribe i p)
  then show ?case by (auto simp: shrinks_def split: option.splits policy.splits)
next
  case (Thresh k ps)
  obtain qs where qs: "list_all2 (\<lambda>p q. normalized p = Some q) ps qs"
    using mapM_all [of ps normalized "\<lambda>p q. normalized p = Some q"] normalized_correct by blast
  then have "list_all2 shrinks ps qs" using Thresh.IH by (auto simp: list_all2_conv_all_nth)
  then show ?case using Thresh.prems normalized_thresh [OF qs, of k] shrinks_thresh by auto
qed

text \<open>Setting a leaf.\<close>

definition set_leaf :: "'pk policy \<Rightarrow> bool \<Rightarrow> 'pk policy \<Rightarrow> 'pk policy \<Rightarrow> bool" where
  "set_leaf c a p q \<longleftrightarrow>
     nf q \<and> no_inscribe q \<and> (\<forall>v. sem v q = sem (v(c := a)) p)
     \<and> atom_count q \<le> atom_count p \<and> (c \<in> set (leaves p) \<longrightarrow> atom_count q < atom_count p)"

lemma atom_facts: "is_atom p \<Longrightarrow> leaves p = [p] \<and> atom_count p = 1"
  by (cases p) auto

lemma satisfy_constraint_sets:
  assumes "is_atom c" "no_inscribe p"
  shows "\<exists>q. satisfy_constraint c a p = Some q \<and> set_leaf c a p q"
  using assms(2)
proof (induction p rule: policy_induct)
  case (Leaf p)
  have c: "satisfy_constraint c a p = Some (if p = c then (if a then STrivial else SUnsatisfiable) else p)"
    using Leaf assms(1) by (cases p; cases c) auto
  show ?case
  proof (cases "p = c")
    case True
    then show ?thesis unfolding c using atom_facts [OF assms(1)] assms(1) by (auto simp: set_leaf_def sem_atom)
  next
    case False
    have "sem (v(c := a)) p = sem v p" for v
      using sem_leaf_cases [OF Leaf(1,2)] False by (auto simp: sem_atom)
    moreover have "leaves p = [p]" using Leaf(1,2) by (cases p) auto
    ultimately show ?thesis unfolding c using False Leaf nf_leaf [of p] by (auto simp: set_leaf_def)
  qed
next
  case (Inscribe i p)
  then show ?case by simp
next
  case (Thresh k ps)
  then obtain qs where qs: "mapM (satisfy_constraint c a) ps = Some qs" "list_all2 (set_leaf c a) ps qs"
    using mapM_all [of ps "satisfy_constraint c a" "set_leaf c a"] by (auto simp: list_all_iff)
  obtain q where q: "normalized (SThresh (Threshold k qs)) = Some q" "normalises (SThresh (Threshold k qs)) q"
    using normalized_correct by blast
  have ins: "no_inscribe (SThresh (Threshold k qs))"
    using qs(2) by (simp add: list_all2_conv_all_nth list_all_length set_leaf_def)
  have map: "map (sem v) qs = map (sem (v(c := a))) ps" for v
    using qs(2) by (induction rule: list_all2_induct) (simp_all add: set_leaf_def del: fun_upd_apply)
  have sem: "sem v (SThresh (Threshold k qs)) = sem (v(c := a)) (SThresh (Threshold k ps))" for v
    using count_cong [OF map] by (simp del: fun_upd_apply)
  have "sum_list (map atom_count qs) \<le> sum_list (map atom_count ps)
      \<and> (c \<in> set (concat (map leaves ps)) \<longrightarrow> sum_list (map atom_count qs) < sum_list (map atom_count ps))"
    using qs(2) by (induction rule: list_all2_induct) (auto simp: set_leaf_def intro: add_le_less_mono add_less_le_mono)
  then have count: "atom_count (SThresh (Threshold k qs)) \<le> atom_count (SThresh (Threshold k ps))
      \<and> (c \<in> set (leaves (SThresh (Threshold k ps)))
         \<longrightarrow> atom_count (SThresh (Threshold k qs)) < atom_count (SThresh (Threshold k ps)))" by simp
  have "satisfy_constraint c a (SThresh (Threshold k ps)) = Some q"
    using qs(1) q(1) assms(1) by (cases c) auto
  moreover have "set_leaf c a (SThresh (Threshold k ps)) q"
    unfolding set_leaf_def
  proof (intro conjI allI impI)
    show "nf q" using q(2) by (simp add: normalises_def)
    show "no_inscribe q" using normalized_shrinks [OF q(1)] ins by (simp add: shrinks_def)
    have le: "atom_count q \<le> atom_count (SThresh (Threshold k qs))"
      using normalized_shrinks [OF q(1)] by (simp add: shrinks_def)
    then show "atom_count q \<le> atom_count (SThresh (Threshold k ps))" using count by linarith
    show "atom_count q < atom_count (SThresh (Threshold k ps))" if "c \<in> set (leaves (SThresh (Threshold k ps)))"
      using count le that by linarith
    show "sem v q = sem (v(c := a)) (SThresh (Threshold k ps))" for v
      using q(2) sem [of v] unfolding normalises_def by metis
  qed
  ultimately show ?case by blast
qed

lemma first_constraint_atom:
  "nf p \<Longrightarrow> no_inscribe p \<Longrightarrow> proper p \<Longrightarrow> \<exists>c. first_constraint p = Some c \<and> is_atom c \<and> c \<in> set (leaves p)"
proof (induction p rule: policy_induct)
  case (Leaf p)
  then show ?case by (cases p) (auto simp: proper_def)
next
  case (Thresh k ps)
  then obtain q qs where ps: "ps = q # qs" by (cases ps) (auto simp: thr_n_def)
  then have "\<exists>c. first_constraint q = Some c \<and> is_atom c \<and> c \<in> set (leaves q)"
    using Thresh by (auto simp: proper_def)
  then show ?case using ps by auto
qed simp


definition entail_measure :: "'pk policy \<Rightarrow> nat" where
  "entail_measure a =
     (if a = SUnsatisfiable \<or> a = STrivial then 0
      else Suc (case normalized a of None \<Rightarrow> 0 | Some q \<Rightarrow> atom_count q))"

lemma satisfy_constraint_const:
  assumes "c = SUnsatisfiable \<or> c = STrivial"
  shows "satisfy_constraint c a c = Some (if a then STrivial else SUnsatisfiable)"
  using assms by auto

lemma entail_split_less:
  assumes "entail_split a b = Some ((a1, b1), (a2, b2))" "no_inscribe a" "a \<noteq> SUnsatisfiable" "a \<noteq> STrivial"
  shows "entail_measure a1 < entail_measure a" "entail_measure a2 < entail_measure a"
proof -
  obtain an c where an: "normalized a = Some an" "first_constraint an = Some c"
    and a1: "satisfy_constraint c True an = Some a1" and a2: "satisfy_constraint c False an = Some a2"
    using assms(1) by (auto simp: entail_split_def split: option.splits prod.splits)
  have nf: "nf an" "no_inscribe an"
    using normalized_nf [OF an(1)] normalized_shrinks [OF an(1)] assms(2) by (auto simp: shrinks_def)
  have a: "entail_measure a = Suc (atom_count an)" using assms(3,4) an(1) by (simp add: entail_measure_def)
  have "entail_measure q < entail_measure a" if "satisfy_constraint c v an = Some q" for v q
  proof (cases "proper an")
    case True
    then have "is_atom c" "c \<in> set (leaves an)" using first_constraint_atom [OF nf] an(2) by auto
    then have "nf q" "atom_count q < atom_count an"
      using satisfy_constraint_sets [of c an v] nf(2) that by (auto simp: set_leaf_def)
    then show ?thesis using normalized_same [of q] a by (simp add: entail_measure_def)
  next
    case False
    then have "c = an \<and> (an = SUnsatisfiable \<or> an = STrivial)" using an(2) by (auto simp: proper_def)
    then have "q = STrivial \<or> q = SUnsatisfiable" using satisfy_constraint_const [of c v] that by (auto split: if_splits)
    then show ?thesis using a by (auto simp: entail_measure_def)
  qed
  from this [OF a1] this [OF a2] show "entail_measure a1 < entail_measure a" "entail_measure a2 < entail_measure a" .
qed

text \<open>The outer \<open>None\<close> is a panic, the inner one the answer of the code for policies with inscriptions
  and for large ones.\<close>

function entails :: "'pk policy \<Rightarrow> 'pk policy \<Rightarrow> bool option option" where
  "entails a b =
     (if has_inscribe a \<or> has_inscribe b then Some None
      else
        (case n_terminals a of
           None \<Rightarrow> None
         | Some n \<Rightarrow>
             (if n > ENTAILMENT_MAX_TERMINALS then Some None
              else if a = SUnsatisfiable then Some (Some True)
              else if a = STrivial then Some (Some (b = STrivial))
              else if b = SUnsatisfiable then Some (Some False)
              else
                (case entail_split a b of
                   None \<Rightarrow> None
                 | Some ((a1, b1), (a2, b2)) \<Rightarrow>
                     (case entails a1 b1 of
                        Some (Some True) \<Rightarrow> entails a2 b2
                      | r \<Rightarrow> r)))))"
  by auto
termination
  by (relation "measure (entail_measure \<circ> fst)") (auto simp: has_inscribe_iff entail_split_less)

declare entails.simps [simp del]

subsection \<open>Correctness\<close>

lemma n_terminals_count: "no_inscribe p \<Longrightarrow> n_terminals p = Some (atom_count p)"
proof -
  assume p: "no_inscribe p"
  define g :: "'a policy \<Rightarrow> nat list \<Rightarrow> unit + nat" where
    "g q bs = (case q of SThresh t \<Rightarrow> Inr (sum_list bs) | STrivial \<Rightarrow> Inr 0 | SUnsatisfiable \<Rightarrow> Inr 0 | _ \<Rightarrow> Inr 1)" for q bs
  have "rtl_loop sem_tree n_terminals_step p = Some (rose_fold g (sem_rose p))"
  proof (rule sem.rtl_loop_fold_on [where P = no_inscribe])
    fix t :: "'a policy" and rest bs :: "nat list"
    assume "no_inscribe t" "length bs = length (tree_children sem_tree t)"
    then show "n_terminals_step t (bs @ rest) = Some (map_sum id (\<lambda>b. b # rest) (g t bs))"
      by (cases t) (auto simp: n_terminals_step_def g_def thr_n_def)
  next
    fix t c :: "'a policy"
    assume "no_inscribe t" "c \<in> set (tree_children sem_tree t)"
    then show "no_inscribe c" by (cases t) (auto simp: list_all_iff)
  qed (rule p)
  moreover have "rose_fold g (sem_rose p) = Inr (atom_count p)"
    by (rule sem_rose_fold) (simp add: g_def split: policy.split)
  ultimately show ?thesis by (simp add: n_terminals_def)
qed

lemma nf_all_true: "nf p \<Longrightarrow> p \<noteq> SUnsatisfiable \<Longrightarrow> sem (\<lambda>_. True) p"
proof (induction p rule: policy_induct)
  case (Leaf p)
  then show ?case by (cases p) auto
next
  case (Thresh k ps)
  then have "filter (sem (\<lambda>_. True)) ps = ps" by (auto simp: list_all_iff)
  then show ?case using Thresh.prems by (simp add: thr_n_def)
qed simp

lemma nf_all_false: "nf p \<Longrightarrow> no_inscribe p \<Longrightarrow> p \<noteq> STrivial \<Longrightarrow> \<not> sem (\<lambda>_. False) p"
proof (induction p rule: policy_induct)
  case (Leaf p)
  then show ?case by (cases p) auto
next
  case (Thresh k ps)
  then have "filter (sem (\<lambda>_. False)) ps = []" by (auto simp: list_all_iff filter_empty_conv)
  then show ?case using Thresh.prems by simp
qed simp

text \<open>Every assignment that satisfies \<open>a\<close> satisfies \<open>b\<close>.\<close>

definition entailed :: "'pk policy \<Rightarrow> 'pk policy \<Rightarrow> bool" where
  "entailed a b \<longleftrightarrow> (\<forall>v. sem v a \<longrightarrow> sem v b)"

lemma entailed_split:
  assumes "\<And>v. sem v a1 = sem (v(c := True)) a" "\<And>v. sem v a2 = sem (v(c := False)) a"
    and "\<And>v. sem v b1 = sem (v(c := True)) b" "\<And>v. sem v b2 = sem (v(c := False)) b"
  shows "entailed a b \<longleftrightarrow> entailed a1 b1 \<and> entailed a2 b2"
proof
  assume r: "entailed a1 b1 \<and> entailed a2 b2"
  show "entailed a b"
    unfolding entailed_def
  proof (intro allI impI)
    fix v
    assume "sem v a"
    have same: "v(c := v c) = v" by simp
    show "sem v b"
    proof (cases "v c")
      case True
      with same have v: "v(c := True) = v" by simp
      then show ?thesis using r \<open>sem v a\<close> assms(1,3) [of v] by (simp add: entailed_def)
    next
      case False
      with same have v: "v(c := False) = v" by simp
      then show ?thesis using r \<open>sem v a\<close> assms(2,4) [of v] by (simp add: entailed_def)
    qed
  qed
qed (simp add: entailed_def assms)

lemma entails_correct:
  assumes "nf a" "nf b" "no_inscribe a" "no_inscribe b" "atom_count a \<le> ENTAILMENT_MAX_TERMINALS"
  shows "entails a b = Some (Some (entailed a b))"
  using assms
proof (induction a b rule: entails.induct)
  case (1 a b)
  have guards: "\<not> (has_inscribe a \<or> has_inscribe b)" "n_terminals a = Some (atom_count a)"
    "\<not> atom_count a > ENTAILMENT_MAX_TERMINALS"
    using 1(5-7) by (auto simp: has_inscribe_iff n_terminals_count)
  show ?case
  proof (cases "a = SUnsatisfiable \<or> a = STrivial \<or> b = SUnsatisfiable")
    case True
    then consider "a = SUnsatisfiable" | "a = STrivial" | "proper a" "b = SUnsatisfiable" by (auto simp: proper_def)
    then show ?thesis
    proof cases
      case 2
      have "b \<noteq> STrivial \<Longrightarrow> \<not> entailed a b" using nf_all_false [of b] 1(4,6) 2 by (auto simp: entailed_def)
      then show ?thesis using 2 guards by (auto simp: entails.simps [of STrivial b] entailed_def)
    next
      case 3
      then have "\<not> entailed a b" using nf_all_true [of a] 1(3) by (auto simp: entailed_def proper_def)
      then show ?thesis using 3 guards by (simp add: entails.simps [of a SUnsatisfiable] proper_def)
    qed (use guards in \<open>simp add: entails.simps [of SUnsatisfiable b] entailed_def\<close>)
  next
    case False
    then have a: "proper a" by (simp add: proper_def)
    obtain c where c: "first_constraint a = Some c" "is_atom c" "c \<in> set (leaves a)"
      using first_constraint_atom [OF 1(3,5) a] by blast
    obtain a1 b1 a2 b2 where
      s: "satisfy_constraint c True a = Some a1" "satisfy_constraint c True b = Some b1"
        "satisfy_constraint c False a = Some a2" "satisfy_constraint c False b = Some b2"
      and r: "set_leaf c True a a1" "set_leaf c True b b1" "set_leaf c False a a2" "set_leaf c False b b2"
      using satisfy_constraint_sets [OF c(2) 1(5)] satisfy_constraint_sets [OF c(2) 1(6)] by metis
    have split: "entail_split a b = Some ((a1, b1), (a2, b2))"
      using c(1) s normalized_same [OF 1(3)] normalized_same [OF 1(4)] by (simp add: entail_split_def)
    have lt: "atom_count a1 \<le> ENTAILMENT_MAX_TERMINALS" "atom_count a2 \<le> ENTAILMENT_MAX_TERMINALS"
      using r 1(7) by (auto simp: set_leaf_def)
    have e1: "entails a1 b1 = Some (Some (entailed a1 b1))"
      using guards False split r lt by (intro 1(1)) (auto simp: set_leaf_def)
    have e2: "entails a2 b2 = Some (Some (entailed a2 b2))" if "entailed a1 b1"
      using guards False split r lt e1 that by (intro 1(2)) (auto simp: set_leaf_def)
    have "entailed a b \<longleftrightarrow> entailed a1 b1 \<and> entailed a2 b2"
      using r by (intro entailed_split [where c = c]) (auto simp: set_leaf_def)
    then show ?thesis
      using guards False split e1 e2 by (cases "entailed a1 b1") (simp_all add: entails.simps [of a b])
  qed
qed

text \<open>On policies that are not normalised the answer can be wrong: an unsatisfiable policy need not be the
  fragment \<open>Unsatisfiable\<close>, a trivial one need not be \<open>Trivial\<close>.\<close>

lemma entails_not_normalised:
  "entails (SThresh (Threshold 1 [SUnsatisfiable, SUnsatisfiable])) (SKey (0::nat)) = Some (Some False)
    \<and> entails STrivial (SThresh (Threshold 1 [STrivial, SKey (0::nat)])) = Some (Some False)"
  by code_simp

lemma entailed_not_normalised:
  "entailed (SThresh (Threshold 1 [SUnsatisfiable, SUnsatisfiable])) (SKey (0::nat))
    \<and> entailed STrivial (SThresh (Threshold 1 [STrivial, SKey (0::nat)]))"
  by (simp add: entailed_def)

end
