(* ===== verification/Lift.thy ===== *)
theory Lift
  imports Entail Translate Analysis
begin

section \<open>Lifting a miniscript\<close>

text \<open>
  \<open>Liftable\<close> for miniscripts (\<^verbatim>\<open>policy/mod.rs\<close>): a loop over the nodes that forgets how a
  miniscript is written, then \<open>normalized\<close>.  \<open>ms_sem\<close> is the meaning of a miniscript by recursion on its
  nodes, and the lifted policy has the same meaning.
\<close>

datatype lift_error = LiftHeightTimelockCombination | BranchExceedResourceLimits | RawDescriptorLift

definition lift_check :: "script_context \<Rightarrow> 'pk key_ops \<Rightarrow> 'pk miniscript \<Rightarrow> lift_error + unit" where
  "lift_check ctx K ms =
     (if \<not> within_resource_limits ctx K ms then Inl BranchExceedResourceLimits
      else if has_mixed_timelocks ms then Inl LiftHeightTimelockCombination
      else Inr ())"

definition lift_step :: "'pk miniscript \<Rightarrow> 'pk policy list \<Rightarrow> (lift_error + 'pk policy list) option" where
  "lift_step ms stack =
     (case ms_node ms of
        PkK pk \<Rightarrow> Some (Inr (SKey pk # stack))
      | PkH pk \<Rightarrow> Some (Inr (SKey pk # stack))
      | RawPkH _ \<Rightarrow> Some (Inl RawDescriptorLift)
      | After t \<Rightarrow> Some (Inr (SAfter t # stack))
      | Older t \<Rightarrow> Some (Inr (SOlder t # stack))
      | Sha256 h \<Rightarrow> Some (Inr (SSha256 h # stack))
      | Hash256 h \<Rightarrow> Some (Inr (SHash256 h # stack))
      | Ripemd160 h \<Rightarrow> Some (Inr (SRipemd160 h # stack))
      | Hash160 h \<Rightarrow> Some (Inr (SHash160 h # stack))
      | TxTemplate h \<Rightarrow> Some (Inr (STxTemplate h # stack))
      | InscribePre inscriptions _ \<Rightarrow>
          (case stack of child # rest \<Rightarrow> Some (Inr (foldl (\<lambda>c i. SInscribe i c) child (rev inscriptions) # rest)) | _ \<Rightarrow> None)
      | InscribePost inscriptions _ \<Rightarrow>
          (case stack of child # rest \<Rightarrow> Some (Inr (foldl (\<lambda>c i. SInscribe i c) child (rev inscriptions) # rest)) | _ \<Rightarrow> None)
      | FalseT \<Rightarrow> Some (Inr (SUnsatisfiable # stack))
      | TrueT \<Rightarrow> Some (Inr (STrivial # stack))
      | Alt _ \<Rightarrow> (case stack of x # rest \<Rightarrow> Some (Inr (x # rest)) | _ \<Rightarrow> None)
      | Swap _ \<Rightarrow> (case stack of x # rest \<Rightarrow> Some (Inr (x # rest)) | _ \<Rightarrow> None)
      | Check _ \<Rightarrow> (case stack of x # rest \<Rightarrow> Some (Inr (x # rest)) | _ \<Rightarrow> None)
      | DupIf _ \<Rightarrow> (case stack of x # rest \<Rightarrow> Some (Inr (x # rest)) | _ \<Rightarrow> None)
      | Verify _ \<Rightarrow> (case stack of x # rest \<Rightarrow> Some (Inr (x # rest)) | _ \<Rightarrow> None)
      | NonZero _ \<Rightarrow> (case stack of x # rest \<Rightarrow> Some (Inr (x # rest)) | _ \<Rightarrow> None)
      | ZeroNotEqual _ \<Rightarrow> (case stack of x # rest \<Rightarrow> Some (Inr (x # rest)) | _ \<Rightarrow> None)
      | AndV _ _ \<Rightarrow> (case stack of x # y # rest \<Rightarrow> Some (Inr (SThresh (threshold_and x y) # rest)) | _ \<Rightarrow> None)
      | AndB _ _ \<Rightarrow> (case stack of x # y # rest \<Rightarrow> Some (Inr (SThresh (threshold_and x y) # rest)) | _ \<Rightarrow> None)
      | AndOr _ _ _ \<Rightarrow>
          (case stack of
             x # y # z # rest \<Rightarrow> Some (Inr (SThresh (threshold_or (SThresh (threshold_and x y)) z) # rest))
           | _ \<Rightarrow> None)
      | OrB _ _ \<Rightarrow> (case stack of x # y # rest \<Rightarrow> Some (Inr (SThresh (threshold_or x y) # rest)) | _ \<Rightarrow> None)
      | OrD _ _ \<Rightarrow> (case stack of x # y # rest \<Rightarrow> Some (Inr (SThresh (threshold_or x y) # rest)) | _ \<Rightarrow> None)
      | OrC _ _ \<Rightarrow> (case stack of x # y # rest \<Rightarrow> Some (Inr (SThresh (threshold_or x y) # rest)) | _ \<Rightarrow> None)
      | OrI _ _ \<Rightarrow> (case stack of x # y # rest \<Rightarrow> Some (Inr (SThresh (threshold_or x y) # rest)) | _ \<Rightarrow> None)
      | Thresh thresh \<Rightarrow>
          (case pop_n (thr_n thresh) stack of
             None \<Rightarrow> None
           | Some (subs, rest) \<Rightarrow> Some (Inr (SThresh (Threshold (thr_k thresh) subs) # rest)))
      | Multi thresh \<Rightarrow> Some (Inr (SThresh (threshold_map SKey thresh) # stack))
      | MultiA thresh \<Rightarrow> Some (Inr (SThresh (threshold_map SKey thresh) # stack)))"

definition lift :: "script_context \<Rightarrow> 'pk key_ops \<Rightarrow> 'pk miniscript \<Rightarrow> (lift_error + 'pk policy) option" where
  "lift ctx K ms =
     (case lift_check ctx K ms of
        Inl e \<Rightarrow> Some (Inl e)
      | Inr _ \<Rightarrow>
          (case rtl_loop ms_tree lift_step ms of
             None \<Rightarrow> None
           | Some (Inl e) \<Rightarrow> Some (Inl e)
           | Some (Inr p) \<Rightarrow> map_option Inr (normalized p)))"

subsection \<open>The meaning of a miniscript\<close>

text \<open>What a fragment demands, given what its children demand; keys and hashes are the leaves of policies.\<close>

fun node_sem :: "('pk policy \<Rightarrow> bool) \<Rightarrow> ('pk, 'c) terminal \<Rightarrow> bool list \<Rightarrow> bool" where
  "node_sem v TrueT bs = True"
| "node_sem v FalseT bs = False"
| "node_sem v (PkK pk) bs = v (SKey pk)"
| "node_sem v (PkH pk) bs = v (SKey pk)"
| "node_sem v (RawPkH _) bs = False"
| "node_sem v (After t) bs = v (SAfter t)"
| "node_sem v (Older t) bs = v (SOlder t)"
| "node_sem v (Sha256 h) bs = v (SSha256 h)"
| "node_sem v (Hash256 h) bs = v (SHash256 h)"
| "node_sem v (Ripemd160 h) bs = v (SRipemd160 h)"
| "node_sem v (Hash160 h) bs = v (SHash160 h)"
| "node_sem v (TxTemplate h) bs = v (STxTemplate h)"
| "node_sem v (AndV _ _) bs = (bs ! 0 \<and> bs ! 1)"
| "node_sem v (AndB _ _) bs = (bs ! 0 \<and> bs ! 1)"
| "node_sem v (AndOr _ _ _) bs = (bs ! 0 \<and> bs ! 1 \<or> bs ! 2)"
| "node_sem v (OrB _ _) bs = (bs ! 0 \<or> bs ! 1)"
| "node_sem v (OrD _ _) bs = (bs ! 0 \<or> bs ! 1)"
| "node_sem v (OrC _ _) bs = (bs ! 0 \<or> bs ! 1)"
| "node_sem v (OrI _ _) bs = (bs ! 0 \<or> bs ! 1)"
| "node_sem v (Thresh t) bs = (thr_k t \<le> count_true bs)"
| "node_sem v (Multi t) bs = (thr_k t \<le> count_true (map (v \<circ> SKey) (thr_data t)))"
| "node_sem v (MultiA t) bs = (thr_k t \<le> count_true (map (v \<circ> SKey) (thr_data t)))"
| "node_sem v _ bs = bs ! 0"

fun ms_sem :: "('pk policy \<Rightarrow> bool) \<Rightarrow> 'pk miniscript \<Rightarrow> bool" where
  "ms_sem v (Miniscript n ty ext) = node_sem v n (map (ms_sem v) (children n))"

text \<open>The step as a function of the children's policies.\<close>

definition lift_node :: "'pk miniscript \<Rightarrow> 'pk policy list \<Rightarrow> lift_error + 'pk policy" where
  "lift_node ms ps = (case lift_step ms ps of Some (Inr (p # _)) \<Rightarrow> Inr p | Some (Inl e) \<Rightarrow> Inl e | _ \<Rightarrow> Inl RawDescriptorLift)"

lemma lift_step_node:
  assumes "length ps = length (children (ms_node ms))"
  shows "lift_step ms (ps @ rest) = Some (map_sum id (\<lambda>p. p # rest) (lift_node ms ps))"
proof -
  obtain x y z where "ps = [] \<or> ps = [x] \<or> ps = [x, y] \<or> ps = [x, y, z] \<or> 3 < length ps"
    by (cases ps; cases "tl ps"; cases "tl (tl ps)"; cases "tl (tl (tl ps))") auto
  then show ?thesis
    using assms by (cases "ms_node ms") (auto simp: lift_node_def lift_step_def thr_n_def pop_n_def)
qed

lemma sem_inscriptions [simp]: "sem v (foldl (\<lambda>c i. SInscribe i c) p is) = sem v p"
  by (induction "is" arbitrary: p) auto

lemma count_true_map: "count_true (map f xs) = length (filter f xs)"
  by (induction xs) auto

lemma sem_and_or [simp]:
  "sem v (SThresh (threshold_and x y)) \<longleftrightarrow> sem v x \<and> sem v y"
  "sem v (SThresh (threshold_or x y)) \<longleftrightarrow> sem v x \<or> sem v y"
  by (auto simp: threshold_and_def threshold_or_def)

lemma sem_keys: "sem v (SThresh (threshold_map SKey t)) \<longleftrightarrow> thr_k t \<le> count_true (map (v \<circ> SKey) (thr_data t))"
  by (simp add: threshold_map_def count_true_map filter_map comp_def)

lemma lift_node_sem:
  assumes "length ps = length (children n)" "\<not> is_raw_pkh n"
  shows "\<exists>p. lift_node (Miniscript n ty ext) ps = Inr p \<and> sem v p = node_sem v n (map (sem v) ps)"
proof -
  obtain x y z where "ps = [] \<or> ps = [x] \<or> ps = [x, y] \<or> ps = [x, y, z] \<or> 3 < length ps"
    by (cases ps; cases "tl ps"; cases "tl (tl ps)"; cases "tl (tl (tl ps))") auto
  then show ?thesis
    using assms
    by (cases n)
      (auto simp: lift_node_def lift_step_def thr_n_def pop_n_def sem_keys count_true_map numeral_2_eq_2
        simp del: sem.simps(4), auto simp: count_true_map)
qed

lemma lift_node_raw: "is_raw_pkh n \<Longrightarrow> lift_node (Miniscript n ty ext) ps = Inl RawDescriptorLift"
  by (cases n) (simp_all add: lift_node_def lift_step_def)

lemma lift_loop: "rtl_loop ms_tree lift_step ms = Some (rose_fold lift_node (ms_rose ms))"
  by (rule ms.rtl_loop_fold) (simp add: lift_step_node)

lemma lift_fold_sem:
  "\<not> contains_raw_pkh ms \<Longrightarrow> \<exists>p. rose_fold lift_node (ms_rose ms) = Inr p \<and> (\<forall>v. sem v p = ms_sem v ms)"
proof (induction ms rule: ms_rose.induct)
  case (1 n ty ext)
  have raw: "\<not> is_raw_pkh n" "\<And>c. c \<in> set (children n) \<Longrightarrow> \<not> contains_raw_pkh c"
    using 1(2) by (auto simp: contains_raw_pkh_iff is_raw_pkh_iff)
  then obtain h where h: "\<And>c. c \<in> set (children n) \<Longrightarrow>
      rose_fold lift_node (ms_rose c) = Inr (h c) \<and> (\<forall>v. sem v (h c) = ms_sem v c)"
    using 1(1) by metis
  then have kids: "rose_folds lift_node (map ms_rose (children n)) = Inr (map h (children n))"
    by (intro rose_folds_map) auto
  have eq: "map (sem v) (map h (children n)) = map (ms_sem v) (children n)" for v using h by auto
  then have "\<exists>p. lift_node (Miniscript n ty ext) (map h (children n)) = Inr p \<and> sem v p = ms_sem v (Miniscript n ty ext)" for v
    using lift_node_sem [of "map h (children n)" n ty ext v] raw(1) unfolding eq by simp
  then show ?case using kids by (auto simp del: ms_sem.simps) (metis Inr_inject)
qed

lemma lift_fold_raw: "contains_raw_pkh ms \<Longrightarrow> rose_fold lift_node (ms_rose ms) = Inl RawDescriptorLift"
proof (induction ms rule: ms_rose.induct)
  case (1 n ty ext)
  show ?case
  proof (cases "is_raw_pkh n")
    case True
    then have "children n = []" by (cases n) auto
    then show ?thesis using lift_node_raw [OF True] by simp
  next
    case False
    then obtain c where c: "c \<in> set (children n)" "contains_raw_pkh c"
      using 1(2) by (auto simp: contains_raw_pkh_iff is_raw_pkh_iff)
    have "rose_folds lift_node (map ms_rose cs) = Inl RawDescriptorLift"
      if "set cs \<subseteq> set (children n)" "\<exists>c \<in> set cs. contains_raw_pkh c" for cs
      using that
    proof (induction cs)
      case (Cons c cs)
      show ?case
      proof (cases "\<exists>c \<in> set cs. contains_raw_pkh c")
        case True
        then show ?thesis using Cons by simp
      next
        case False
        then have "contains_raw_pkh c" using Cons.prems by simp
        then have head: "rose_fold lift_node (ms_rose c) = Inl RawDescriptorLift" using 1(1) Cons.prems by simp
        have "\<forall>d \<in> set cs. \<exists>p. rose_fold lift_node (ms_rose d) = Inr p" using False lift_fold_sem by blast
        then obtain h where "\<And>d. d \<in> set cs \<Longrightarrow> rose_fold lift_node (ms_rose d) = Inr (h d)" by metis
        then have "rose_folds lift_node (map ms_rose cs) = Inr (map h cs)" by (rule rose_folds_map)
        with head show ?thesis by simp
      qed
    qed simp
    from this [of "children n"] c have "rose_folds lift_node (map ms_rose (children n)) = Inl RawDescriptorLift"
      by blast
    then show ?thesis by simp
  qed
qed

lemma lift_correct:
  assumes "lift_check ctx K ms = Inr ()" "\<not> contains_raw_pkh ms"
  shows "\<exists>p. lift ctx K ms = Some (Inr p) \<and> nf p \<and> (\<forall>v. sem v p = ms_sem v ms)"
proof -
  obtain p where p: "rose_fold lift_node (ms_rose ms) = Inr p" "\<forall>v. sem v p = ms_sem v ms"
    using lift_fold_sem [OF assms(2)] by blast
  obtain q where "normalized p = Some q" "normalises p q" using normalized_correct by blast
  with p assms(1) show ?thesis by (simp add: lift_def lift_loop normalises_def)
qed

lemma lift_raw:
  "lift_check ctx K ms = Inr () \<Longrightarrow> contains_raw_pkh ms \<Longrightarrow> lift ctx K ms = Some (Inl RawDescriptorLift)"
  by (simp add: lift_def lift_loop lift_fold_raw)

lemma lift_total: "lift ctx K ms \<noteq> None"
  using lift_correct [of ctx K ms] lift_raw [of ctx K ms] by (cases "lift_check ctx K ms") (auto simp: lift_def)

end
