(* ===== verification/PolicyProps.thy ===== *)
theory PolicyProps
  imports Examples Lift
begin

section \<open>Properties of semantic policies\<close>

text \<open>
  What the operations on semantic policies and the lifting of miniscripts to them promise.  \<open>sem v p\<close>
  is the abstract meaning of a policy under an assignment \<open>v\<close> of its leaves.
\<close>

text \<open>C28.  Normalisation refines the meaning: \<open>normalized\<close> never panics (no \<open>unwrap\<close> of a failed
  threshold), returns a normal form with the same meaning, and is the identity on normal forms.\<close>

theorem normalized_refines:
  "\<exists>q. normalized p = Some q \<and> nf q \<and> (\<forall>v. sem v q = sem v p) \<and> (nf p \<longrightarrow> q = p)"
  using normalized_correct [of p] by (auto simp: normalises_def)

definition ex_policy :: "nat policy" where
  "ex_policy = SThresh (Threshold 2 [STrivial, SThresh (Threshold 1 [SKey 1, SUnsatisfiable]),
     SThresh (Threshold 1 [SKey 2, SOlder (RelLockTime 10)])])"

definition ex_normal :: "nat policy" where
  "ex_normal = SThresh (Threshold 1 [SKey 1, SKey 2, SOlder (RelLockTime 10)])"

lemma ex_normalized: "normalized ex_policy = Some ex_normal"
  by code_simp

theorem normalized_refines_witness:
  "(\<forall>v. sem v ex_normal = sem v ex_policy) \<and> normalized ex_normal = Some ex_normal"
  using normalized_refines [of ex_policy] normalized_refines [of ex_normal] ex_normalized by auto

text \<open>C29.  On normalised policies without inscriptions and with at most \<open>ENTAILMENT_MAX_TERMINALS\<close>
  leaves, \<open>entails\<close> decides entailment: it returns true exactly when every assignment that satisfies the
  first policy satisfies the second.\<close>

theorem entails_decides:
  assumes "nf a" "nf b" "no_inscribe a" "no_inscribe b" "atom_count a \<le> ENTAILMENT_MAX_TERMINALS"
  shows "entails a b = Some (Some (\<forall>v. sem v a \<longrightarrow> sem v b))"
  using entails_correct [OF assms] by (simp add: entailed_def)

definition ex_both :: "nat policy" where
  "ex_both = SThresh (Threshold 2 [SKey 1, SKey 3])"

theorem entails_decides_witness: "entails ex_both ex_normal = Some (Some True)"
proof -
  have "\<forall>v. sem v ex_both \<longrightarrow> sem v ex_normal" by (auto simp: ex_both_def ex_normal_def split: if_splits)
  moreover have "nf ex_both" "nf ex_normal" "no_inscribe ex_both" "no_inscribe ex_normal"
    "atom_count ex_both \<le> ENTAILMENT_MAX_TERMINALS" by code_simp+
  ultimately show ?thesis using entails_decides [of ex_both ex_normal] by simp
qed

text \<open>C30.  \<open>at_age\<close> and \<open>at_lock_time\<close> give the policy at that point of the chain: the result is
  normalised and means what the policy means when exactly the timelocks that are implied can be met.\<close>

theorem at_time_filters:
  assumes "list_all (\<lambda>l. case l of SOlder t \<Rightarrow> rel_lock_of L t \<noteq> None | _ \<Rightarrow> True) (leaves p)"
  shows "(\<exists>q. at_age L age p = Some q \<and> nf q \<and> (\<forall>v. sem v q = sem (aged L age v) p))
    \<and> (\<exists>q. at_lock_time L n p = Some q \<and> nf q \<and> (\<forall>v. sem v q = sem (locked L n v) p))"
  using assms by (intro conjI at_age_correct at_lock_time_correct) (auto simp: list_all_iff split: policy.splits)

theorem at_time_filters_witness:
  "(\<exists>q. at_age ref_btc (RelLock 5) ex_normal = Some q \<and> nf q
      \<and> (\<forall>v. sem v q = sem (aged ref_btc (RelLock 5) v) ex_normal))
    \<and> (\<exists>q. at_lock_time ref_btc (Blocks 7) ex_normal = Some q \<and> nf q
      \<and> (\<forall>v. sem v q = sem (locked ref_btc (Blocks 7) v) ex_normal))"
proof -
  have "leaves ex_normal = [SKey 1, SKey 2, SOlder (RelLockTime 10)]" by (simp add: ex_normal_def)
  moreover have "rel_lock_of ref_btc (RelLockTime 10) \<noteq> None" by (simp add: rel_lock_of_def ref_btc_def)
  ultimately have "list_all (\<lambda>l. case l of SOlder t \<Rightarrow> rel_lock_of ref_btc t \<noteq> None | _ \<Rightarrow> True) (leaves ex_normal)"
    by (simp del: not_None_eq)
  then show ?thesis by (rule at_time_filters)
qed



text \<open>C32.  The timelocks of a policy are reported sorted, without duplicates, and exactly those of its
  leaves.\<close>

theorem timelocks_of_leaves:
  "sorted (relative_timelocks p) \<and> distinct (relative_timelocks p)
    \<and> set (relative_timelocks p) = {rel_to_consensus_u32 t | t. SOlder t \<in> set (leaves p)}
    \<and> sorted (absolute_timelocks p) \<and> distinct (absolute_timelocks p)
    \<and> set (absolute_timelocks p) = {abs_to_consensus_u32 t | t. SAfter t \<in> set (leaves p)}"
  using relative_timelocks_correct [of p] absolute_timelocks_correct [of p] by blast


text \<open>C34.  Lifting keeps the meaning: a miniscript that passes \<open>lift_check\<close> and has no raw key hash
  lifts to a normalised policy that demands what the miniscript demands, node by node.\<close>

theorem lift_refines:
  assumes "lift_check ctx K ms = Inr ()" "\<not> contains_raw_pkh ms"
  shows "\<exists>p. lift ctx K ms = Some (Inr p) \<and> nf p \<and> (\<forall>v. sem v p = ms_sem v ms)"
  using assms by (rule lift_correct)

theorem lift_refines_witness:
  "\<exists>p. lift Segwitv0 ref_keys ex_or = Some (Inr p) \<and> nf p \<and> (\<forall>v. sem v p = ms_sem v ex_or)"
proof (rule lift_refines)
  show "lift_check Segwitv0 ref_keys ex_or = Inr ()" by code_simp
  show "\<not> contains_raw_pkh ex_or" by code_simp
qed

text \<open>C40.  Lifting reports its errors in order and never panics: first the failed check, then, exactly when
  the miniscript has a raw key hash somewhere, \<open>RawDescriptorLift\<close>.\<close>

theorem lift_errors:
  "lift ctx K ms \<noteq> None
    \<and> (\<forall>e. lift ctx K ms = Some (Inl e) \<longleftrightarrow>
        lift_check ctx K ms = Inl e \<or> lift_check ctx K ms = Inr () \<and> contains_raw_pkh ms \<and> e = RawDescriptorLift)"
proof (cases "lift_check ctx K ms")
  case (Inl e)
  then show ?thesis by (auto simp: lift_def)
next
  case (Inr u)
  then show ?thesis
    using lift_correct [of ctx K ms] lift_raw [of ctx K ms] by (cases "contains_raw_pkh ms") auto
qed

end
