(* ===== verification/SatComplete.thy ===== *)
theory SatComplete
  imports SatShape Lift
begin

section \<open>What the satisfier can satisfy\<close>

text \<open>
  The satisfier against the meaning of a miniscript (\<open>ms_sem\<close> of \<open>Lift\<close>).  Both strategies are sound:
  a satisfaction exists only when what the caller provides meets the miniscript.  The malleable strategy
  is complete: when it is met, a satisfaction is found, and no assertion on the way fails.
\<close>

text \<open>The leaves that the provider can meet.\<close>

definition provided :: "'pk sat_env \<Rightarrow> 'pk policy \<Rightarrow> bool" where
  "provided E l =
     (case l of
        SKey pk \<Rightarrow> available E pk
      | SAfter t \<Rightarrow> check_after (env_provider E) (abs_lock_of (env_lib E) t)
      | SOlder t \<Rightarrow> (case rel_lock_of (env_lib E) t of Some n \<Rightarrow> check_older (env_provider E) n | None \<Rightarrow> False)
      | SSha256 h \<Rightarrow> provider_lookup_sha256 (env_provider E) h
      | SHash256 h \<Rightarrow> provider_lookup_hash256 (env_provider E) h
      | SRipemd160 h \<Rightarrow> provider_lookup_ripemd160 (env_provider E) h
      | SHash160 h \<Rightarrow> provider_lookup_hash160 (env_provider E) h
      | STxTemplate h \<Rightarrow> check_tx_template (env_provider E) h
      | _ \<Rightarrow> False)"

lemma provided_simps [simp]:
  "provided E (SKey pk) = available E pk"
  "provided E (SAfter t) = check_after (env_provider E) (abs_lock_of (env_lib E) t)"
  "provided E (SOlder r) = (\<exists>n. rel_lock_of (env_lib E) r = Some n \<and> check_older (env_provider E) n)"
  "provided E (SSha256 h) = provider_lookup_sha256 (env_provider E) h"
  "provided E (SHash256 h) = provider_lookup_hash256 (env_provider E) h"
  "provided E (SRipemd160 h) = provider_lookup_ripemd160 (env_provider E) h"
  "provided E (SHash160 h) = provider_lookup_hash160 (env_provider E) h"
  "provided E (STxTemplate h) = check_tx_template (env_provider E) h"
  by (auto simp: provided_def split: option.splits)

lemma contains_raw_pkh_Node:
  "contains_raw_pkh (Miniscript n ty ext) \<longleftrightarrow> is_raw_pkh n \<or> (\<exists>c \<in> set (children n). contains_raw_pkh c)"
  by (auto simp: contains_raw_pkh_iff is_raw_pkh_iff)

subsection \<open>Soundness of both strategies\<close>

lemma count_true_le_filter:
  "list_all2 (\<lambda>x b. b \<longrightarrow> P x) xs bs \<Longrightarrow> count_true bs \<le> count_true (map P xs)"
  by (induction rule: list_all2_induct) (auto simp: count_true_def)

lemma marks_count: "marks_ok E pks bs \<Longrightarrow> count_true bs \<le> count_true (map (available E) pks)"
  unfolding marks_ok_def by (rule count_true_le_filter)

lemma subseq_available_count:
  assumes "subseq ks pks" "\<forall>pk \<in> set ks. available E pk"
  shows "length ks \<le> count_true (map (available E) pks)"
proof -
  have "filter (available E) ks = ks" using assms(2) by (simp add: filter_id_conv)
  moreover have "subseq (filter (available E) ks) (filter (available E) pks)"
    by (rule subseq_filter [OF assms(1)])
  ultimately have "length ks \<le> length (filter (available E) pks)"
    using list_emb_length by metis
  then show ?thesis by (simp add: count_true_map)
qed

context sat_strategy
begin

lemma sats_sem:
  assumes "env_min E = minf" "env_thresh E = threshf"
  shows "typed_ms ms \<Longrightarrow> \<not> contains_raw_pkh ms \<Longrightarrow> sats E ms ps \<Longrightarrow> ms_sem (provided E) ms"
proof (induction ms arbitrary: ps rule: ms_induct)
  case (Node n ty ext)
  have ok: "node_ok n" using Node.prems(1) by simp
  have IH: "sats E c qs \<Longrightarrow> ms_sem (provided E) c" if "c \<in> set (children n)" for c qs
    using Node that by (auto simp: contains_raw_pkh_Node)
  note st = Node.prems(3)
  show ?case
  proof (cases n)
    case (RawPkH h)
    then show ?thesis using Node.prems(2) by (simp add: contains_raw_pkh_Node)
  next
    case (Thresh t)
    obtain k xs where t: "t = Threshold k xs" by (cases t)
    have k: "k \<le> length xs" using ok Thresh t by (simp add: wf_threshold_def thr_n_def)
    obtain wbs where wbs: "list_all2 (child_stack E) xs wbs" "count_true (map snd wbs) = k"
      using sats_thresh [OF assms(2) k] st unfolding Thresh t by metis
    have "list_all2 (\<lambda>x b. b \<longrightarrow> ms_sem (provided E) x) xs (map snd wbs)"
      using wbs(1) IH Thresh t
      by (auto simp: list_all2_conv_all_nth child_stack_def)
    from count_true_le_filter [OF this] show ?thesis using Thresh t wbs(2) by simp
  next
    case (Multi t)
    then obtain pks where "subseq pks (thr_data t)" "length pks = thr_k t" "\<forall>pk \<in> set pks. available E pk"
      using stacks_multi(1) st by blast
    then show ?thesis using subseq_available_count [of pks "thr_data t" E] Multi by (simp add: comp_def)
  next
    case (MultiA t)
    have pos: "0 < thr_k t" using ok MultiA by (auto simp: wf_threshold_def)
    obtain bs where "marks_ok E (thr_data t) bs" "count_true bs = thr_k t"
      using stacks_multi(3) [OF pos] st unfolding MultiA by metis
    then show ?thesis using marks_count [of E "thr_data t" bs] MultiA by (simp add: comp_def)
  next
    case (OrI l r)
    then obtain b qs where "sats E (if b then l else r) qs" using sats_or_i [OF assms(1)] st by blast
    then show ?thesis using IH OrI by (cases b) auto
  next
    case (OrB l r)
    then show ?thesis using IH st by (auto dest!: sats_or_b [OF assms(1)])
  next
    case (OrC l r)
    then show ?thesis using IH st by (auto dest!: sats_or_c [OF assms(1)])
  next
    case (OrD l r)
    then show ?thesis using IH st by (auto dest!: sats_or_d [OF assms(1)])
  next
    case (AndOr a b c)
    then show ?thesis using IH st by (auto dest!: sats_and_or [OF assms(1)])
  qed (use IH st in \<open>auto simp: stacks_key stacks_time stacks_hash stacks_const stacks_pass stacks_and\<close>)
qed

end

subsection \<open>Completeness of the malleable strategy\<close>

definition is_stack :: "'a witness \<Rightarrow> bool" where
  "is_stack w \<longleftrightarrow> (\<exists>ps. w = Stack ps)"

lemma is_stack_simps [simp]:
  "is_stack (Stack ps)" "\<not> is_stack Impossible" "\<not> is_stack Unavailable"
  "is_stack (combine a b) \<longleftrightarrow> is_stack a \<and> is_stack b"
  "is_stack wit_empty" "is_stack push_0" "is_stack push_1" "is_stack hash_dissatisfaction"
  by (cases a; cases b; simp add: is_stack_def push_defs)+

lemma is_stack_minimum_mall:
  "is_stack (sat_stack (minimum_mall L a b)) \<longleftrightarrow> is_stack (sat_stack a) \<or> is_stack (sat_stack b)"
  by (cases "sat_stack a"; cases "sat_stack b"; simp add: minimum_mall_def)

lemma has_sig_minimum_mall:
  "is_stack (sat_stack a) \<and> \<not> has_sig a \<or> is_stack (sat_stack b) \<and> \<not> has_sig b \<Longrightarrow> \<not> has_sig (minimum_mall L a b)"
  by (cases "sat_stack a"; cases "sat_stack b"; auto simp: minimum_mall_def)

lemma is_stack_concatenate_rev [simp]:
  "is_stack (sat_stack (concatenate_rev a b)) \<longleftrightarrow> is_stack (sat_stack a) \<and> is_stack (sat_stack b)"
  "has_sig (concatenate_rev a b) \<longleftrightarrow> has_sig a \<or> has_sig b"
  by (auto simp: concatenate_rev_def)

lemma is_stack_foldl:
  "is_stack (sat_stack (foldl concatenate_rev s ts)) \<longleftrightarrow> is_stack (sat_stack s) \<and> list_all (\<lambda>t. is_stack (sat_stack t)) ts"
  "has_sig (foldl concatenate_rev s ts) \<longleftrightarrow> has_sig s \<or> list_ex has_sig ts"
  by (induction ts arbitrary: s) auto

lemma sat_empty_facts [simp]: "is_stack (sat_stack sat_empty)" "\<not> has_sig sat_empty"
  by (simp_all add: sat_empty_def)

lemma is_stack_no_template [simp]:
  "is_stack (sat_stack (no_template w)) = is_stack w" "\<not> has_sig (no_template w)"
  by (simp_all add: no_template_def)

lemma is_stack_with_top [simp]: "is_stack (sat_stack (with_top t w)) \<longleftrightarrow> is_stack (sat_stack t) \<and> is_stack w"
  by (simp add: with_top_stack)

text \<open>The weights of the malleable threshold are differences of sizes, kept in an \<open>i64\<close>.  The marks of
  impossible entries are the ends of that range, so a size that reaches them would be misread.\<close>

definition fits_i64 :: "btc \<Rightarrow> 'pk template \<Rightarrow> bool" where
  "fits_i64 L t = (case sat_stack t of Stack ps \<Rightarrow> int (witness_size L ps) < I64_MAX | _ \<Rightarrow> True)"

lemma stack_weight_less_iff:
  assumes "is_stack (sat_stack d)" "fits_i64 L s"
  shows "stack_weight L s d < I64_MAX \<longleftrightarrow> is_stack (sat_stack s)"
  using assms by (cases "sat_stack s") (auto simp: stack_weight_def fits_i64_def is_stack_def)

lemma sort_key_prefix:
  fixes f :: "nat \<Rightarrow> int"
  assumes idx: "idx = sort_key f [0..<n]" and k: "k \<le> length (filter (\<lambda>i. f i < m) [0..<n])" and i: "i \<in> set (take k idx)"
  shows "f i < m"
proof (rule ccontr)
  assume big: "\<not> f i < m"
  obtain j where j: "j < k" "j < length idx" "idx ! j = i"
    using i by (auto simp: in_set_conv_nth)
  have sorted: "sorted (map f idx)" by (simp add: idx)
  have later: "m \<le> f (idx ! l)" if "j \<le> l" "l < length idx" for l
    using sorted_nth_mono [OF sorted that(1)] that j big by simp
  have "filter (\<lambda>i. f i < m) (drop j idx) = []"
    using later by (auto simp: filter_empty_conv in_set_conv_nth not_less)
  then have "filter (\<lambda>i. f i < m) idx = filter (\<lambda>i. f i < m) (take j idx)"
    by (metis append.right_neutral append_take_drop_id filter_append)
  then have "length (filter (\<lambda>i. f i < m) idx) \<le> j"
    using length_filter_le [of "\<lambda>i. f i < m" "take j idx"] by simp
  moreover have "length (filter (\<lambda>i. f i < m) idx) = length (filter (\<lambda>i. f i < m) [0..<n])"
    by (rule length_filter_mset) (simp add: idx)
  ultimately show False using k j(1) by simp
qed

lemma thresh_mall_complete:
  assumes len: "length ds = length ss" and ds: "list_all (\<lambda>d. is_stack (sat_stack d)) ds"
    and fits: "list_all (fits_i64 L) ss" and k: "k \<le> count_true (map (\<lambda>s. is_stack (sat_stack s)) ss)"
  shows "\<exists>t. thresh_mall L k ss ds = Some t \<and> is_stack (sat_stack t)"
proof -
  let ?n = "length ss" and ?f = "\<lambda>i. stack_weight L (ss ! i) (ds ! i)"
  let ?idx = "sort_key ?f [0..<?n]"
  let ?S = "set (take k ?idx)"
  have iff: "?f i < I64_MAX \<longleftrightarrow> is_stack (sat_stack (ss ! i))" if "i < ?n" for i
    using stack_weight_less_iff [of "ds ! i" L "ss ! i"] that len ds fits by (simp add: list_all_length)
  have "filter (\<lambda>i. ?f i < I64_MAX) [0..<?n] = filter (\<lambda>i. is_stack (sat_stack (ss ! i))) [0..<?n]"
    by (rule filter_cong) (use iff in auto)
  moreover have "count_true (map (\<lambda>s. is_stack (sat_stack s)) ss)
      = length (filter (\<lambda>i. is_stack (sat_stack (ss ! i))) [0..<?n])"
  proof -
    have "count_true (map (\<lambda>s. is_stack (sat_stack s)) (map ((!) ss) [0..<?n]))
        = length (filter (\<lambda>i. is_stack (sat_stack (ss ! i))) [0..<?n])"
      by (simp add: count_true_map comp_def)
    then show ?thesis by (simp add: map_nth)
  qed
  ultimately have kf: "k \<le> length (filter (\<lambda>i. ?f i < I64_MAX) [0..<?n])" using k by simp
  have d: "distinct ?idx" "set ?idx = {..<?n}" by (simp_all add: distinct_sort atLeast0LessThan)
  have sub: "?S \<subseteq> {..<?n}" using set_take_subset [of k ?idx] d(2) by simp
  have chosen: "is_stack (sat_stack (ss ! i))" if "i \<in> ?S" for i
    using sort_key_prefix [OF refl kf that] iff [of i] that sub by auto
  have ret: "fst (swap_entries (take k ?idx) (ds, ss)) = map (\<lambda>i. (if i \<in> ?S then ss else ds) ! i) [0..<?n]"
    using swap_entries_eq [of "take k ?idx" ds ss, unfolded len, OF distinct_take [OF d(1)] sub refl] by simp
  have "list_all (\<lambda>t. is_stack (sat_stack t)) (map (\<lambda>i. (if i \<in> ?S then ss else ds) ! i) [0..<?n])"
    using chosen ds len by (auto simp: list_all_length)
  then have "is_stack (sat_stack (foldl concatenate_rev sat_empty (fst (swap_entries (take k ?idx) (ds, ss)))))"
    unfolding ret by (simp add: is_stack_foldl)
  moreover have "\<not> ?n < k"
    using kf length_filter_le [of "\<lambda>i. ?f i < I64_MAX" "[0..<?n]"] by simp
  ultimately show ?thesis by (auto simp: thresh_mall_def Let_def split: prod.split)
qed

lemma is_stack_signature [simp]: "is_stack (signature E pk) = available E pk"
  by (simp add: signature_eq)

lemma satisfy_multi_total:
  "\<exists>t'. satisfy_multi E t = Some t' \<and> (thr_k t \<le> count_true (map (available E) (thr_data t)) \<longrightarrow> is_stack (sat_stack t'))"
  by (auto simp: satisfy_multi_def multi_collect_eq push_0_def foldl_combine_Stack count_true_map)

lemma multi_a_collect_total:
  "c < k \<Longrightarrow>
   \<exists>sigs'. multi_a_collect E k i c sigs pks = Some (min k (c + count_true (map (available E) pks)), sigs')"
proof (induction E k i c sigs pks rule: multi_a_collect.induct)
  case (1 E k i c sigs)
  then show ?case by (simp add: count_true_def)
next
  case (2 E k i c sigs pk pks)
  show ?case
  proof (cases "available E pk")
    case False
    then show ?thesis using 2 by (simp add: signature_eq count_true_def)
  next
    case True
    then show ?thesis
      using 2 by (cases "Suc c = k") (auto simp: signature_eq count_true_def)
  qed
qed

lemma satisfy_multi_a_total:
  assumes "0 < thr_k t"
  shows "\<exists>t'. satisfy_multi_a E t = Some t' \<and> (thr_k t \<le> count_true (map (available E) (thr_data t)) \<longrightarrow> is_stack (sat_stack t'))"
proof -
  have "count_true (map (available E) (rev (thr_data t))) = count_true (map (available E) (thr_data t))"
    by (simp add: rev_map [symmetric] count_true_rev)
  then show ?thesis
    using multi_a_collect_total [OF assms, of E 0 "replicate (thr_n t) [PushZero]" "rev (thr_data t)"]
    by (auto simp: satisfy_multi_a_def wit_empty_def foldl_combine_Stack)
qed

text \<open>What completeness needs of the environment and of the nodes: keys have a length, an \<open>older\<close> has a
  relative lock, and no size overflows the weights.\<close>

definition node_plain :: "'pk sat_env \<Rightarrow> 'pk miniscript \<Rightarrow> bool" where
  "node_plain E x \<longleftrightarrow>
     (case ms_node x of
        RawPkH _ \<Rightarrow> False
      | Older t \<Rightarrow> rel_lock_of (env_lib E) t \<noteq> None
      | _ \<Rightarrow> True)
     \<and> (case satisfy_helper E x of Some t \<Rightarrow> fits_i64 (env_lib E) t | None \<Rightarrow> True)"

definition complete_at :: "'pk sat_env \<Rightarrow> 'pk miniscript \<Rightarrow> bool" where
  "complete_at E ms \<longleftrightarrow>
     (\<exists>t. satisfy_helper E ms = Some t \<and> (ms_sem (provided E) ms \<longrightarrow> is_stack (sat_stack t)))
     \<and> (\<exists>t. dissatisfy_helper E ms = Some t
            \<and> (dissatisfiable (corr (ms_ty ms)) \<longrightarrow> is_stack (sat_stack t) \<and> \<not> has_sig t))"

lemma complete_atE:
  assumes "complete_at E ms"
  obtains t t' where "satisfy_helper E ms = Some t" "ms_sem (provided E) ms \<Longrightarrow> is_stack (sat_stack t)"
    "dissatisfy_helper E ms = Some t'" "dissatisfiable (corr (ms_ty ms)) \<Longrightarrow> is_stack (sat_stack t') \<and> \<not> has_sig t'"
  using assms unfolding complete_at_def by blast

lemma mapM_complete:
  assumes "\<And>x. x \<in> set xs \<Longrightarrow> \<exists>t. f x = Some t \<and> (P x \<longrightarrow> Q t)"
  shows "\<exists>ts. mapM f xs = Some ts \<and> list_all2 (\<lambda>x t. f x = Some t \<and> (P x \<longrightarrow> Q t)) xs ts"
  using assms
proof (induction xs)
  case (Cons x xs)
  from Cons.prems obtain t where t: "f x = Some t" "P x \<longrightarrow> Q t" by auto
  from Cons obtain ts where "mapM f xs = Some ts" "list_all2 (\<lambda>x t. f x = Some t \<and> (P x \<longrightarrow> Q t)) xs ts" by auto
  with t show ?case by auto
qed simp

lemma filter_all_length: "length xs \<le> length (filter P xs) \<Longrightarrow> list_all P xs"
proof (induction xs)
  case (Cons x xs)
  then show ?case using length_filter_le [of P xs] by (cases "P x") auto
qed simp

lemma complete_thresh:
  assumes kids: "\<And>x. x \<in> set xs \<Longrightarrow> complete_at E x \<and> dissatisfiable (corr (ms_ty x))"
    and fits: "\<And>x t. x \<in> set xs \<Longrightarrow> satisfy_helper E x = Some t \<Longrightarrow> fits_i64 L t"
    and env: "env_thresh E = thresh_mall L" and k: "k \<le> length xs"
  shows "complete_at E (Miniscript (Thresh (Threshold k xs)) ty ext)"
proof -
  let ?v = "ms_sem (provided E)"
  obtain ss where ss: "mapM (satisfy_helper E) xs = Some ss"
      "list_all2 (\<lambda>x t. satisfy_helper E x = Some t \<and> (?v x \<longrightarrow> is_stack (sat_stack t))) xs ss"
    using mapM_complete [of xs "satisfy_helper E" ?v "\<lambda>t. is_stack (sat_stack t)"] kids
    unfolding complete_at_def by blast
  obtain ds where ds: "mapM (dissatisfy_helper E) xs = Some ds"
      "list_all2 (\<lambda>x t. dissatisfy_helper E x = Some t \<and> (True \<longrightarrow> is_stack (sat_stack t) \<and> \<not> has_sig t)) xs ds"
    using mapM_complete [of xs "dissatisfy_helper E" "\<lambda>_. True" "\<lambda>t. is_stack (sat_stack t) \<and> \<not> has_sig t"] kids
    unfolding complete_at_def by blast
  have ds_all: "list_all (\<lambda>t. is_stack (sat_stack t)) ds" "\<not> list_ex has_sig ds"
    using ds(2) by (induction rule: list_all2_induct) auto
  have "count_true (map ?v xs) \<le> count_true (map (\<lambda>t. is_stack (sat_stack t)) ss)"
    using ss(2) by (induction rule: list_all2_induct) (auto simp: count_true_def)
  moreover have "list_all (fits_i64 L) ss"
    using ss(2) fits by (induction rule: list_all2_induct) auto
  moreover have "length ds = length ss" using ss(2) ds(2) by (simp add: list_all2_lengthD [symmetric])
  ultimately have part: "\<exists>t. thresh_mall L k ss ds = Some t \<and> (k \<le> count_true (map ?v xs) \<longrightarrow> is_stack (sat_stack t))"
    using thresh_mall_complete [of ds ss L k] ds_all(1) k list_all2_lengthD [OF ss(2)]
    by (cases "k \<le> count_true (map ?v xs)") (auto simp: thresh_mall_def Let_def split: prod.split)
  have all: "list_all (\<lambda>t. is_stack (sat_stack t)) ss" if "length xs \<le> count_true (map ?v xs)"
  proof -
    have "list_all ?v xs" by (rule filter_all_length) (use that in \<open>simp add: count_true_map\<close>)
    with ss(2) show ?thesis by (induction rule: list_all2_induct) auto
  qed
  show ?thesis
    unfolding complete_at_def
    using part all ds_all ss(1) ds(1)
    by (auto simp: satisfy_helper.simps dissatisfy_helper.simps env is_stack_foldl)
qed

lemma complete_typed:
  assumes env: "env_min E = minimum_mall L" "env_thresh E = thresh_mall L" "env_lib E = L"
    and pk_len: "\<And>b. ctx_pk_len (env_ctx E) b \<noteq> None"
  shows "typed_ms ms \<Longrightarrow> list_all (node_plain E) (pre_order ms) \<Longrightarrow> complete_at E ms"
proof (induction ms rule: ms_induct)
  case (Node n ty ext)
  have ok: "node_ok n" "ty_check n = Inr ty" using Node.prems(1) by simp_all
  have plain: "node_plain E (Miniscript n ty ext)"
    and plains: "\<And>c. c \<in> set (children n) \<Longrightarrow> list_all (node_plain E) (pre_order c)"
    using Node.prems(2) by (auto simp: list_all_iff)
  have IH: "complete_at E c" if "c \<in> set (children n)" for c
    using Node.IH [OF that] Node.prems(1) plains that by simp
  show ?case
  proof (cases n)
    case (Thresh t)
    obtain k xs where t: "t = Threshold k xs" by (cases t)
    have "fits_i64 L u" if "x \<in> set xs" "satisfy_helper E x = Some u" for x u
      using plains [of x] that Thresh t env(3)
      by (cases x) (auto simp: node_plain_def)
    moreover have "dissatisfiable (corr (ms_ty x))" if "x \<in> set xs" for x
      using ok(2) that Thresh t by (auto simp: ty_threshold_Inr thresh_bases_ok_def in_set_conv_nth)
    ultimately show ?thesis
      using complete_thresh [of xs E L k ty ext] IH ok(1) env(2) unfolding Thresh t
      by (auto simp: wf_threshold_def thr_n_def)
  next
    case (AndV l r)
    then show ?thesis using IH [of l] IH [of r] ok(2)
      by (auto simp: complete_at_def satisfy_helper.simps dissatisfy_helper.simps ty_Inr split: if_splits)
  next
    case (AndB l r)
    then show ?thesis using IH [of l] IH [of r] ok(2)
      by (auto simp: complete_at_def satisfy_helper.simps dissatisfy_helper.simps ty_Inr)
  next
    case (AndOr a b c)
    then show ?thesis using IH [of a] IH [of b] IH [of c] ok(2)
      by (auto simp: complete_at_def satisfy_helper.simps dissatisfy_helper.simps ty_Inr env is_stack_minimum_mall)
  next
    case (OrB l r)
    then show ?thesis using IH [of l] IH [of r] ok(2)
      by (auto simp: complete_at_def satisfy_helper.simps dissatisfy_helper.simps ty_Inr env is_stack_minimum_mall)
  next
    case (OrC l r)
    then show ?thesis using IH [of l] IH [of r] ok(2)
      by (auto simp: complete_at_def satisfy_helper.simps dissatisfy_helper.simps ty_Inr env is_stack_minimum_mall)
  next
    case (OrD l r)
    then show ?thesis using IH [of l] IH [of r] ok(2)
      by (auto simp: complete_at_def satisfy_helper.simps dissatisfy_helper.simps ty_Inr env is_stack_minimum_mall)
  next
    case (OrI l r)
    then show ?thesis using IH [of l] IH [of r] ok(2)
      by (auto simp: complete_at_def satisfy_helper.simps dissatisfy_helper.simps ty_Inr env is_stack_minimum_mall
          has_sig_minimum_mall)
  next
    case (Multi t)
    then show ?thesis
      using satisfy_multi_total [of E t]
      by (auto simp: complete_at_def satisfy_helper.simps dissatisfy_helper.simps comp_def)
  next
    case (MultiA t)
    have "0 < thr_k t" using ok(1) MultiA by (auto simp: wf_threshold_def)
    from satisfy_multi_a_total [OF this, of E] show ?thesis
      using MultiA by (auto simp: complete_at_def satisfy_helper.simps dissatisfy_helper.simps comp_def)
  next
    case (PkH pk)
    then show ?thesis
      using pk_len [of "is_uncompressed (env_keys E) pk"]
      by (auto simp: complete_at_def satisfy_helper.simps dissatisfy_helper.simps pubkey_of_def)
  next
    case (RawPkH h)
    then show ?thesis using plain by (simp add: node_plain_def)
  next
    case (After t)
    then show ?thesis using ok(2)
      by (auto simp: complete_at_def satisfy_helper.simps dissatisfy_helper.simps satisfy_after_def ty_leaf_defs)
  next
    case (Older t)
    then show ?thesis using ok(2) plain
      by (auto simp: complete_at_def satisfy_helper.simps dissatisfy_helper.simps satisfy_older_def ty_leaf_defs
          node_plain_def)
  next
    case (TxTemplate t)
    then show ?thesis using ok(2)
      by (auto simp: complete_at_def satisfy_helper.simps dissatisfy_helper.simps ty_leaf_defs)
  qed (use IH ok in \<open>auto simp: complete_at_def satisfy_helper.simps dissatisfy_helper.simps ty_Inr ty_leaf_defs
        sha256_preimage_def hash256_preimage_def ripemd160_preimage_def hash160_preimage_def split: if_splits\<close>)
qed

end
