(* ===== verification/SatSigned.thy ===== *)
theory SatSigned
  imports SatComplete
begin

section \<open>Signatures in witnesses\<close>

text \<open>
  What a stack of placeholders is made of.  The \<open>safe\<close> property of the malleability type keeps its
  promise: every satisfaction of a safe miniscript, under both strategies, has a signature in it, or the
  miniscript commits to the transaction with a template.  Every placeholder is one that the provider
  promised, so the satisfier that made the promise can complete it.
\<close>

fun is_sig :: "'pk placeholder \<Rightarrow> bool" where
  "is_sig (EcdsaSigPk _) = True"
| "is_sig (EcdsaSigPkHash _) = True"
| "is_sig (SchnorrSigPk _ _ _) = True"
| "is_sig (SchnorrSigPkHash _ _ _) = True"
| "is_sig _ = False"

definition commits :: "'pk sat_env \<Rightarrow> 'pk miniscript \<Rightarrow> bool" where
  "commits E ms =
     list_ex (\<lambda>x. case ms_node x of TxTemplate h \<Rightarrow> check_tx_template (env_provider E) h | _ \<Rightarrow> False) (pre_order ms)"

definition signed :: "'pk sat_env \<Rightarrow> 'pk miniscript \<Rightarrow> 'pk placeholder list \<Rightarrow> bool" where
  "signed E ms ps \<longleftrightarrow> list_ex is_sig ps \<or> commits E ms"

lemma commits_Node:
  "commits E (Miniscript n ty ext) \<longleftrightarrow>
     (case n of TxTemplate h \<Rightarrow> check_tx_template (env_provider E) h | _ \<Rightarrow> False)
     \<or> (\<exists>c \<in> set (children n). commits E c)"
  by (auto simp: commits_def list_ex_iff)

lemma signed_child: "c \<in> set (children n) \<Longrightarrow> signed E c ps \<Longrightarrow> set ps \<subseteq> set qs \<Longrightarrow> signed E (Miniscript n ty ext) qs"
  by (auto simp: signed_def commits_Node list_ex_iff)

lemma is_sig_ph: "available E pk \<Longrightarrow> is_sig (sig_ph E pk)"
  by (auto simp: signature_def available_def sig_ph_def split: sig_type.splits option.splits if_splits)

lemma pigeonhole_marks:
  assumes "length bs = length ps" "length ps < count_true bs + length (filter id ps)"
  shows "\<exists>i < length ps. bs ! i \<and> ps ! i"
  using assms
proof (induction bs ps rule: list_induct2)
  case (Cons b bs p ps)
  then show ?case
    by (cases b; cases p) (force simp: count_true_def)+
qed (simp add: count_true_def)

lemma count_true_pos: "0 < count_true bs \<Longrightarrow> True \<in> set bs"
  by (induction bs) (auto simp: count_true_def split: if_splits)

context sat_strategy
begin

lemma thresh_signed:
  assumes env: "env_thresh E = threshf" and k: "k \<le> length xs"
    and safe: "length xs - k < length (filter (\<lambda>x. safe (mall (ms_ty x))) xs)"
    and IH: "\<And>x ps. x \<in> set xs \<Longrightarrow> safe (mall (ms_ty x)) \<Longrightarrow> sats E x ps \<Longrightarrow> signed E x ps"
    and st: "sats E (Miniscript (Thresh (Threshold k xs)) ty ext) ps"
  shows "signed E (Miniscript (Thresh (Threshold k xs)) ty ext) ps"
proof -
  obtain wbs where wbs: "list_all2 (child_stack E) xs wbs" "count_true (map snd wbs) = k"
      "ps = concat (rev (map fst wbs))"
    using sats_thresh [OF env k st] by blast
  have len: "length wbs = length xs" using wbs(1) by (simp add: list_all2_lengthD)
  have "\<exists>i < length (map (\<lambda>x. safe (mall (ms_ty x))) xs). map snd wbs ! i \<and> map (\<lambda>x. safe (mall (ms_ty x))) xs ! i"
    by (rule pigeonhole_marks) (use len safe k wbs(2) in \<open>simp_all add: filter_map comp_def\<close>)
  then obtain i where i: "i < length xs" "snd (wbs ! i)" "safe (mall (ms_ty (xs ! i)))" using len by auto
  then have "sats E (xs ! i) (fst (wbs ! i))"
    using wbs(1) by (auto simp: list_all2_conv_all_nth child_stack_def)
  then have "signed E (xs ! i) (fst (wbs ! i))" using IH [of "xs ! i"] i by simp
  moreover have "set (fst (wbs ! i)) \<subseteq> set ps" using i(1) len wbs(3) by fastforce
  ultimately show ?thesis using i(1) by (intro signed_child [of "xs ! i"]) auto
qed

lemma safe_signed:
  assumes env: "env_min E = minf" "env_thresh E = threshf"
  shows "typed_ms ms \<Longrightarrow> safe (mall (ms_ty ms)) \<Longrightarrow> sats E ms ps \<Longrightarrow> signed E ms ps"
proof (induction ms arbitrary: ps rule: ms_induct)
  case (Node n ty ext)
  have ok: "node_ok n" "ty_check n = Inr ty" using Node.prems(1) by simp_all
  define G where "G = signed E (Miniscript n ty ext)"
  have IH: "sats E c rs \<Longrightarrow> set rs \<subseteq> set qs \<Longrightarrow> G qs"
    if "c \<in> set (children n)" "safe (mall (ms_ty c))" for c rs qs
    using Node.IH [OF that(1) _ that(2)] Node.prems(1) that(1) signed_child [OF that(1), of E rs qs ty ext]
    unfolding G_def by simp
  have G: ?case if "G ps" using that by (simp add: G_def)
  note st = Node.prems(3)
  have safe: "safe (mall ty)" using Node.prems(2) by simp
  show ?case
  proof (cases n)
    case (Thresh t)
    obtain k xs where t: "t = Threshold k xs" by (cases t)
    have "length xs - k < length (filter (\<lambda>x. safe (mall (ms_ty x))) xs)"
      using ok(2) safe Thresh t by (auto simp: ty_threshold_Inr mall_threshold_def Let_def filter_map comp_def)
    moreover have "k \<le> length xs" using ok(1) Thresh t by (simp add: wf_threshold_def thr_n_def)
    ultimately show ?thesis
      using thresh_signed [OF env(2), of k xs ty ext ps] Node st unfolding Thresh t by auto
  next
    case (Multi t)
    then obtain pks where pks: "length pks = thr_k t" "\<forall>pk \<in> set pks. available E pk" "ps = PushZero # map (sig_ph E) pks"
      using stacks_multi(1) st by blast
    have "pks \<noteq> []" using pks(1) ok Multi by (auto simp: wf_threshold_def)
    with pks show ?thesis by (cases pks) (auto simp: signed_def is_sig_ph)
  next
    case (MultiA t)
    have pos: "0 < thr_k t" using ok MultiA by (auto simp: wf_threshold_def)
    obtain bs where bs: "marks_ok E (thr_data t) bs" "count_true bs = thr_k t" "ps = rev (map2 (slot E) (thr_data t) bs)"
      using stacks_multi(3) [OF pos] st unfolding MultiA by metis
    have "True \<in> set bs" by (rule count_true_pos) (simp add: bs(2) pos)
    then obtain i where "i < length bs" "bs ! i" by (auto simp: in_set_conv_nth)
    with bs(1,3) have "is_sig (map2 (slot E) (thr_data t) bs ! i)" "i < length (map2 (slot E) (thr_data t) bs)"
      by (auto simp: marks_ok_def list_all2_conv_all_nth slot_def is_sig_ph)
    then have "list_ex is_sig (map2 (slot E) (thr_data t) bs)" using nth_mem unfolding list_ex_iff by blast
    with bs(3) show ?thesis by (simp add: signed_def)
  next
    case (RawPkH h)
    with st show ?thesis
      by (auto simp: signed_def stacks_raw_pkh pkh_signature_def bind_eq_Some_conv split: sig_type.splits option.splits)
  next
    case (AndV l r)
    then have "G ps" using st safe ok(2) IH [of l] IH [of r]
      by (auto simp: stacks_and ty_Inr mall_and_v_def)
    then show ?thesis by (rule G)
  next
    case (AndB l r)
    then have "G ps" using st safe ok(2) IH [of l] IH [of r]
      by (auto simp: stacks_and ty_Inr mall_and_b_def)
    then show ?thesis by (rule G)
  next
    case (AndOr a b c)
    then have "G ps" using st safe ok(2) IH [of a] IH [of b] IH [of c]
      by (auto simp: ty_Inr mall_and_or_def dest!: sats_and_or [OF env(1)])
    then show ?thesis by (rule G)
  next
    case (OrB l r)
    then have "G ps" using st safe ok(2) IH [of l] IH [of r]
      by (auto simp: ty_Inr mall_or_b_def dest!: sats_or_b [OF env(1)])
    then show ?thesis by (rule G)
  next
    case (OrC l r)
    then have "G ps" using st safe ok(2) IH [of l] IH [of r]
      by (auto simp: ty_Inr mall_or_c_def dest!: sats_or_c [OF env(1)])
    then show ?thesis by (rule G)
  next
    case (OrD l r)
    then have "G ps" using st safe ok(2) IH [of l] IH [of r]
      by (auto simp: ty_Inr mall_or_d_def dest!: sats_or_d [OF env(1)])
    then show ?thesis by (rule G)
  next
    case (OrI l r)
    obtain b qs where b: "sats E (if b then l else r) qs" "ps = qs @ [if b then PushOne else PushZero]"
      using sats_or_i [OF env(1)] st unfolding OrI by blast
    have "safe (mall (ms_ty l))" "safe (mall (ms_ty r))"
      using safe ok(2) OrI by (auto simp: ty_Inr mall_or_i_def)
    then have "G ps" using b IH [of "if b then l else r" qs ps] OrI by (auto simp: subset_insertI)
    then show ?thesis by (rule G)
  next
    case (TxTemplate h)
    then show ?thesis using st by (simp add: signed_def commits_Node stacks_time)
  next
    case (DupIf x)
    then have "G ps" using st safe ok(2) IH [of x]
      by (auto simp: stacks_pass ty_Inr mall_cast_dupif_def subset_insertI)
    then show ?thesis by (rule G)
  qed (use st safe ok(2) G IH in \<open>auto simp: stacks_key stacks_time stacks_hash stacks_const stacks_pass ty_Inr ty_leaf_defs
        mall_TRUE_def mall_time_def mall_hash_def mall_cast_alt_def mall_cast_swap_def mall_cast_check_def
        mall_cast_verify_def mall_cast_nonzero_def mall_cast_zeronotequal_def is_sig_ph signed_def [of _ _ "[_]"]
        signed_def [of _ _ "_ # _"] G_def [symmetric] split: if_splits\<close>)
qed

end

subsection \<open>Every placeholder can be completed\<close>

definition owned :: "btc \<Rightarrow> 'pk key_ops \<Rightarrow> 'pk satisfier \<Rightarrow> 'pk placeholder \<Rightarrow> bool" where
  "owned L K S p \<longleftrightarrow> satisfy_self L K S p \<noteq> None"

lemma owned_simps [simp]:
  "owned L K S (Pubkey pk n)" "owned L K S PushOne" "owned L K S PushZero" "owned L K S HashDissatisfaction"
  by (simp_all add: owned_def)

lemma owned_sig: "env_provider E = provider_of S \<Longrightarrow> available E pk \<Longrightarrow> owned L K S (sig_ph E pk)"
  by (auto simp: owned_def available_def signature_def sig_ph_def provider_of_def split: sig_type.splits option.splits if_splits)

lemma owned_preimage:
  assumes "env_provider E = provider_of S"
  shows "provider_lookup_sha256 (env_provider E) h \<Longrightarrow> owned L K S (Sha256Preimage h)"
    "provider_lookup_hash256 (env_provider E) h \<Longrightarrow> owned L K S (Hash256Preimage h)"
    "provider_lookup_ripemd160 (env_provider E) h \<Longrightarrow> owned L K S (Ripemd160Preimage h)"
    "provider_lookup_hash160 (env_provider E) h \<Longrightarrow> owned L K S (Hash160Preimage h)"
  by (simp_all add: assms provider_of_def owned_def)

context sat_strategy
begin

lemma stacks_owned:
  assumes env: "env_min E = minf" "env_thresh E = threshf" and prov: "env_provider E = provider_of S"
  shows "typed_ms ms \<Longrightarrow> \<not> contains_raw_pkh ms \<Longrightarrow> sats E ms ps \<or> dissats E ms ps \<Longrightarrow> list_all (owned L K S) ps"
proof (induction ms arbitrary: ps rule: ms_induct)
  case (Node n ty ext)
  have ok: "node_ok n" using Node.prems(1) by simp
  have IH: "list_all (owned L K S) qs" if "c \<in> set (children n)" "sats E c qs \<or> dissats E c qs" for c qs
    using Node that by (auto simp: contains_raw_pkh_Node)
  note st = Node.prems(3)
  note own = owned_sig [OF prov, of _ L K] owned_preimage [OF prov, of _ L K]
  show ?case
  proof (cases n)
    case (RawPkH h)
    then show ?thesis using Node.prems(2) by (simp add: contains_raw_pkh_Node)
  next
    case (Thresh t)
    obtain k xs where t: "t = Threshold k xs" by (cases t)
    have k: "k \<le> length xs" using ok Thresh t by (simp add: wf_threshold_def thr_n_def)
    obtain wbs where wbs: "list_all2 (child_stack E) xs wbs" "ps = concat (rev (map fst wbs))"
      using sats_thresh [OF env(2) k] dissats_thresh st unfolding Thresh t by metis
    have "list_all (owned L K S) (fst (wbs ! i))" if "i < length wbs" for i
      using wbs(1) IH [of "xs ! i" "fst (wbs ! i)"] that Thresh t
      by (auto simp: list_all2_conv_all_nth child_stack_def split: if_splits)
    then have "list_all (owned L K S) w" if "w \<in> set (map fst wbs)" for w
      using that unfolding in_set_conv_nth by auto
    then show ?thesis using wbs(2) by (auto simp: list_all_iff)
  next
    case (Multi t)
    from st show ?thesis
    proof
      assume "sats E (Miniscript n ty ext) ps"
      then obtain pks where "\<forall>pk \<in> set pks. available E pk" "ps = PushZero # map (sig_ph E) pks"
        using stacks_multi(1) unfolding Multi by metis
      then show ?thesis by (auto simp: list_all_iff own)
    qed (auto simp: Multi stacks_multi list_all_iff)
  next
    case (MultiA t)
    have pos: "0 < thr_k t" using ok MultiA by (auto simp: wf_threshold_def)
    from st show ?thesis
    proof
      assume "sats E (Miniscript n ty ext) ps"
      then obtain bs where bs: "marks_ok E (thr_data t) bs" "ps = rev (map2 (slot E) (thr_data t) bs)"
        using stacks_multi(3) [OF pos] unfolding MultiA by metis
      have "owned L K S (slot E (thr_data t ! i) (bs ! i))" if "i < length bs" for i
        using bs(1) that by (auto simp: marks_ok_def list_all2_conv_all_nth slot_def own)
      moreover have "length bs = length (thr_data t)" using bs(1) by (simp add: marks_ok_def list_all2_lengthD)
      ultimately have "list_all (owned L K S) (map2 (slot E) (thr_data t) bs)" by (simp add: list_all_length)
      with bs(2) show ?thesis by simp
    qed (auto simp: MultiA stacks_multi list_all_iff)
  next
    case (OrI l r)
    have "(\<exists>b qs. sats E (if b then l else r) qs \<and> ps = qs @ [if b then PushOne else PushZero])
        \<or> (\<exists>b qs. dissats E (if b then l else r) qs \<and> ps = qs @ [if b then PushOne else PushZero])"
      using st sats_or_i [OF env(1)] stacks_or_dissat(2) unfolding OrI by metis
    then obtain b qs where b: "sats E (if b then l else r) qs \<or> dissats E (if b then l else r) qs"
        "ps = qs @ [if b then PushOne else PushZero]" by blast
    have "list_all (owned L K S) qs" by (rule IH [OF _ b(1)]) (simp add: OrI)
    then show ?thesis using b(2) by simp
  next
    case (OrB l r)
    then show ?thesis using IH [of l] IH [of r] st by (auto simp: stacks_and dest!: sats_or_b [OF env(1)])
  next
    case (OrC l r)
    then show ?thesis using IH [of l] IH [of r] st by (auto simp: stacks_or_dissat dest!: sats_or_c [OF env(1)])
  next
    case (OrD l r)
    then show ?thesis using IH [of l] IH [of r] st by (auto simp: stacks_and dest!: sats_or_d [OF env(1)])
  next
    case (AndOr a b c)
    then show ?thesis using IH [of a] IH [of b] IH [of c] st by (auto simp: stacks_and dest!: sats_and_or [OF env(1)])
  next
    case (AndV l r)
    then show ?thesis using IH [of l] IH [of r] st by (auto simp: stacks_and)
  next
    case (AndB l r)
    then show ?thesis using IH [of l] IH [of r] st by (auto simp: stacks_and)
  qed (use IH st in \<open>auto simp: stacks_key stacks_time stacks_hash stacks_const stacks_pass own\<close>)
qed

end

lemma mapM_owned: "list_all (owned L K S) ps \<Longrightarrow> \<exists>items. mapM (satisfy_self L K S) ps = Some items"
  by (induction ps) (auto simp: owned_def)

lemma try_completing_owned:
  assumes "\<And>ps. sat_stack t = Stack ps \<Longrightarrow> list_all (owned L K S) ps"
  shows "\<exists>s. try_completing L K S t = Some s \<and> is_stack (sat_stack s) = is_stack (sat_stack t)"
proof (cases "sat_stack t")
  case (Stack ps)
  then obtain items where "mapM (satisfy_self L K S) ps = Some items" using mapM_owned assms by blast
  with Stack show ?thesis by (simp add: try_completing_def)
qed (simp_all add: try_completing_def)

lemma witness_result_stack: "(\<exists>wit. witness_result s = Inr wit) \<longleftrightarrow> is_stack (sat_stack s)"
  by (cases "sat_stack s") (simp_all add: witness_result_def)

text \<open>The environment of \<open>satisfy_malleable\<close>, and the main result on it.\<close>

definition mall_env :: "btc \<Rightarrow> 'pk key_ops \<Rightarrow> script_context \<Rightarrow> 'pk satisfier \<Rightarrow> 'pk miniscript \<Rightarrow> builder \<Rightarrow> 'pk sat_env" where
  "mall_env L K ctx S ms script =
     sat_env_mall L K ctx (provider_of S) (safe (mall (ms_ty ms))) (tap_leaf_hash L script)"

lemma mall_env_simps [simp]:
  "env_min (mall_env L K ctx S ms script) = minimum_mall L" "env_thresh (mall_env L K ctx S ms script) = thresh_mall L"
  "env_lib (mall_env L K ctx S ms script) = L" "env_ctx (mall_env L K ctx S ms script) = ctx"
  "env_provider (mall_env L K ctx S ms script) = provider_of S"
  by (simp_all add: mall_env_def sat_env_mall_def)

lemma node_plain_no_raw: "list_all (node_plain E) (pre_order ms) \<Longrightarrow> \<not> contains_raw_pkh ms"
proof (induction ms rule: ms_induct)
  case (Node n ty ext)
  then have "node_plain E (Miniscript n ty ext)" "\<And>c. c \<in> set (children n) \<Longrightarrow> list_all (node_plain E) (pre_order c)"
    by (auto simp: list_all_iff)
  moreover have "\<not> is_raw_pkh n" using calculation(1) by (auto simp: node_plain_def is_raw_pkh_iff)
  ultimately show ?case using Node.IH by (auto simp: contains_raw_pkh_Node)
qed

lemma malleable_decides:
  assumes "typed_ms ms" "ctx \<noteq> NoChecks" "encode L K ctx [] ms = Some script"
    and plain: "list_all (node_plain (mall_env L K ctx S ms script)) (pre_order ms)"
  shows "\<exists>r. satisfy_malleable L K ctx S ms = Some r
    \<and> ((\<exists>wit. r = Inr wit) \<longleftrightarrow> ms_sem (provided (mall_env L K ctx S ms script)) ms)"
proof -
  let ?E = "mall_env L K ctx S ms script"
  have env: "env_min ?E = minimum_mall L" "env_thresh ?E = thresh_mall L" "env_provider ?E = provider_of S" by simp_all
  have "ctx_pk_len (env_ctx ?E) b \<noteq> None" for b using assms(2) by (cases ctx) simp_all
  then have "complete_at ?E ms" by (intro complete_typed [OF _ _ _ _ assms(1) plain]) simp_all
  then obtain t where t: "satisfy_helper ?E ms = Some t"
      and complete: "ms_sem (provided ?E) ms \<longrightarrow> is_stack (sat_stack t)"
    by (auto simp: complete_at_def)
  have raw: "\<not> contains_raw_pkh ms" using plain by (rule node_plain_no_raw)
  have own: "list_all (owned L K S) ps" if "sat_stack t = Stack ps" for ps
    by (rule malleable.stacks_owned [OF env assms(1) raw]) (use t that in \<open>simp add: givesI\<close>)
  have "ms_sem (provided ?E) ms" if st: "is_stack (sat_stack t)"
  proof -
    from st obtain ps where "sat_stack t = Stack ps" by (auto simp: is_stack_def)
    then show ?thesis by (intro malleable.sats_sem [OF env(1,2) assms(1) raw, of ps]) (use t in \<open>simp add: givesI\<close>)
  qed
  with complete have "is_stack (sat_stack t) \<longleftrightarrow> ms_sem (provided ?E) ms" by blast
  moreover obtain s where "try_completing L K S t = Some s" "is_stack (sat_stack s) = is_stack (sat_stack t)"
    using try_completing_owned [of t L K S] own by blast
  ultimately show ?thesis
    using t assms(3) by (auto simp: satisfy_malleable_def build_template_mall_def mall_env_def witness_result_stack)
qed

end
