(* ===== verification/InterpSafe.thy ===== *)
theory InterpSafe
  imports InterpRuns
begin

section \<open>Every constraint the interpreter yields holds\<close>

text \<open>
  The constraints that the iterator yields are what a client relies on: each one is backed by the
  transaction (a signature that the closure verified, a preimage with the right hash, a locktime the
  transaction meets).  \<open>constraint_holds\<close> says so for one constraint; it is an invariant of the
  runs, whatever the script and the stack.
\<close>

definition key_of_pair :: "key_sig_pair \<Rightarrow> bitcoin_key" where
  "key_of_pair ks = (case ks of EcdsaPair pk _ \<Rightarrow> Fullkey pk | SchnorrPair x _ \<Rightarrow> XOnlyPublicKey x)"

fun hash_lock_holds :: "btc \<Rightarrow> hash_lock_type \<Rightarrow> bytes \<Rightarrow> bool" where
  "hash_lock_holds L (LockSha256 h) p = (sha256_hash L p = h)"
| "hash_lock_holds L (LockHash256 h) p = (hash256_hash L p = h)"
| "hash_lock_holds L (LockHash160 h) p = (hash160_hash L p = h)"
| "hash_lock_holds L (LockRipemd160 h) p = (ripemd160_hash L p = h)"

fun constraint_holds :: "interp_env \<Rightarrow> satisfied_constraint \<Rightarrow> bool" where
  "constraint_holds I (CTxTemplate h) = (ie_tx_template I = Some h)"
| "constraint_holds I (CPublicKey ks) = ie_verify_sig I ks"
| "constraint_holds I (CPublicKeyHash h ks) =
     (ie_verify_sig I ks
      \<and> (\<exists>kb. hash160_hash (ie_lib I) kb = h
           \<and> bitcoin_key_from_slice (ie_lib I) kb (ie_sig_type I) = Some (key_of_pair ks)))"
| "constraint_holds I (CHashLock h p) = (length p = 32 \<and> hash_lock_holds (ie_lib I) h p)"
| "constraint_holds I (CRelativeTimelock n) = older_met I n"
| "constraint_holds I (CAbsoluteTimelock n) = after_met I n"

lemma verify_sersig_Inr:
  "verify_sersig L vs key s = Inr ks \<Longrightarrow> vs ks \<and> key_of_pair ks = key"
  by (auto simp: verify_sersig_def key_of_pair_def split: bitcoin_key.splits option.splits if_splits)

text \<open>The leaves.\<close>

lemma evaluate_pk_holds:
  "evaluate_pk (ie_lib I) (ie_verify_sig I) pk st = (st', Some (Inr c)) \<Longrightarrow> constraint_holds I c"
  by (cases st; cases "hd st") (auto split: sum.splits dest: verify_sersig_Inr)

lemma evaluate_multi_holds:
  "evaluate_multi (ie_lib I) (ie_verify_sig I) pk st = (st', Some (Inr c)) \<Longrightarrow> constraint_holds I c"
  by (cases st; cases "hd st") (auto split: sum.splits dest: verify_sersig_Inr)

lemma evaluate_pkh_holds:
  "evaluate_pkh (ie_lib I) (ie_verify_sig I) h (ie_sig_type I) st = (st', Some (Inr c)) \<Longrightarrow> constraint_holds I c"
  by (auto simp: evaluate_pkh_def split: list.splits element.splits if_splits option.splits sum.splits
      dest!: verify_sersig_Inr)

lemma evaluate_time_holds:
  "evaluate_after n (ie_lock_time I) st = (st', Some (Inr c)) \<Longrightarrow> constraint_holds I c"
  "evaluate_older (ie_lib I) r (ie_sequence I) st = (st', Some (Inr c)) \<Longrightarrow> constraint_holds I c"
  by (auto simp: evaluate_after_def evaluate_older_def after_met_def older_met_def
      split: if_splits option.splits abs_lock.splits)

lemma evaluate_hash_holds:
  "evaluate_sha256 (ie_lib I) h st = (st', Some (Inr c)) \<Longrightarrow> constraint_holds I c"
  "evaluate_hash256 (ie_lib I) h st = (st', Some (Inr c)) \<Longrightarrow> constraint_holds I c"
  "evaluate_hash160 (ie_lib I) h st = (st', Some (Inr c)) \<Longrightarrow> constraint_holds I c"
  "evaluate_ripemd160 (ie_lib I) h st = (st', Some (Inr c)) \<Longrightarrow> constraint_holds I c"
  by (auto simp: evaluate_sha256_def evaluate_hash256_def evaluate_hash160_def evaluate_ripemd160_def
      split: list.splits element.splits if_splits)

text \<open>The outcomes of one step.\<close>

fun yield_holds :: "interp_env \<Rightarrow> outcome \<Rightarrow> bool" where
  "yield_holds I (Yield c _) = constraint_holds I c"
| "yield_holds I _ = True"

lemma yield_holds_simps [simp]: "yield_holds I (cont s ns st)" "yield_holds I (fail s e st)"
  by (simp_all add: cont_def fail_def)

lemma yield_holds_leaf:
  "(\<And>st' c. r = (st', Some (Inr c)) \<Longrightarrow> constraint_holds I c) \<Longrightarrow> yield_holds I (leaf_result s r)"
  by (cases r) (auto simp: leaf_result_def split: option.splits sum.splits)

lemma yield_holds_pop_bool:
  "(\<And>st. yield_holds I (f st)) \<Longrightarrow> (\<And>st. yield_holds I (g st)) \<Longrightarrow> yield_holds I (pop_bool s f g)"
  by (auto simp: pop_bool_def split: list.splits element.splits)

lemma yield_holds_multi:
  "yield_holds I (multi_check I node t i j s)"
  "yield_holds I (step_multi I node t i j s)"
  "yield_holds I (step_multi_a I node t i j s)"
proof -
  show mc: "yield_holds I (multi_check I node t i j s)"
    by (auto simp: multi_check_def dest: evaluate_multi_holds split: prod.splits option.splits sum.splits)
  show "yield_holds I (step_multi I node t i j s)"
    using mc by (auto simp: step_multi_def Let_def split: list.splits element.splits)
  show "yield_holds I (step_multi_a I node t i j s)"
    by (auto simp: step_multi_a_def Let_def dest: evaluate_pk_holds
        split: list.splits prod.splits option.splits sum.splits)
qed

lemma yield_holds_thresh: "yield_holds I (step_thresh node t i j s)"
  by (auto simp: step_thresh_def intro!: yield_holds_pop_bool split: list.splits)

lemma yield_holds_step_node: "yield_holds I (step_node I node i j s)"
  unfolding step_node_def Let_def
  by (cases "ms_node node")
    (auto simp: yield_holds_multi yield_holds_thresh intro!: yield_holds_pop_bool yield_holds_leaf
      dest: evaluate_pk_holds evaluate_pkh_holds evaluate_time_holds evaluate_hash_holds
      split: list.splits element.splits option.splits)

lemma step_yield_holds: "step I s = Some (Yield c s') \<Longrightarrow> constraint_holds I c"
  using yield_holds_step_node [of I "ns_node (hd (ist_state s))" "n_evaluated (hd (ist_state s))"
      "n_satisfied (hd (ist_state s))" "s\<lparr>ist_state := tl (ist_state s)\<rparr>"]
  by (auto simp: step_def split: list.splits)

subsection \<open>Whole runs\<close>

lemma final_check_holds: "final_check I s = (Some (Inr c), s') \<Longrightarrow> constraint_holds I c"
  by (auto simp: final_check_def dest: verify_sersig_Inr split: option.splits list.splits element.splits
      sum.splits if_splits)

lemma iter_next_holds: "iter_next I s = Some (Some (Inr c), s') \<Longrightarrow> constraint_holds I c"
proof (induction I s rule: iter_next.induct)
  case (1 I s)
  show ?case
  proof (cases "step I s")
    case None
    with 1(2) show ?thesis by (simp add: iter_next.simps [of I s] final_check_holds)
  next
    case (Some out)
    with 1 show ?thesis
      by (cases out) (auto simp: iter_next.simps [of I s] step_yield_holds)
  qed
qed

lemma collect_iter_holds:
  "collect_iter I s = Some (cs, e) \<Longrightarrow> list_all (constraint_holds I) cs"
proof (induction I s arbitrary: cs e rule: collect_iter.induct)
  case (1 I s)
  show ?case
  proof (cases "iter_method_next I s")
    case None
    with 1(2) show ?thesis by (simp add: collect_iter.simps [of I s])
  next
    case (Some r)
    then consider s' where "r = (None, s')" | e' s' where "r = (Some (Inl e'), s')"
      | c s' where "r = (Some (Inr c), s')"
      by (metis old.sum.exhaust option.exhaust prod.exhaust)
    then show ?thesis
    proof cases
      case (3 c s')
      have "iter_next I s = Some (Some (Inr c), s')"
        using Some 3 by (auto simp: iter_method_next_def split: if_splits option.splits sum.splits)
      then have "constraint_holds I c" by (rule iter_next_holds)
      moreover obtain cs' where "collect_iter I s' = Some (cs', e)" "cs = c # cs'"
        using 1(2) Some 3 by (auto simp: collect_iter.simps [of I s] split: option.splits)
      ultimately show ?thesis using 1(1) Some 3 by simp
    qed (use 1(2) Some in \<open>auto simp: collect_iter.simps [of I s]\<close>)
  qed
qed

end
