(* ===== verification/SatProps.thy ===== *)
theory SatProps
  imports Examples SatSigned InterpSafe
begin

section \<open>Properties of the satisfier against the policy\<close>

text \<open>
  The malleable satisfier finds a witness exactly when what the caller provides meets the policy of the
  miniscript; a safe miniscript is never satisfied without a signature; and a policy that the caller
  can meet leads to a witness that the interpreter accepts.
\<close>

text \<open>C5.  The malleable satisfier is complete: on a well-typed miniscript whose script encodes and has no
  raw key hash, it returns without a panic, and it returns a witness exactly when the keys, the preimages
  and the locks that the caller provides satisfy the policy of the miniscript.\<close>

theorem malleable_satisfier_complete:
  assumes "typed_ms ms" "ctx \<noteq> NoChecks" "encode L K ctx [] ms = Some script"
    and "list_all (node_plain (mall_env L K ctx S ms script)) (pre_order ms)"
  shows "\<exists>r. satisfy_malleable L K ctx S ms = Some r
    \<and> ((\<exists>wit. r = Inr wit) \<longleftrightarrow> ms_sem (provided (mall_env L K ctx S ms script)) ms)"
  using assms by (rule malleable_decides)

text \<open>The example \<open>ex_or\<close>, with a caller that has the signature of key 2 and an old enough output.\<close>

lemma mk_ms_shape: "\<exists>ty ext. mk_ms ctx n = Miniscript n ty ext"
  by (cases "mk_ms ctx n") (auto simp: mk_ms_def from_ast_def Let_def split: sum.splits if_splits)

definition ex_or_script :: builder where
  "ex_or_script = the (encode ref_btc ref_keys Segwitv0 [] ex_or)"

lemma ex_or_encode: "encode ref_btc ref_keys Segwitv0 [] ex_or = Some ex_or_script"
proof -
  obtain b where "encode ref_btc ref_keys Segwitv0 [] ex_or = Some b"
    using built_encodes [OF ref_builder_laws ref_key_laws _ ex_or_built] unfolding encodes_def by blast
  then show ?thesis by (simp add: ex_or_script_def)
qed

definition ex_mall_env :: "nat sat_env" where
  "ex_mall_env = mall_env ref_btc ref_keys Segwitv0 (ref_satisfier [2]) ex_or ex_or_script"

lemma ex_mall_env_facts:
  "env_lib ex_mall_env = ref_btc" "env_ctx ex_mall_env = Segwitv0" "env_keys ex_mall_env = ref_keys"
  "env_min ex_mall_env = minimum_mall ref_btc"
  "check_older (env_provider ex_mall_env) (RelLock 10)"
  "signature ex_mall_env k = (if k = 2 then Stack [EcdsaSigPk k] else Impossible)"
  by (simp_all add: ex_mall_env_def mall_env_def sat_env_mall_def signature_def provider_of_def ref_satisfier_def
      ref_btc_def)

lemma ref_btc_facts:
  "rel_lock_of ref_btc (RelLockTime 10) = Some (RelLock 10)"
  "n < 253 \<Longrightarrow> varint_size ref_btc n = 1"
  by (simp_all add: ref_btc_def rel_lock_of_def)

lemma ex_or_plain: "list_all (node_plain ex_mall_env) (pre_order ex_or)"
proof -
  obtain t1 e1 t2 e2 t3 e3 t4 e4 t5 e5 t6 e6 t7 e7 t8 e8 where or: "ex_or =
      Miniscript (OrD (Miniscript (Check (Miniscript (PkK 1) t1 e1)) t2 e2)
        (Miniscript (AndV (Miniscript (Verify (Miniscript (Check (Miniscript (PkH 2) t3 e3)) t4 e4)) t5 e5)
           (Miniscript (Older (RelLockTime 10)) t6 e6)) t7 e7)) t8 e8"
    unfolding ex_or_def ex_pk_def ex_and_def using mk_ms_shape by metis
  show ?thesis
    unfolding or
    by (simp add: node_plain_def satisfy_helper.simps dissatisfy_helper.simps satisfy_older_def pubkey_of_def
        fits_i64_def witness_size_def I64_MAX_def minimum_mall_def push_defs sat_simps ex_mall_env_facts
        ref_btc_facts)
qed

theorem malleable_satisfier_complete_witness:
  "\<exists>r. satisfy_malleable ref_btc ref_keys Segwitv0 (ref_satisfier [2]) ex_or = Some r
    \<and> ((\<exists>wit. r = Inr wit) \<longleftrightarrow> ms_sem (provided ex_mall_env) ex_or)"
  unfolding ex_mall_env_def
  by (rule malleable_satisfier_complete [OF ex_or_typed _ ex_or_encode ex_or_plain [unfolded ex_mall_env_def]]) simp

text \<open>C6.  The \<open>safe\<close> property of the type keeps its promise: under both strategies a satisfaction of a
  safe miniscript has a signature in it, or the miniscript commits to the transaction with a template
  that the caller says is met.\<close>

theorem safe_needs_signature:
  assumes "typed_ms ms" "safe (mall (ms_ty ms))"
    and "E = sat_env_nonmall L K ctx A r lh \<or> E = sat_env_mall L K ctx A r lh"
    and "satisfy_helper E ms = Some t" "sat_stack t = Stack ps"
  shows "list_ex is_sig ps \<or> commits E ms"
proof -
  have "signed E ms ps"
    using assms(3)
  proof
    assume "E = sat_env_nonmall L K ctx A r lh"
    then show ?thesis
      by (intro nonmall.safe_signed [OF _ _ assms(1,2) givesI [OF assms(4,5)]]) (auto simp: sat_env_nonmall_def)
  next
    assume "E = sat_env_mall L K ctx A r lh"
    then show ?thesis
      by (intro malleable.safe_signed [OF _ _ assms(1,2) givesI [OF assms(4,5)]]) (auto simp: sat_env_mall_def)
  qed
  then show ?thesis by (simp add: signed_def)
qed

definition ex_or_env :: "nat sat_env" where
  "ex_or_env = sat_env_nonmall ref_btc ref_keys Segwitv0 (provider_of (ref_satisfier [2])) True (replicate 32 7)"

lemma ex_or_template:
  "map_option sat_stack (satisfy_helper ex_or_env ex_or) = Some (Stack [EcdsaSigPk 2, Pubkey 2 34, PushZero])"
  by code_simp

lemma ex_or_safe: "safe (mall (ms_ty ex_or))"
  by code_simp

theorem safe_needs_signature_witness:
  "list_ex is_sig [EcdsaSigPk 2, Pubkey 2 34, PushZero :: nat placeholder] \<or> commits ex_or_env ex_or"
proof -
  obtain t where t: "satisfy_helper ex_or_env ex_or = Some t" "sat_stack t = Stack [EcdsaSigPk 2, Pubkey 2 34, PushZero]"
    using ex_or_template by auto
  show ?thesis by (rule safe_needs_signature [OF ex_or_typed ex_or_safe disjI1 [OF ex_or_env_def] t])
qed

text \<open>C4.  From a policy to a spend.  When \<open>lift\<close> gives the policy \<open>p\<close> and what an honest caller
  provides satisfies \<open>p\<close>, then \<open>satisfy_malleable\<close> returns a witness, and the interpreter runs on it to
  the end without an error, reporting only constraints that hold.\<close>

theorem policy_leads_to_spend:
  fixes P ms script
  defines "E \<equiv> mall_env (sp_lib P) (sp_keys P) (sp_ctx P) (sp_sat P) ms script"
  assumes "typed_ms ms" "base (corr (ms_ty ms)) = BaseB" "sp_ctx P \<noteq> NoChecks"
    and "encode (sp_lib P) (sp_keys P) (sp_ctx P) [] ms = Some script"
    and "list_all (node_plain E) (pre_order ms)" "honest P ms" "leaf_hash_ok P ms"
    and "lift (sp_ctx P) (sp_keys P) ms = Some (Inr p)" "sem (provided E) p"
  shows "\<exists>wit cs. satisfy_malleable (sp_lib P) (sp_keys P) (sp_ctx P) (sp_sat P) ms = Some (Inr wit)
    \<and> run_witness P ms wit = Some (cs, None) \<and> list_all (constraint_holds (sp_interp P)) cs"
proof -
  have "lift_check (sp_ctx P) (sp_keys P) ms = Inr ()"
    using assms(9) by (cases "lift_check (sp_ctx P) (sp_keys P) ms") (simp_all add: lift_def)
  then have "ms_sem (provided E) ms"
    using lift_correct node_plain_no_raw [OF assms(6)] assms(9,10) by fastforce
  then obtain wit where wit: "satisfy_malleable (sp_lib P) (sp_keys P) (sp_ctx P) (sp_sat P) ms = Some (Inr wit)"
    using malleable_decides [OF assms(2,4,5)] assms(6) unfolding E_def by fastforce
  then show ?thesis
    using satisfy_malleable_run [OF assms(2,3,7,8) wit] collect_iter_holds by (fastforce simp: run_witness_def)
qed

definition ex_or_policy :: "nat policy" where
  "ex_or_policy = SThresh (Threshold 1 [SKey 1, SThresh (Threshold 2 [SKey 2, SOlder (RelLockTime 10)])])"

lemma ex_or_lift: "lift Segwitv0 ref_keys ex_or = Some (Inr ex_or_policy)"
  by code_simp

lemma ex_or_provided: "sem (provided ex_mall_env) ex_or_policy"
  by (simp add: ex_or_policy_def available_def ex_mall_env_facts ref_btc_facts)

lemma ref_spend_parts:
  "sp_lib (ref_spend ctx ks) = ref_btc" "sp_keys (ref_spend ctx ks) = ref_keys"
  "sp_ctx (ref_spend ctx ks) = ctx" "sp_sat (ref_spend ctx ks) = ref_satisfier ks"
  by (simp_all add: ref_spend_def)

theorem policy_leads_to_spend_witness:
  "\<exists>wit cs. satisfy_malleable ref_btc ref_keys Segwitv0 (ref_satisfier [2]) ex_or = Some (Inr wit)
    \<and> run_witness (ref_spend Segwitv0 [2]) ex_or wit = Some (cs, None)
    \<and> list_all (constraint_holds (sp_interp (ref_spend Segwitv0 [2]))) cs"
  using policy_leads_to_spend [of ex_or "ref_spend Segwitv0 [2]" ex_or_script ex_or_policy, unfolded ref_spend_parts]
    ex_or_typed ex_or_base ex_or_encode ex_or_plain ex_or_honest ex_leaf_hash ex_or_lift ex_or_provided
  by (simp add: ex_mall_env_def)

end
