(* ===== verification/Concrete.thy ===== *)
theory Concrete
  imports SemOps Translate
begin

section \<open>Concrete policies\<close>

text \<open>
  \<open>Policy\<close> of \<^verbatim>\<open>policy/concrete.rs\<close>: the policies a user writes, with odds on the branches
  of a disjunction, their tree, and the passes over it: keys, timelocks, safety and translation.  A panic is
  \<open>None\<close>; odds are natural numbers.
\<close>

datatype 'pk concrete =
    PUnsatisfiable
  | PTrivial
  | PKey 'pk
  | PAfter abs_lock_time
  | POlder rel_lock_time
  | PSha256 hash
  | PHash256 hash
  | PRipemd160 hash
  | PHash160 hash
  | PTxTemplate hash
  | PInscribe inscription "'pk concrete"
  | PAnd "'pk concrete list"
  | POr "(nat \<times> 'pk concrete) list"
  | PThresh "'pk concrete threshold"

datatype policy_error = PolicyHeightTimelockCombination | DuplicatePubKeys | InvalidInscription

subsection \<open>The tree\<close>

text \<open>\<open>TreeChildren\<close>: the two kinds of children of an n-ary node.\<close>

datatype 'pk conc_children = ChAnd "'pk concrete list" | ChOr "(nat \<times> 'pk concrete) list"

fun conc_nary_len :: "'pk conc_children \<Rightarrow> nat" where
  "conc_nary_len (ChAnd sl) = length sl"
| "conc_nary_len (ChOr sl) = length sl"

fun conc_nary_index :: "'pk conc_children \<Rightarrow> nat \<Rightarrow> 'pk concrete" where
  "conc_nary_index (ChAnd sl) i = sl ! i"
| "conc_nary_index (ChOr sl) i = snd (sl ! i)"

fun conc_as_node :: "'pk concrete \<Rightarrow> ('pk concrete, 'pk conc_children) tree_node" where
  "conc_as_node (PInscribe _ sub) = Unary sub"
| "conc_as_node (PAnd subs) = Nary (ChAnd subs)"
| "conc_as_node (POr v) = Nary (ChOr v)"
| "conc_as_node (PThresh thresh) = Nary (ChAnd (thr_data thresh))"
| "conc_as_node _ = Nullary"

definition conc_tree :: "('pk concrete, 'pk conc_children) tree_ops" where
  "conc_tree = \<lparr>as_node = conc_as_node, nary_len = conc_nary_len, nary_index = conc_nary_index\<rparr>"

fun conc_kids :: "'pk concrete \<Rightarrow> 'pk concrete list" where
  "conc_kids (PInscribe _ sub) = [sub]"
| "conc_kids (PAnd subs) = subs"
| "conc_kids (POr subs) = map snd subs"
| "conc_kids (PThresh t) = thr_data t"
| "conc_kids _ = []"

lemma size_thresh_conc: "p \<in> set (thr_data t) \<Longrightarrow> size p \<le> size_threshold size t"
  by (cases t) (auto intro: le_SucI size_list_estimation')

lemma size_conc_kids [termination_simp]: "c \<in> set (conc_kids p) \<Longrightarrow> size c < size p"
proof (cases p)
  case (POr subs)
  assume "c \<in> set (conc_kids p)"
  then obtain q where "(q, c) \<in> set subs" using POr by auto
  then have "size c \<le> size_list (size_prod (\<lambda>_. 0) size) subs"
    by (rule size_list_estimation') simp
  then show ?thesis using POr by simp
qed (auto simp: size_thresh_conc less_Suc_eq_le intro: le_SucI size_list_estimation')

function conc_rose :: "'pk concrete \<Rightarrow> 'pk concrete rose" where
  "conc_rose p = Rose p (map conc_rose (conc_kids p))"
  by auto
termination by (relation "measure size") (auto simp: size_conc_kids)

declare conc_rose.simps [simp del]

lemma map_conc_nary [simp]:
  "map (conc_nary_index (ChAnd sl)) [0..<length sl] = sl"
  "map (conc_nary_index (ChOr v)) [0..<length v] = map snd v"
  by (auto intro: nth_equalityI)

lemma tree_children_conc [simp]: "tree_children conc_tree p = conc_kids p"
  by (cases p) (simp_all add: tree_children_def conc_tree_def)

interpretation conc: tree_like conc_tree conc_rose
  by unfold_locales (simp add: conc_rose.simps)

subsection \<open>Keys\<close>

definition conc_keys :: "'pk concrete \<Rightarrow> 'pk list" where
  "conc_keys p =
     (case pre_order_iter conc_tree p of
        None \<Rightarrow> []
      | Some nodes \<Rightarrow> List.map_filter (\<lambda>policy. case policy of PKey pk \<Rightarrow> Some pk | _ \<Rightarrow> None) nodes)"

definition conc_for_each_key :: "('pk \<Rightarrow> bool) \<Rightarrow> 'pk concrete \<Rightarrow> bool" where
  "conc_for_each_key pred p =
     (case pre_order_iter conc_tree p of
        None \<Rightarrow> True
      | Some nodes \<Rightarrow> list_all (\<lambda>policy. case policy of PKey pk \<Rightarrow> pred pk | _ \<Rightarrow> True) nodes)"

definition check_duplicate_keys :: "'pk concrete \<Rightarrow> policy_error + unit" where
  "check_duplicate_keys p =
     (let pks = conc_keys p in
      if length pks > card (set pks) then Inl DuplicatePubKeys else Inr ())"

subsection \<open>Timelocks\<close>

definition timelock_step ::
    "btc \<Rightarrow> 'pk concrete \<Rightarrow> timelock_info list \<Rightarrow> (unit + timelock_info list) option" where
  "timelock_step L p infos =
     (case p of
        PAfter t \<Rightarrow>
          Some (Inr (\<lparr>csv_with_height = False, csv_with_time = False,
                      cltv_with_height = abs_is_block_height L t, cltv_with_time = abs_is_block_time L t,
                      contains_combination = False\<rparr> # infos))
      | POlder t \<Rightarrow>
          Some (Inr (\<lparr>csv_with_height = rel_is_height_locked L t, csv_with_time = rel_is_time_locked L t,
                      cltv_with_height = False, cltv_with_time = False,
                      contains_combination = False\<rparr> # infos))
      | PAnd subs \<Rightarrow>
          (case pop_n (length subs) infos of
             None \<Rightarrow> None
           | Some (ts, rest) \<Rightarrow> Some (Inr (combine_threshold (length subs) ts # rest)))
      | POr subs \<Rightarrow>
          (case pop_n (length subs) infos of
             None \<Rightarrow> None
           | Some (ts, rest) \<Rightarrow> Some (Inr (combine_threshold 1 ts # rest)))
      | PThresh thresh \<Rightarrow>
          (case pop_n (thr_n thresh) infos of
             None \<Rightarrow> None
           | Some (ts, rest) \<Rightarrow> Some (Inr (combine_threshold (thr_k thresh) ts # rest)))
      | PInscribe _ _ \<Rightarrow> (case infos of [] \<Rightarrow> None | t # rest \<Rightarrow> Some (Inr (t # rest)))
      | _ \<Rightarrow> Some (Inr (timelock_info_new # infos)))"

definition conc_timelock_info :: "btc \<Rightarrow> 'pk concrete \<Rightarrow> timelock_info option" where
  "conc_timelock_info L p = loop_result (rtl_loop conc_tree (timelock_step L) p)"

definition check_timelocks :: "btc \<Rightarrow> 'pk concrete \<Rightarrow> (policy_error + unit) option" where
  "check_timelocks L p =
     do { info \<leftarrow> conc_timelock_info L p;
          Some (if contains_combination info then Inl PolicyHeightTimelockCombination else Inr ()) }"

fun first_bad_inscription :: "'pk concrete list \<Rightarrow> policy_error + unit" where
  "first_bad_inscription [] = Inr ()"
| "first_bad_inscription (PInscribe i _ # ps) =
     (case validate i of Inl _ \<Rightarrow> Inl InvalidInscription | Inr _ \<Rightarrow> first_bad_inscription ps)"
| "first_bad_inscription (_ # ps) = first_bad_inscription ps"

definition is_valid :: "btc \<Rightarrow> 'pk concrete \<Rightarrow> (policy_error + unit) option" where
  "is_valid L p =
     do { nodes \<leftarrow> pre_order_iter conc_tree p;
          case first_bad_inscription nodes of
            Inl e \<Rightarrow> Some (Inl e)
          | Inr _ \<Rightarrow>
              do { r \<leftarrow> check_timelocks L p;
                   Some (case r of Inl e \<Rightarrow> Inl e | Inr _ \<Rightarrow> check_duplicate_keys p) } }"

subsection \<open>Safety and malleability\<close>

definition safe_step ::
    "'pk concrete \<Rightarrow> (bool \<times> bool) list \<Rightarrow> (unit + (bool \<times> bool) list) option" where
  "safe_step p acc =
     (case p of
        PInscribe _ _ \<Rightarrow> (case acc of [] \<Rightarrow> None | x # rest \<Rightarrow> Some (Inr (x # rest)))
      | PAnd subs \<Rightarrow>
          (case pop_n (length subs) acc of
             None \<Rightarrow> None
           | Some (xs, rest) \<Rightarrow>
               Some (Inr (foldl (\<lambda>a x. (fst a \<or> fst x, snd a \<and> snd x)) (False, True) xs # rest)))
      | POr subs \<Rightarrow>
          (case pop_n (length subs) acc of
             None \<Rightarrow> None
           | Some (xs, rest) \<Rightarrow>
               (let (all_safe, atleast_one_safe, all_non_mall) =
                      foldl (\<lambda>(a, b, c) x. (a \<and> fst x, b \<or> fst x, c \<and> snd x)) (True, False, True) xs
                in Some (Inr ((all_safe, atleast_one_safe \<and> all_non_mall) # rest))))
      | PThresh thresh \<Rightarrow>
          (case pop_n (thr_n thresh) acc of
             None \<Rightarrow> None
           | Some (xs, rest) \<Rightarrow>
               (let (safe_count, non_mall_count) =
                      foldl (\<lambda>(s, m) x. (s + of_bool (fst x), m + of_bool (snd x))) (0 :: nat, 0 :: nat) xs
                in Some (Inr ((thr_n thresh - thr_k thresh + 1 \<le> safe_count,
                               non_mall_count = thr_n thresh \<and> thr_n thresh - thr_k thresh \<le> safe_count) # rest))))
      | PUnsatisfiable \<Rightarrow> Some (Inr ((True, True) # acc))
      | PTrivial \<Rightarrow> Some (Inr ((True, True) # acc))
      | PKey _ \<Rightarrow> Some (Inr ((True, True) # acc))
      | PTxTemplate _ \<Rightarrow> Some (Inr ((True, True) # acc))
      | _ \<Rightarrow> Some (Inr ((False, True) # acc)))"

definition is_safe_nonmalleable :: "'pk concrete \<Rightarrow> (bool \<times> bool) option" where
  "is_safe_nonmalleable p = loop_result (rtl_loop conc_tree safe_step p)"

subsection \<open>Translation\<close>

text \<open>A node rebuilt from its translated children, popped from the stack.\<close>

definition conc_rebuild :: "'pk concrete \<Rightarrow> 'q concrete list \<Rightarrow> 'q concrete list option" where
  "conc_rebuild p translated =
     (case p of
        PInscribe i _ \<Rightarrow> (case translated of [] \<Rightarrow> None | x # rest \<Rightarrow> Some (PInscribe i x # rest))
      | PAnd subs \<Rightarrow>
          (case pop_n (length subs) translated of None \<Rightarrow> None | Some (xs, rest) \<Rightarrow> Some (PAnd xs # rest))
      | POr subs \<Rightarrow>
          (case pop_n (length subs) translated of
             None \<Rightarrow> None
           | Some (xs, rest) \<Rightarrow> Some (POr (zip (map fst subs) xs) # rest))
      | PThresh thresh \<Rightarrow>
          (case pop_n (thr_n thresh) translated of
             None \<Rightarrow> None
           | Some (xs, rest) \<Rightarrow> Some (PThresh (Threshold (thr_k thresh) xs) # rest))
      | _ \<Rightarrow> None)"

fun conc_translate_leaf :: "('pk, 'q, 'e) translator \<Rightarrow> 'pk concrete \<Rightarrow> 'e + 'q concrete" where
  "conc_translate_leaf T PUnsatisfiable = Inr PUnsatisfiable"
| "conc_translate_leaf T PTrivial = Inr PTrivial"
| "conc_translate_leaf T (PKey pk) = map_sum id PKey (tr_pk T pk)"
| "conc_translate_leaf T (PSha256 h) = map_sum id PSha256 (tr_sha256 T h)"
| "conc_translate_leaf T (PHash256 h) = map_sum id PHash256 (tr_hash256 T h)"
| "conc_translate_leaf T (PRipemd160 h) = map_sum id PRipemd160 (tr_ripemd160 T h)"
| "conc_translate_leaf T (PHash160 h) = map_sum id PHash160 (tr_hash160 T h)"
| "conc_translate_leaf T (PTxTemplate h) = Inr (PTxTemplate h)"
| "conc_translate_leaf T (POlder n) = Inr (POlder n)"
| "conc_translate_leaf T (PAfter n) = Inr (PAfter n)"
| "conc_translate_leaf T _ = Inr PUnsatisfiable"

definition is_leaf :: "'pk concrete \<Rightarrow> bool" where
  "is_leaf p = (case p of PInscribe _ _ \<Rightarrow> False | PAnd _ \<Rightarrow> False | POr _ \<Rightarrow> False | PThresh _ \<Rightarrow> False | _ \<Rightarrow> True)"

definition conc_translate_step ::
    "('pk, 'q, 'e) translator \<Rightarrow> 'pk concrete \<Rightarrow> 'q concrete list \<Rightarrow> ('e + 'q concrete list) option" where
  "conc_translate_step T p translated =
     (if is_leaf p
      then Some (map_sum id (\<lambda>x. x # translated) (conc_translate_leaf T p))
      else map_option Inr (conc_rebuild p translated))"

definition conc_translate_pk :: "('pk, 'q, 'e) translator \<Rightarrow> 'pk concrete \<Rightarrow> ('e + 'q concrete) option" where
  "conc_translate_pk T p = rtl_loop conc_tree (conc_translate_step T) p"

definition unsatisfiable_pk_step ::
    "'pk \<Rightarrow> 'pk concrete \<Rightarrow> 'pk concrete list \<Rightarrow> (unit + 'pk concrete list) option" where
  "unsatisfiable_pk_step key p translated =
     (case p of
        PKey k \<Rightarrow> Some (Inr ((if k = key then PUnsatisfiable else p) # translated))
      | _ \<Rightarrow> (if is_leaf p then Some (Inr (p # translated)) else map_option Inr (conc_rebuild p translated)))"

definition translate_unsatisfiable_pk :: "'pk \<Rightarrow> 'pk concrete \<Rightarrow> 'pk concrete option" where
  "translate_unsatisfiable_pk key p = loop_result (rtl_loop conc_tree (unsatisfiable_pk_step key) p)"

end
