(* ===== verification/ConcSem.thy ===== *)
theory ConcSem
  imports Concrete
begin

section \<open>What concrete policies demand\<close>

text \<open>
  The meaning of a concrete policy under an assignment of truth values to its leaves (\<open>conc_sem\<close>), and
  the sets of leaves that a spender can choose to meet (\<open>chooses\<close>).  Every inner node asks for
  \<open>conc_k\<close> of its children, so one argument serves conjunctions, disjunctions and thresholds.  The two
  analyses of the code are exact: \<open>check_timelocks\<close> fails exactly when some choice mixes heights and
  times, and the safety bit of \<open>is_safe_nonmalleable\<close> holds exactly when every choice has a leaf that
  the code counts as safe.
\<close>

subsection \<open>The meaning\<close>

fun conc_k :: "'pk concrete \<Rightarrow> nat" where
  "conc_k (PInscribe _ _) = 1"
| "conc_k (PAnd subs) = length subs"
| "conc_k (POr _) = 1"
| "conc_k (PThresh t) = thr_k t"
| "conc_k _ = 0"

fun leaf_policy :: "'pk concrete \<Rightarrow> 'pk policy" where
  "leaf_policy PTrivial = STrivial"
| "leaf_policy (PKey pk) = SKey pk"
| "leaf_policy (PAfter t) = SAfter t"
| "leaf_policy (POlder t) = SOlder t"
| "leaf_policy (PSha256 h) = SSha256 h"
| "leaf_policy (PHash256 h) = SHash256 h"
| "leaf_policy (PRipemd160 h) = SRipemd160 h"
| "leaf_policy (PHash160 h) = SHash160 h"
| "leaf_policy (PTxTemplate h) = STxTemplate h"
| "leaf_policy _ = SUnsatisfiable"

function conc_sem :: "('pk policy \<Rightarrow> bool) \<Rightarrow> 'pk concrete \<Rightarrow> bool" where
  "conc_sem v p = (if is_leaf p then sem v (leaf_policy p) else conc_k p \<le> length (filter (conc_sem v) (conc_kids p)))"
  by auto
termination by (relation "measure (size \<circ> snd)") (auto simp: size_conc_kids)

declare conc_sem.simps [simp del]

lemma conc_sem_leaf: "is_leaf p \<Longrightarrow> conc_sem v p = sem v (leaf_policy p)"
  by (simp add: conc_sem.simps)

lemma is_leaf_simps [simp]:
  "is_leaf PUnsatisfiable" "is_leaf PTrivial" "is_leaf (PKey pk)" "is_leaf (PAfter t)" "is_leaf (POlder r)"
  "is_leaf (PSha256 h)" "is_leaf (PHash256 h)" "is_leaf (PRipemd160 h)" "is_leaf (PHash160 h)" "is_leaf (PTxTemplate h)"
  "\<not> is_leaf (PInscribe i p)" "\<not> is_leaf (PAnd subs)" "\<not> is_leaf (POr alts)" "\<not> is_leaf (PThresh th)"
  by (simp_all add: is_leaf_def)

lemma is_leaf_kids: "is_leaf p \<Longrightarrow> conc_kids p = []"
  by (cases p) simp_all

lemma filter_all_iff: "length xs \<le> length (filter P xs) \<longleftrightarrow> (\<forall>x \<in> set xs. P x)"
  using length_filter_le [of P xs] by (metis filter_id_conv length_filter_less linorder_not_less order_refl)

lemma filter_ex_iff: "Suc 0 \<le> length (filter P xs) \<longleftrightarrow> (\<exists>x \<in> set xs. P x)"
  by (induction xs) auto

lemma conc_sem_simps [simp]:
  "conc_sem v PUnsatisfiable = False" "conc_sem v PTrivial = True" "conc_sem v (PKey pk) = v (SKey pk)"
  "conc_sem v (PInscribe i p) = conc_sem v p"
  "conc_sem v (PAnd subs) = (\<forall>s \<in> set subs. conc_sem v s)"
  "conc_sem v (POr alts) = (\<exists>s \<in> snd ` set alts. conc_sem v s)"
  "conc_sem v (PThresh t) = (thr_k t \<le> length (filter (conc_sem v) (thr_data t)))"
  by (simp_all add: conc_sem.simps [of v "PThresh _"] conc_sem.simps [of v "PInscribe _ _"] conc_sem.simps [of v "PAnd _"]
      conc_sem.simps [of v "POr _"] conc_sem_leaf filter_all_iff filter_ex_iff)

text \<open>Policies as \<open>from_str\<close> makes them: no empty \<open>and\<close> or \<open>or\<close>, thresholds with \<open>1 <= k <= n\<close>.\<close>

definition conc_node_ok :: "'pk concrete \<Rightarrow> bool" where
  "conc_node_ok p \<longleftrightarrow> is_leaf p \<or> (0 < conc_k p \<and> conc_k p \<le> length (conc_kids p))"

function conc_ok :: "'pk concrete \<Rightarrow> bool" where
  "conc_ok p = (conc_node_ok p \<and> (\<forall>c \<in> set (conc_kids p). conc_ok c))"
  by auto
termination by (relation "measure size") (auto simp: size_conc_kids)

declare conc_ok.simps [simp del]

lemma conc_okD: "conc_ok p \<Longrightarrow> conc_node_ok p" "conc_ok p \<Longrightarrow> c \<in> set (conc_kids p) \<Longrightarrow> conc_ok c"
  by (simp_all add: conc_ok.simps [of p])

subsection \<open>Choices\<close>

inductive chooses :: "'pk concrete \<Rightarrow> 'pk concrete set \<Rightarrow> bool" where
  chooses_leaf: "is_leaf p \<Longrightarrow> chooses p {p}"
| chooses_node: "\<not> is_leaf p \<Longrightarrow> I \<subseteq> {..<length (conc_kids p)} \<Longrightarrow> card I = conc_k p \<Longrightarrow>
    (\<And>i. i \<in> I \<Longrightarrow> chooses (conc_kids p ! i) (f i)) \<Longrightarrow> chooses p (\<Union>i \<in> I. f i)"

lemma chooses_leaf_iff: "is_leaf p \<Longrightarrow> chooses p c \<longleftrightarrow> c = {p}"
  by (auto elim: chooses.cases intro: chooses_leaf)

lemma chooses_nodeD:
  assumes "chooses p c" "\<not> is_leaf p"
  shows "\<exists>I f. I \<subseteq> {..<length (conc_kids p)} \<and> card I = conc_k p
    \<and> (\<forall>i \<in> I. chooses (conc_kids p ! i) (f i)) \<and> c = (\<Union>i \<in> I. f i)"
  using assms(1)
proof (cases rule: chooses.cases)
  case (chooses_node I f)
  then show ?thesis by blast
qed (use assms(2) in simp)

lemma chooses_exists: "conc_ok p \<Longrightarrow> \<exists>c. chooses p c"
proof (induction p rule: conc.tree_induct)
  case (Node p)
  show ?case
  proof (cases "is_leaf p")
    case False
    then have k: "conc_k p \<le> length (conc_kids p)" using conc_okD(1) [OF Node.prems] by (simp add: conc_node_ok_def)
    have "\<exists>c. chooses (conc_kids p ! i) c" if "i < length (conc_kids p)" for i
      using Node.IH [of "conc_kids p ! i"] conc_okD(2) [OF Node.prems] that by simp
    then obtain f where "\<And>i. i < length (conc_kids p) \<Longrightarrow> chooses (conc_kids p ! i) (f i)" by metis
    then show ?thesis using chooses_node [of p "{..<conc_k p}" f] False k by auto
  qed (blast intro: chooses_leaf)
qed

text \<open>A choice that takes given choices of at most \<open>conc_k\<close> children.\<close>

lemma chooses_extend:
  assumes "conc_ok p" "\<not> is_leaf p" "J \<subseteq> {..<length (conc_kids p)}" "card J \<le> conc_k p"
    and "\<And>i. i \<in> J \<Longrightarrow> chooses (conc_kids p ! i) (f i)"
  shows "\<exists>c. chooses p c \<and> (\<Union>i \<in> J. f i) \<subseteq> c"
proof -
  have k: "conc_k p \<le> card {..<length (conc_kids p)}" using conc_okD(1) [OF assms(1)] assms(2) by (simp add: conc_node_ok_def)
  obtain I where I: "J \<subseteq> I" "I \<subseteq> {..<length (conc_kids p)}" "card I = conc_k p"
    using exists_subset_between [OF assms(4) k assms(3)] by auto
  have "\<exists>c. chooses (conc_kids p ! i) c" if "i < length (conc_kids p)" for i
    by (rule chooses_exists, rule conc_okD(2) [OF assms(1)]) (simp add: that)
  then obtain g where g: "\<And>i. i < length (conc_kids p) \<Longrightarrow> chooses (conc_kids p ! i) (g i)" by metis
  have "chooses p (\<Union>i \<in> I. if i \<in> J then f i else g i)"
    by (rule chooses_node) (use assms(2,5) I g in auto)
  moreover have "(\<Union>i \<in> J. f i) \<subseteq> (\<Union>i \<in> I. if i \<in> J then f i else g i)" using I(1) by auto
  ultimately show ?thesis by blast
qed

text \<open>A leaf with the property \<open>A\<close> is in some choice.\<close>

definition may_have :: "('pk concrete \<Rightarrow> bool) \<Rightarrow> 'pk concrete \<Rightarrow> bool" where
  "may_have A p \<longleftrightarrow> (\<exists>c. chooses p c \<and> (\<exists>l \<in> c. A l))"

definition may_have_both :: "('pk concrete \<Rightarrow> bool) \<Rightarrow> ('pk concrete \<Rightarrow> bool) \<Rightarrow> 'pk concrete \<Rightarrow> bool" where
  "may_have_both A B p \<longleftrightarrow> (\<exists>c. chooses p c \<and> (\<exists>l \<in> c. A l) \<and> (\<exists>l \<in> c. B l))"

lemma may_have_leaf:
  "is_leaf p \<Longrightarrow> may_have A p = A p" "is_leaf p \<Longrightarrow> may_have_both A B p = (A p \<and> B p)"
  by (auto simp: may_have_def may_have_both_def chooses_leaf_iff)

lemma may_have_node:
  assumes "conc_ok p" "\<not> is_leaf p"
  shows "may_have A p \<longleftrightarrow> (\<exists>s \<in> set (conc_kids p). may_have A s)"
proof
  assume "may_have A p"
  then obtain c where c: "chooses p c" "\<exists>l \<in> c. A l" by (auto simp: may_have_def)
  obtain I f where I: "I \<subseteq> {..<length (conc_kids p)}" "\<forall>i \<in> I. chooses (conc_kids p ! i) (f i)" "c = (\<Union>i \<in> I. f i)"
    using chooses_nodeD [OF c(1) assms(2)] by blast
  with c(2) obtain i where i: "i \<in> I" "\<exists>l \<in> f i. A l" by blast
  then have "may_have A (conc_kids p ! i)" using I(2) by (auto simp: may_have_def)
  then show "\<exists>s \<in> set (conc_kids p). may_have A s" using i(1) I(1) by (auto intro!: bexI [of _ "conc_kids p ! i"])
next
  assume "\<exists>s \<in> set (conc_kids p). may_have A s"
  then obtain i where "i < length (conc_kids p)" "may_have A (conc_kids p ! i)" by (auto simp: in_set_conv_nth)
  then obtain c where c: "i < length (conc_kids p)" "chooses (conc_kids p ! i) c" "\<exists>l \<in> c. A l"
    unfolding may_have_def by blast
  have "0 < conc_k p" using conc_okD(1) [OF assms(1)] assms(2) by (simp add: conc_node_ok_def)
  then obtain c' where "chooses p c'" "c \<subseteq> c'"
    using chooses_extend [OF assms, of "{i}" "\<lambda>_. c"] c by auto
  with c(3) show "may_have A p" by (auto simp: may_have_def)
qed

lemma may_have_both_node:
  assumes "conc_ok p" "\<not> is_leaf p"
  shows "may_have_both A B p \<longleftrightarrow>
    (\<exists>s \<in> set (conc_kids p). may_have_both A B s)
    \<or> (1 < conc_k p \<and> (\<exists>i < length (conc_kids p). \<exists>j < length (conc_kids p).
          i \<noteq> j \<and> may_have A (conc_kids p ! i) \<and> may_have B (conc_kids p ! j)))" (is "_ \<longleftrightarrow> ?one \<or> ?two")
proof
  assume "may_have_both A B p"
  then obtain c where c: "chooses p c" "\<exists>l \<in> c. A l" "\<exists>l \<in> c. B l" by (auto simp: may_have_both_def)
  obtain I f where I: "I \<subseteq> {..<length (conc_kids p)}" "card I = conc_k p"
      "\<forall>i \<in> I. chooses (conc_kids p ! i) (f i)" "c = (\<Union>i \<in> I. f i)"
    using chooses_nodeD [OF c(1) assms(2)] by blast
  with c(2,3) obtain i j where ij: "i \<in> I" "\<exists>l \<in> f i. A l" "j \<in> I" "\<exists>l \<in> f j. B l" by blast
  show "?one \<or> ?two"
  proof (cases "i = j")
    case True
    then have "may_have_both A B (conc_kids p ! i)" using I(3) ij by (auto simp: may_have_both_def)
    then show ?thesis using ij(1) I(1) by (auto intro!: bexI [of _ "conc_kids p ! i"])
  next
    case False
    have "card {i, j} \<le> card I" by (rule card_mono) (use ij I(1) finite_subset in auto)
    then have "1 < conc_k p" using False I(2) by simp
    moreover have "may_have A (conc_kids p ! i)" "may_have B (conc_kids p ! j)"
      using I(3) ij by (auto simp: may_have_def)
    moreover have "i < length (conc_kids p)" "j < length (conc_kids p)" using ij I(1) by auto
    ultimately show ?thesis using False by blast
  qed
next
  have k: "0 < conc_k p" using conc_okD(1) [OF assms(1)] assms(2) by (simp add: conc_node_ok_def)
  assume "?one \<or> ?two"
  then show "may_have_both A B p"
  proof
    assume ?one
    then obtain i where "i < length (conc_kids p)" "may_have_both A B (conc_kids p ! i)"
      by (auto simp: in_set_conv_nth)
    then obtain c where c: "i < length (conc_kids p)" "chooses (conc_kids p ! i) c" "\<exists>l \<in> c. A l" "\<exists>l \<in> c. B l"
      by (auto simp: may_have_both_def)
    then obtain c' where "chooses p c'" "c \<subseteq> c'"
      using chooses_extend [OF assms, of "{i}" "\<lambda>_. c"] k by auto
    with c show ?thesis by (auto simp: may_have_both_def)
  next
    assume ?two
    then obtain i j where "i < length (conc_kids p)" "j < length (conc_kids p)" "i \<noteq> j" "1 < conc_k p"
        "may_have A (conc_kids p ! i)" "may_have B (conc_kids p ! j)" by blast
    then obtain c d where c: "i < length (conc_kids p)" "j < length (conc_kids p)" "i \<noteq> j" "1 < conc_k p"
        "chooses (conc_kids p ! i) c" "chooses (conc_kids p ! j) d" "\<exists>l \<in> c. A l" "\<exists>l \<in> d. B l"
      unfolding may_have_def by blast
    have "chooses (conc_kids p ! x) (if x = i then c else d)" if "x \<in> {i, j}" for x using that c by auto
    then obtain c' where "chooses p c'" "c \<subseteq> c'" "d \<subseteq> c'"
      using chooses_extend [OF assms, of "{i, j}" "\<lambda>x. if x = i then c else d"] c by auto
    with c show ?thesis by (auto simp: may_have_both_def)
  qed
qed

subsection \<open>Loops over concrete policies\<close>

context tree_like
begin

text \<open>A loop whose step gives each node a value of its children's values.\<close>

lemma rose_fold_values:
  assumes "\<And>t. g t (map h (tree_children T t)) = Inr (h t)"
  shows "rose_fold g (rose_of t) = Inr (h t)"
proof (induction t rule: tree_induct)
  case (Node t)
  have "rose_folds g (map rose_of cs) = Inr (map h cs)" if "set cs \<subseteq> set (tree_children T t)" for cs
    using that Node by (induction cs) auto
  then show ?case using assms by (subst rose_of) simp
qed

lemma rtl_loop_values:
  assumes "\<And>t bs rest. length bs = length (tree_children T t) \<Longrightarrow> f t (bs @ rest) = Some (Inr (g t bs # rest))"
    and "\<And>t. g t (map h (tree_children T t)) = h t"
  shows "rtl_loop T f t = Some (Inr (h t))"
proof -
  have "rtl_loop T f t = Some (rose_fold (\<lambda>t bs. Inr (g t bs)) (rose_of t))"
    by (rule rtl_loop_fold) (simp add: assms(1))
  then show ?thesis by (simp add: rose_fold_values [where h = h] assms(2))
qed

end

subsection \<open>Timelocks\<close>

fun leaf_info :: "btc \<Rightarrow> 'pk concrete \<Rightarrow> timelock_info" where
  "leaf_info L (PAfter t) =
     timelock_info_new\<lparr>cltv_with_height := abs_is_block_height L t, cltv_with_time := abs_is_block_time L t\<rparr>"
| "leaf_info L (POlder t) =
     timelock_info_new\<lparr>csv_with_height := rel_is_height_locked L t, csv_with_time := rel_is_time_locked L t\<rparr>"
| "leaf_info L _ = timelock_info_new"

function conc_info :: "btc \<Rightarrow> 'pk concrete \<Rightarrow> timelock_info" where
  "conc_info L p = (if is_leaf p then leaf_info L p else combine_threshold (conc_k p) (map (conc_info L) (conc_kids p)))"
  by auto
termination by (relation "measure (size \<circ> snd)") (auto simp: size_conc_kids)

declare conc_info.simps [simp del]

lemma combine_threshold_single: "combine_threshold k [t] = t"
  by (simp add: combine_threshold_def timelock_info_new_def)

lemma timelock_info_value: "conc_timelock_info L p = Some (conc_info L p)"
proof -
  let ?g = "\<lambda>p ts. if is_leaf p then leaf_info L p else combine_threshold (conc_k p) ts"
  have "rtl_loop conc_tree (timelock_step L) p = Some (Inr (conc_info L p))"
  proof (rule conc.rtl_loop_values [where g = ?g])
    fix q rest and ts :: "timelock_info list"
    assume "length ts = length (tree_children conc_tree q)"
    then show "timelock_step L q (ts @ rest) = Some (Inr (?g q ts # rest))"
      by (cases q) (auto simp: timelock_step_def thr_n_def length_Suc_conv combine_threshold_single timelock_info_new_def)
  qed (simp add: conc_info.simps [of L])
  then show ?thesis by (simp add: conc_timelock_info_def)
qed

text \<open>What \<open>combine_threshold\<close> computes.\<close>

definition conflict :: "timelock_info \<Rightarrow> timelock_info \<Rightarrow> bool" where
  "conflict a b \<longleftrightarrow> csv_with_height a \<and> csv_with_time b \<or> csv_with_time a \<and> csv_with_height b
     \<or> cltv_with_height a \<and> cltv_with_time b \<or> cltv_with_time a \<and> cltv_with_height b"

lemma combine_threshold_snoc:
  "combine_threshold k (ts @ [t]) =
     (let acc = combine_threshold k ts in
      \<lparr>csv_with_height = csv_with_height acc \<or> csv_with_height t, csv_with_time = csv_with_time acc \<or> csv_with_time t,
       cltv_with_height = cltv_with_height acc \<or> cltv_with_height t, cltv_with_time = cltv_with_time acc \<or> cltv_with_time t,
       contains_combination = contains_combination acc \<or> (1 < k \<and> conflict acc t) \<or> contains_combination t\<rparr>)"
  by (auto simp: combine_threshold_def Let_def conflict_def)

lemma combine_threshold_flags:
  "csv_with_height (combine_threshold k ts) = list_ex csv_with_height ts"
  "csv_with_time (combine_threshold k ts) = list_ex csv_with_time ts"
  "cltv_with_height (combine_threshold k ts) = list_ex cltv_with_height ts"
  "cltv_with_time (combine_threshold k ts) = list_ex cltv_with_time ts"
proof (induction ts rule: rev_induct)
  case Nil
  { case 1 then show ?case by (simp add: combine_threshold_def timelock_info_new_def) }
  { case 2 then show ?case by (simp add: combine_threshold_def timelock_info_new_def) }
  { case 3 then show ?case by (simp add: combine_threshold_def timelock_info_new_def) }
  { case 4 then show ?case by (simp add: combine_threshold_def timelock_info_new_def) }
next
  case (snoc t ts)
  { case 1 then show ?case using snoc by (simp add: combine_threshold_snoc Let_def) }
  { case 2 then show ?case using snoc by (simp add: combine_threshold_snoc Let_def) }
  { case 3 then show ?case using snoc by (simp add: combine_threshold_snoc Let_def) }
  { case 4 then show ?case using snoc by (simp add: combine_threshold_snoc Let_def) }
qed

lemma ex_pair_Suc:
  "(\<exists>i < Suc n. \<exists>j < Suc n. i < j \<and> P i j) \<longleftrightarrow> (\<exists>i < n. \<exists>j < n. i < j \<and> P i j) \<or> (\<exists>i < n. P i n)" (is "?l \<longleftrightarrow> ?r")
proof
  assume ?l
  then obtain i j where ij: "i < j" "j < Suc n" "P i j" by blast
  then show ?r by (cases "j = n") (auto intro: exI [of _ i])
next
  assume ?r
  then show ?l
  proof
    assume "\<exists>i < n. \<exists>j < n. i < j \<and> P i j"
    then show ?thesis using less_SucI by blast
  next
    assume "\<exists>i < n. P i n"
    then show ?thesis using less_SucI lessI by blast
  qed
qed

lemma combine_threshold_combination:
  "contains_combination (combine_threshold k ts) \<longleftrightarrow>
     list_ex contains_combination ts
     \<or> (1 < k \<and> (\<exists>i < length ts. \<exists>j < length ts. i < j \<and> conflict (ts ! i) (ts ! j)))"
proof (induction ts rule: rev_induct)
  case (snoc t ts)
  have "conflict (combine_threshold k ts) t \<longleftrightarrow> (\<exists>i < length ts. conflict (ts ! i) t)"
    by (auto simp: conflict_def combine_threshold_flags list_ex_length)
  moreover have "(\<exists>i < Suc (length ts). \<exists>j < Suc (length ts). i < j \<and> conflict ((ts @ [t]) ! i) ((ts @ [t]) ! j))
      \<longleftrightarrow> (\<exists>i < length ts. \<exists>j < length ts. i < j \<and> conflict (ts ! i) (ts ! j)) \<or> (\<exists>i < length ts. conflict (ts ! i) t)"
    unfolding ex_pair_Suc by (simp add: nth_append cong: conj_cong)
  ultimately show ?case using snoc by (auto simp: combine_threshold_snoc Let_def)
qed (simp add: combine_threshold_def timelock_info_new_def)

definition is_csv_height :: "btc \<Rightarrow> 'pk concrete \<Rightarrow> bool" where
  "is_csv_height L l = csv_with_height (leaf_info L l)"

definition is_csv_time :: "btc \<Rightarrow> 'pk concrete \<Rightarrow> bool" where
  "is_csv_time L l = csv_with_time (leaf_info L l)"

definition is_cltv_height :: "btc \<Rightarrow> 'pk concrete \<Rightarrow> bool" where
  "is_cltv_height L l = cltv_with_height (leaf_info L l)"

definition is_cltv_time :: "btc \<Rightarrow> 'pk concrete \<Rightarrow> bool" where
  "is_cltv_time L l = cltv_with_time (leaf_info L l)"

text \<open>What the crate documents of \<open>Sequence\<close>: a lock is not both a number of blocks and a time.\<close>

definition lock_kinds :: "btc \<Rightarrow> bool" where
  "lock_kinds L \<longleftrightarrow> (\<forall>n. \<not> (seq_is_height L n \<and> seq_is_time L n))"

text \<open>A set of leaves that mixes heights and times of one kind of lock: no transaction meets it.\<close>

definition mixes :: "btc \<Rightarrow> 'pk concrete set \<Rightarrow> bool" where
  "mixes L c \<longleftrightarrow>
     (\<exists>l \<in> c. is_csv_height L l) \<and> (\<exists>l \<in> c. is_csv_time L l)
     \<or> (\<exists>l \<in> c. is_cltv_height L l) \<and> (\<exists>l \<in> c. is_cltv_time L l)"

lemma conc_info_flags:
  "conc_ok p \<Longrightarrow>
     (csv_with_height (conc_info L p) \<longleftrightarrow> may_have (is_csv_height L) p)
     \<and> (csv_with_time (conc_info L p) \<longleftrightarrow> may_have (is_csv_time L) p)
     \<and> (cltv_with_height (conc_info L p) \<longleftrightarrow> may_have (is_cltv_height L) p)
     \<and> (cltv_with_time (conc_info L p) \<longleftrightarrow> may_have (is_cltv_time L) p)"
proof (induction p rule: conc.tree_induct)
  case (Node p)
  show ?case
  proof (cases "is_leaf p")
    case True
    then show ?thesis
      by (simp add: conc_info.simps [of L p] may_have_leaf is_csv_height_def is_csv_time_def is_cltv_height_def is_cltv_time_def)
  next
    case False
    then show ?thesis
      using Node.IH conc_okD(2) [OF Node.prems]
      by (simp add: conc_info.simps [of L p] may_have_node [OF Node.prems False] combine_threshold_flags list_ex_iff cong: bex_cong)
  qed
qed

lemma mixes_may_have:
  "(\<exists>c. chooses p c \<and> mixes L c) \<longleftrightarrow>
     may_have_both (is_csv_height L) (is_csv_time L) p \<or> may_have_both (is_cltv_height L) (is_cltv_time L) p"
  unfolding mixes_def may_have_both_def by blast

lemma ordered_pair_iff:
  "(\<exists>i < n. \<exists>j < n. i \<noteq> j \<and> R i j) \<longleftrightarrow> (\<exists>i < n. \<exists>j < n. i < j \<and> (R i j \<or> R j i))" for n :: nat
  by (metis linorder_neq_iff)

lemma combination_iff:
  assumes "lock_kinds L"
  shows "conc_ok p \<Longrightarrow> contains_combination (conc_info L p) \<longleftrightarrow> (\<exists>c. chooses p c \<and> mixes L c)"
proof (induction p rule: conc.tree_induct)
  case (Node p)
  show ?case
  proof (cases "is_leaf p")
    case True
    have "\<not> (is_csv_height L p \<and> is_csv_time L p)" "\<not> (is_cltv_height L p \<and> is_cltv_time L p)"
      using assms
      by (cases p; simp add: is_csv_height_def is_csv_time_def is_cltv_height_def is_cltv_time_def timelock_info_new_def
          lock_kinds_def rel_is_height_locked_def rel_is_time_locked_def abs_is_block_height_def abs_is_block_time_def
          split: abs_lock.splits)+
    moreover have "\<not> contains_combination (leaf_info L p)" by (cases p) (simp_all add: timelock_info_new_def)
    ultimately show ?thesis using True by (simp add: conc_info.simps [of L p] mixes_may_have may_have_leaf)
  next
    case False
    have kids: "contains_combination (conc_info L s) \<longleftrightarrow> (\<exists>c. chooses s c \<and> mixes L c)" if "s \<in> set (conc_kids p)" for s
      using Node.IH that conc_okD(2) [OF Node.prems that] by simp
    have "conflict (conc_info L (conc_kids p ! i)) (conc_info L (conc_kids p ! j)) \<longleftrightarrow>
        may_have (is_csv_height L) (conc_kids p ! i) \<and> may_have (is_csv_time L) (conc_kids p ! j)
        \<or> may_have (is_csv_time L) (conc_kids p ! i) \<and> may_have (is_csv_height L) (conc_kids p ! j)
        \<or> may_have (is_cltv_height L) (conc_kids p ! i) \<and> may_have (is_cltv_time L) (conc_kids p ! j)
        \<or> may_have (is_cltv_time L) (conc_kids p ! i) \<and> may_have (is_cltv_height L) (conc_kids p ! j)"
      if "i < length (conc_kids p)" "j < length (conc_kids p)" for i j
    proof -
      have "conc_ok (conc_kids p ! i)" "conc_ok (conc_kids p ! j)" using conc_okD(2) [OF Node.prems] that by simp_all
      from conc_info_flags [OF this(1), of L] conc_info_flags [OF this(2), of L] show ?thesis by (simp add: conflict_def)
    qed
    then show ?thesis
      using kids
      by (simp add: conc_info.simps [of L p] False combine_threshold_combination mixes_may_have list_ex_iff
          may_have_both_node [OF Node.prems False] ordered_pair_iff cong: conj_cong) blast
  qed
qed

lemma check_timelocks_exact:
  assumes "lock_kinds L" "conc_ok p"
  shows "check_timelocks L p = Some (if \<exists>c. chooses p c \<and> mixes L c then Inl PolicyHeightTimelockCombination else Inr ())"
  by (simp add: check_timelocks_def timelock_info_value combination_iff [OF assms])

subsection \<open>Safety\<close>

text \<open>The leaves that \<open>is_safe_nonmalleable\<close> counts as safe.\<close>

fun counts_safe :: "'pk concrete \<Rightarrow> bool" where
  "counts_safe PUnsatisfiable = True"
| "counts_safe PTrivial = True"
| "counts_safe (PKey _) = True"
| "counts_safe (PTxTemplate _) = True"
| "counts_safe _ = False"

definition node_safe :: "nat \<Rightarrow> 'pk concrete \<Rightarrow> (bool \<times> bool) list \<Rightarrow> bool \<times> bool" where
  "node_safe n p xs =
     (case p of
        PInscribe _ _ \<Rightarrow> hd xs
      | PAnd _ \<Rightarrow> (list_ex fst xs, list_all snd xs)
      | POr _ \<Rightarrow> (list_all fst xs, list_ex fst xs \<and> list_all snd xs)
      | _ \<Rightarrow> (n - conc_k p + 1 \<le> length (filter fst xs),
              length (filter snd xs) = n \<and> n - conc_k p \<le> length (filter fst xs)))"

function safe_value :: "'pk concrete \<Rightarrow> bool \<times> bool" where
  "safe_value p = (if is_leaf p then (counts_safe p, True) else node_safe (length (conc_kids p)) p (map safe_value (conc_kids p)))"
  by auto
termination by (relation "measure size") (auto simp: size_conc_kids)

declare safe_value.simps [simp del]

lemma safe_folds:
  "foldl (\<lambda>a x. (fst a \<or> fst x, snd a \<and> snd x)) (False, True) xs = (list_ex fst xs, list_all snd xs)"
  "foldl (\<lambda>(a, b, c) x. (a \<and> fst x, b \<or> fst x, c \<and> snd x)) (True, False, True) xs
     = (list_all fst xs, list_ex fst xs, list_all snd xs)"
  "foldl (\<lambda>(s, m) x. (s + of_bool (fst x), m + of_bool (snd x))) (0 :: nat, 0 :: nat) xs
     = (length (filter fst xs), length (filter snd xs))"
  by (induction xs rule: rev_induct) auto

lemma is_safe_value: "is_safe_nonmalleable p = Some (safe_value p)"
proof -
  let ?g = "\<lambda>p xs. if is_leaf p then (counts_safe p, True) else node_safe (length (conc_kids p)) p xs"
  have "rtl_loop conc_tree safe_step p = Some (Inr (safe_value p))"
  proof (rule conc.rtl_loop_values [where g = ?g])
    fix q rest and xs :: "(bool \<times> bool) list"
    assume "length xs = length (tree_children conc_tree q)"
    then show "safe_step q (xs @ rest) = Some (Inr (?g q xs # rest))"
      by (cases q) (auto simp: safe_step_def node_safe_def thr_n_def length_Suc_conv safe_folds)
  qed (simp add: safe_value.simps)
  then show ?thesis by (simp add: is_safe_nonmalleable_def)
qed

lemma node_safe_count:
  assumes "conc_node_ok p" "\<not> is_leaf p" "length xs = length (conc_kids p)"
  shows "fst (node_safe (length (conc_kids p)) p xs) \<longleftrightarrow> length (conc_kids p) < conc_k p + length (filter fst xs)"
proof -
  have "list_ex fst xs \<longleftrightarrow> Suc 0 \<le> length (filter fst xs)" "list_all fst xs \<longleftrightarrow> length xs \<le> length (filter fst xs)"
    unfolding filter_ex_iff filter_all_iff by (simp_all add: list_ex_iff list_all_iff)
  then show ?thesis
    using assms by (cases p) (auto simp: node_safe_def conc_node_ok_def length_Suc_conv Suc_le_eq)
qed

lemma safe_exact:
  "conc_ok p \<Longrightarrow> fst (safe_value p) \<longleftrightarrow> (\<forall>c. chooses p c \<longrightarrow> (\<exists>l \<in> c. counts_safe l))"
proof (induction p rule: conc.tree_induct)
  case (Node p)
  show ?case
  proof (cases "is_leaf p")
    case True
    then show ?thesis by (simp add: safe_value.simps [of p] chooses_leaf_iff)
  next
    case False
    let ?ks = "conc_kids p" and ?safe = "\<lambda>i. fst (safe_value (conc_kids p ! i))"
    have ok: "conc_node_ok p" using conc_okD(1) [OF Node.prems] .
    have kid: "?safe i \<longleftrightarrow> (\<forall>c. chooses (?ks ! i) c \<longrightarrow> (\<exists>l \<in> c. counts_safe l))" if "i < length ?ks" for i
      using Node.IH [of "?ks ! i"] conc_okD(2) [OF Node.prems] that by simp
    define S where "S = {i. i < length ?ks \<and> ?safe i}"
    have S: "S \<subseteq> {..<length ?ks}" "card S = length (filter (fst \<circ> safe_value) ?ks)"
      by (auto simp: S_def length_filter_conv_card)
    have iff: "fst (safe_value p) \<longleftrightarrow> length ?ks < conc_k p + card S"
      using node_safe_count [OF ok False, of "map safe_value ?ks"]
      by (simp add: safe_value.simps [of p] False S(2) filter_map)
    show ?thesis
    proof
      assume safe: "fst (safe_value p)"
      show "\<forall>c. chooses p c \<longrightarrow> (\<exists>l \<in> c. counts_safe l)"
      proof (intro allI impI)
        fix c assume "chooses p c"
        then obtain I f where I: "I \<subseteq> {..<length ?ks}" "card I = conc_k p" "\<forall>i \<in> I. chooses (?ks ! i) (f i)" "c = (\<Union>i \<in> I. f i)"
          using chooses_nodeD [OF _ False] by blast
        have "S \<inter> I \<noteq> {}"
        proof
          assume "S \<inter> I = {}"
          then have "card (S \<union> I) = card S + card I" using finite_subset [OF S(1)] finite_subset [OF I(1)] by (intro card_Un_disjoint) auto
          moreover have "card (S \<union> I) \<le> card {..<length ?ks}" using S(1) I(1) by (intro card_mono) auto
          ultimately show False using safe iff I(2) by simp
        qed
        then show "\<exists>l \<in> c. counts_safe l" using I kid by (auto simp: S_def) blast
      qed
    next
      assume all: "\<forall>c. chooses p c \<longrightarrow> (\<exists>l \<in> c. counts_safe l)"
      show "fst (safe_value p)"
      proof (rule ccontr)
        assume "\<not> fst (safe_value p)"
        then have "conc_k p \<le> card ({..<length ?ks} - S)"
          using iff S(1) by (simp add: card_Diff_subset finite_subset)
        then obtain I where I: "I \<subseteq> {..<length ?ks} - S" "card I = conc_k p"
          using obtain_subset_with_card_n by metis
        have "\<forall>i \<in> I. \<exists>c. chooses (?ks ! i) c \<and> \<not> (\<exists>l \<in> c. counts_safe l)"
          using I(1) kid by (auto simp: S_def)
        then obtain f where f: "\<forall>i \<in> I. chooses (?ks ! i) (f i) \<and> \<not> (\<exists>l \<in> f i. counts_safe l)" by metis
        have "chooses p (\<Union>i \<in> I. f i)" by (rule chooses_node) (use False I f in auto)
        then show False using all f by blast
      qed
    qed
  qed
qed

end
