(* ===== verification/ConcLift.thy ===== *)
theory ConcLift
  imports ConcSem
begin

section \<open>Lifting concrete policies\<close>

text \<open>
  \<open>Liftable\<close> for concrete policies (\<^verbatim>\<open>policy/mod.rs\<close>): the check for mixed timelocks at
  every node, the semantic policy of the children, and a normalisation at every node.  On policies whose
  conjunctions are binary the result is a normal form with the same meaning; a conjunction of three is
  lifted to a threshold of two.
\<close>

text \<open>\<open>subs.iter().map(Liftable::lift).collect()\<close>: stops at the first error.\<close>

fun collect_lifts :: "('a \<Rightarrow> ('e + 'b) option) \<Rightarrow> 'a list \<Rightarrow> ('e + 'b list) option" where
  "collect_lifts f [] = Some (Inr [])"
| "collect_lifts f (x # xs) =
     (case f x of
        None \<Rightarrow> None
      | Some (Inl e) \<Rightarrow> Some (Inl e)
      | Some (Inr y) \<Rightarrow>
          (case collect_lifts f xs of
             None \<Rightarrow> None
           | Some (Inl e) \<Rightarrow> Some (Inl e)
           | Some (Inr ys) \<Rightarrow> Some (Inr (y # ys))))"

lemma collect_lifts_cong [fundef_cong]:
  "xs = ys \<Longrightarrow> (\<And>x. x \<in> set ys \<Longrightarrow> f x = g x) \<Longrightarrow> collect_lifts f xs = collect_lifts g ys"
  by (induction xs arbitrary: ys) (auto split: option.splits sum.splits)

text \<open>\<open>Semantic::Thresh(Threshold::new(k, semantic_subs).unwrap()).normalized()\<close>.\<close>

definition lift_thresh :: "nat \<Rightarrow> (policy_error + 'pk policy list) option \<Rightarrow> (policy_error + 'pk policy) option" where
  "lift_thresh k r =
     (case r of
        None \<Rightarrow> None
      | Some (Inl e) \<Rightarrow> Some (Inl e)
      | Some (Inr subs) \<Rightarrow> do { q \<leftarrow> unwrap_thresh k subs; q' \<leftarrow> normalized q; Some (Inr q') })"

function conc_lift :: "btc \<Rightarrow> 'pk concrete \<Rightarrow> (policy_error + 'pk policy) option" where
  "conc_lift L p =
     (case check_timelocks L p of
        None \<Rightarrow> None
      | Some (Inl e) \<Rightarrow> Some (Inl e)
      | Some (Inr _) \<Rightarrow>
          (case p of
             PInscribe i sub \<Rightarrow>
               (case conc_lift L sub of
                  None \<Rightarrow> None
                | Some (Inl e) \<Rightarrow> Some (Inl e)
                | Some (Inr q) \<Rightarrow> do { q' \<leftarrow> normalized (SInscribe i q); Some (Inr q') })
           | PAnd subs \<Rightarrow> lift_thresh 2 (collect_lifts (conc_lift L) subs)
           | POr subs \<Rightarrow> lift_thresh 1 (collect_lifts (conc_lift L) (map snd subs))
           | PThresh thresh \<Rightarrow>
               (case collect_lifts (conc_lift L) (thr_data thresh) of
                  None \<Rightarrow> None
                | Some (Inl e) \<Rightarrow> Some (Inl e)
                | Some (Inr subs) \<Rightarrow>
                    do { q' \<leftarrow> normalized (SThresh (Threshold (thr_k thresh) subs)); Some (Inr q') })
           | leaf \<Rightarrow> do { q' \<leftarrow> normalized (leaf_policy leaf); Some (Inr q') }))"
  by pat_completeness auto
termination
proof (relation "measure (size \<circ> snd)")
  fix L :: btc and p :: "'pk concrete" and subs x
  assume "p = PAnd subs" "x \<in> set subs"
  then show "((L, x), L, p) \<in> measure (size \<circ> snd)" using size_conc_kids [of x p] by simp
next
  fix L :: btc and p :: "'pk concrete" and subs x
  assume "p = POr subs" "x \<in> set (map snd subs)"
  then show "((L, x), L, p) \<in> measure (size \<circ> snd)" using size_conc_kids [of x p] by simp
next
  fix L :: btc and p :: "'pk concrete" and t x
  assume "p = PThresh t" "x \<in> set (thr_data t)"
  then show "((L, x), L, p) \<in> measure (size \<circ> snd)" using size_conc_kids [of x p] by simp
qed auto

declare conc_lift.simps [simp del]

lemma collect_lifts_map:
  "(\<And>x. x \<in> set xs \<Longrightarrow> f x = Some (Inr (h x))) \<Longrightarrow> collect_lifts f xs = Some (Inr (map h xs))"
  by (induction xs) auto

text \<open>The check fails at a node when it fails below.\<close>

lemma check_timelocks_kids:
  assumes "check_timelocks L p = Some (Inr ())" "c \<in> set (conc_kids p)"
  shows "check_timelocks L c = Some (Inr ())"
proof -
  have "\<not> is_leaf p" using assms(2) is_leaf_kids by fastforce
  then have "contains_combination (conc_info L p) = contains_combination (combine_threshold (conc_k p) (map (conc_info L) (conc_kids p)))"
    by (simp add: conc_info.simps [of L p])
  then show ?thesis
    using assms by (auto simp: check_timelocks_def timelock_info_value combine_threshold_combination list_ex_iff split: if_splits)
qed

text \<open>Binary conjunctions, as the parser makes them.\<close>

function binary_ands :: "'pk concrete \<Rightarrow> bool" where
  "binary_ands p = ((case p of PAnd subs \<Rightarrow> length subs = 2 | _ \<Rightarrow> True) \<and> (\<forall>c \<in> set (conc_kids p). binary_ands c))"
  by auto
termination by (relation "measure size") (auto simp: size_conc_kids)

declare binary_ands.simps [simp del]

lemma leaf_lift: "is_leaf p \<Longrightarrow> conc_lift L p =
    (case check_timelocks L p of None \<Rightarrow> None | Some (Inl e) \<Rightarrow> Some (Inl e)
     | Some (Inr _) \<Rightarrow> do { q' \<leftarrow> normalized (leaf_policy p); Some (Inr q') })"
  unfolding conc_lift.simps [of L p] by (cases p) (simp_all split: option.split sum.split)

lemma normalized_total: "\<exists>q'. normalized q = Some q' \<and> nf q' \<and> (\<forall>v. sem v q' = sem v q)"
  using normalized_correct [of q] by (auto simp: normalises_def)

lemma conc_lift_node:
  assumes "check_timelocks L p = Some (Inr ())" "\<not> is_leaf p" "conc_node_ok p"
    and "\<And>subs. p = PAnd subs \<Longrightarrow> length subs = 2"
    and "\<And>c. c \<in> set (conc_kids p) \<Longrightarrow> conc_lift L c = Some (Inr (h c))"
  shows "\<exists>q. conc_lift L p = Some (Inr q) \<and> nf q \<and> (\<forall>v. sem v q \<longleftrightarrow> conc_k p \<le> length (filter (sem v) (map h (conc_kids p))))"
proof -
  let ?t = "SThresh (Threshold (conc_k p) (map h (conc_kids p)))"
  have kids: "collect_lifts (conc_lift L) (conc_kids p) = Some (Inr (map h (conc_kids p)))"
    by (rule collect_lifts_map) (rule assms(5))
  obtain q where q: "normalized ?t = Some q" "nf q" "\<And>v. sem v q = sem v ?t" using normalized_total by blast
  have thresh: "lift_thresh (conc_k p) (collect_lifts (conc_lift L) (conc_kids p)) = Some (Inr q)"
    using kids q(1) assms(2,3) by (simp add: lift_thresh_def unwrap_thresh_def threshold_new_def conc_node_ok_def validate_k_n_def)
  show ?thesis
  proof (cases p)
    case (PInscribe i sub)
    obtain q' where "normalized (SInscribe i (h sub)) = Some q'" "nf q'" "\<And>v. sem v q' = sem v (SInscribe i (h sub))"
      using normalized_total by blast
    then show ?thesis using PInscribe assms(1,5) by (simp add: conc_lift.simps [of L "PInscribe _ _"] del: normalized.simps)
  next
    case (PAnd subs)
    then show ?thesis using thresh assms(1,4) q by (simp add: conc_lift.simps [of L "PAnd _"])
  next
    case (POr subs)
    then show ?thesis using thresh assms(1) q by (simp add: conc_lift.simps [of L "POr _"])
  next
    case (PThresh t)
    then show ?thesis using kids assms(1) q by (simp add: conc_lift.simps [of L "PThresh _"] del: normalized.simps)
  qed (use assms(2) in simp_all)
qed

lemma conc_lift_correct:
  "conc_ok p \<Longrightarrow> binary_ands p \<Longrightarrow> check_timelocks L p = Some (Inr ()) \<Longrightarrow>
     \<exists>q. conc_lift L p = Some (Inr q) \<and> nf q \<and> (\<forall>v. sem v q = conc_sem v p)"
proof (induction p rule: conc.tree_induct)
  case (Node p)
  show ?case
  proof (cases "is_leaf p")
    case True
    then show ?thesis
      using normalized_total [of "leaf_policy p"] Node.prems(3) by (auto simp: leaf_lift conc_sem_leaf)
  next
    case False
    have "\<exists>q. conc_lift L c = Some (Inr q) \<and> (\<forall>v. sem v q = conc_sem v c)" if "c \<in> set (conc_kids p)" for c
      using Node.IH [of c] that conc_okD(2) [OF Node.prems(1)] Node.prems(2) check_timelocks_kids [OF Node.prems(3)]
      by (auto simp: binary_ands.simps [of p])
    then obtain h where h: "\<And>c. c \<in> set (conc_kids p) \<Longrightarrow> conc_lift L c = Some (Inr (h c)) \<and> (\<forall>v. sem v (h c) = conc_sem v c)"
      by metis
    have "length (filter (sem v) (map h (conc_kids p))) = length (filter (conc_sem v) (conc_kids p))" for v
      by (rule count_cong) (use h in auto)
    moreover have "length subs = 2" if "p = PAnd subs" for subs
      using Node.prems(2) that by (simp add: binary_ands.simps [of "PAnd _"])
    ultimately show ?thesis
      using conc_lift_node [OF Node.prems(3) False conc_okD(1) [OF Node.prems(1)], of h] h
      by (auto simp: conc_sem.simps [of _ p] False)
  qed
qed

text \<open>Without that restriction the threshold has the wrong size: the constant is two whatever the number of
  conjuncts.\<close>

lemma lift_of_three:
  "conc_lift L (PAnd [PKey 1, PKey 2, PKey (3 :: nat)]) = Some (Inr (SThresh (Threshold 2 [SKey 1, SKey 2, SKey 3])))"
  by (simp add: conc_lift.simps check_timelocks_def timelock_info_value conc_info.simps combine_threshold_def
      timelock_info_new_def lift_thresh_def unwrap_thresh_def threshold_new_def validate_k_n_def normalize_thresh_def
      flatten_sub_def Let_def)

end
