(* ===== verification/ConcTap.thy ===== *)
theory ConcTap
  imports ConcLift
begin

section \<open>Rearranging a policy for Taproot\<close>

text \<open>
  The parts of the compilation to Taproot that rearrange a concrete policy: the iterator over the leaves
  of the root-level disjunctions (\<open>TapleafProbabilityIter\<close>), the extraction of the internal key, the
  checks on arity and on the number of leaves, and one step of the enumeration of thresholds.  The
  operations of \<open>f64\<close> are fields of a record; comparing \<open>NaN\<close> is a panic (\<open>None\<close>).
\<close>

record 'f f64_ops =
  f_one :: 'f
  f_of_usize :: "nat \<Rightarrow> 'f"
  f_mul :: "'f \<Rightarrow> 'f \<Rightarrow> 'f"
  f_div :: "'f \<Rightarrow> 'f \<Rightarrow> 'f"
  f_greater :: "'f \<Rightarrow> 'f \<Rightarrow> bool option"

datatype compiler_error =
    NonBinaryArgAnd
  | NonBinaryArgOr
  | TopLevelNonSafe
  | ImpossibleNonMalleableCompilation
  | LimitsExceeded
  | TooManyTapleaves nat nat
  | NoInternalKey
  | CompilerPolicyError policy_error

definition MAX_COMPILATION_LEAVES :: nat where "MAX_COMPILATION_LEAVES = 1024"

subsection \<open>Operations\<close>

fun check_binary_nodes :: "'pk concrete list \<Rightarrow> compiler_error + unit" where
  "check_binary_nodes [] = Inr ()"
| "check_binary_nodes (PAnd subs # ps) =
     (if length subs \<noteq> 2 then Inl NonBinaryArgAnd else check_binary_nodes ps)"
| "check_binary_nodes (POr subs # ps) =
     (if length subs \<noteq> 2 then Inl NonBinaryArgOr else check_binary_nodes ps)"
| "check_binary_nodes (_ # ps) = check_binary_nodes ps"

definition check_binary_ops :: "'pk concrete \<Rightarrow> (compiler_error + unit) option" where
  "check_binary_ops p = map_option check_binary_nodes (pre_order_iter conc_tree p)"

lemma size_alternatives: "sum_list (map (size \<circ> snd) subs) < size (POr subs)"
  by (induction subs) auto

lemma size_members: "sum_list (map size (thr_data t)) < size (PThresh t)"
proof -
  have "sum_list (map size ps) < Suc (size_list size ps)" for ps :: "'a concrete list" by (induction ps) auto
  then show ?thesis by (cases t) (auto intro: less_SucI)
qed

text \<open>The stack of the iterator, top first.\<close>

function tapleaf_next ::
    "'f f64_ops \<Rightarrow> ('f \<times> 'pk concrete) list \<Rightarrow> (('f \<times> 'pk concrete) \<times> ('f \<times> 'pk concrete) list) option" where
  "tapleaf_next F stack =
     (case stack of
        [] \<Rightarrow> None
      | (top_prob, node) # rest \<Rightarrow>
          (case node of
             POr subs \<Rightarrow>
               (let total_sub_prob = sum_list (map fst subs) in
                tapleaf_next F
                  (map (\<lambda>(sub_prob, sub).
                          (f_mul F top_prob (f_div F (f_of_usize F sub_prob) (f_of_usize F total_sub_prob)), sub))
                     subs @ rest))
           | PThresh thresh \<Rightarrow>
               (if is_or thresh
                then tapleaf_next F (map (\<lambda>sub. (f_div F top_prob (f_of_usize F (thr_n thresh)), sub)) (thr_data thresh) @ rest)
                else Some ((top_prob, node), rest))
           | _ \<Rightarrow> Some ((top_prob, node), rest)))"
  by auto
termination
  using size_members size_alternatives
  by (relation "measure (\<lambda>(F, stack). sum_list (map (size \<circ> snd) stack))")
    (auto simp: comp_def case_prod_beta simp del: concrete.size)

declare tapleaf_next.simps [simp del]

definition tapleaf_probability_iter :: "'f f64_ops \<Rightarrow> 'pk concrete \<Rightarrow> ('f \<times> 'pk concrete) list option" where
  "tapleaf_probability_iter F p = drain (\<lambda>s. Some (tapleaf_next F s)) [(f_one F, p)]"

definition num_tap_leaves :: "'f f64_ops \<Rightarrow> 'pk concrete \<Rightarrow> nat option" where
  "num_tap_leaves F p = map_option length (tapleaf_probability_iter F p)"

definition check_num_tapleaves :: "'f f64_ops \<Rightarrow> 'pk concrete \<Rightarrow> (compiler_error + unit) option" where
  "check_num_tapleaves F p =
     do { n \<leftarrow> num_tap_leaves F p;
          Some (if n > MAX_COMPILATION_LEAVES then Inl (TooManyTapleaves n MAX_COMPILATION_LEAVES) else Inr ()) }"

text \<open>\<open>max_by_key\<close> returns the last of the greatest elements.\<close>

fun max_by_prob :: "'f f64_ops \<Rightarrow> 'f \<times> 'a \<Rightarrow> ('f \<times> 'a) list \<Rightarrow> ('f \<times> 'a) option" where
  "max_by_prob F x [] = Some x"
| "max_by_prob F x (y # ys) =
     do { g \<leftarrow> f_greater F (fst x) (fst y); max_by_prob F (if g then x else y) ys }"

definition extract_key ::
    "'f f64_ops \<Rightarrow> 'pk option \<Rightarrow> 'pk concrete \<Rightarrow> (compiler_error + 'pk \<times> 'pk concrete) option" where
  "extract_key F unspendable_key p =
     do { items \<leftarrow> tapleaf_probability_iter F p;
          let keys = List.map_filter (\<lambda>(prob, pol). case pol of PKey pk \<Rightarrow> Some (prob, pk) | _ \<Rightarrow> None) items;
          internal_key \<leftarrow> (case keys of
             [] \<Rightarrow> Some None
           | x # xs \<Rightarrow> map_option (\<lambda>(_, pk). Some pk) (max_by_prob F x xs));
          case (internal_key, unspendable_key) of
            (Some key, _) \<Rightarrow> do { q \<leftarrow> translate_unsatisfiable_pk key p; Some (Inr (key, q)) }
          | (None, Some key) \<Rightarrow> Some (Inr (key, p))
          | (None, None) \<Rightarrow> Some (Inl NoInternalKey) }"

text \<open>The thresholds that leave out one child each; \<open>from_iter\<close> gets an iterator whose lower bound is 0.\<close>

definition leave_out :: "nat \<Rightarrow> 'a list \<Rightarrow> 'a list" where
  "leave_out i xs = map ((!) xs) (filter (\<lambda>j. j \<noteq> i) [0..<length xs])"

definition generate_combination ::
    "'f f64_ops \<Rightarrow> 'pk concrete threshold \<Rightarrow> 'f \<Rightarrow> ('f \<times> 'pk concrete) list option" where
  "generate_combination F thresh prob =
     mapM (\<lambda>i. case threshold_from_iter 0 0 (thr_k thresh) (leave_out i (thr_data thresh)) of
                 Inl _ \<Rightarrow> None
               | Inr thresh_less_1 \<Rightarrow> Some (f_div F prob (f_of_usize F (thr_n thresh)), PThresh thresh_less_1))
       [0..<thr_n thresh]"

definition enumerate_pol :: "'f f64_ops \<Rightarrow> 'f \<Rightarrow> 'pk concrete \<Rightarrow> ('f \<times> 'pk concrete) list option" where
  "enumerate_pol F prob p =
     (case p of
        POr subs \<Rightarrow>
          (let total_odds = sum_list (map fst subs) in
           Some (map (\<lambda>(odds, pol). (f_div F (f_mul F prob (f_of_usize F odds)) (f_of_usize F total_odds), pol)) subs))
      | PThresh thresh \<Rightarrow>
          (if is_or thresh then Some (map (\<lambda>pol. (f_div F prob (f_of_usize F (thr_n thresh)), pol)) (thr_data thresh))
           else if \<not> is_and thresh then generate_combination F thresh prob
           else Some [(prob, p)])
      | _ \<Rightarrow> Some [(prob, p)])"

subsection \<open>The leaves of the root-level disjunctions\<close>

function tap_leaves :: "'pk concrete \<Rightarrow> 'pk concrete list" where
  "tap_leaves p =
     (case p of
        POr subs \<Rightarrow> concat (map tap_leaves (map snd subs))
      | PThresh t \<Rightarrow> (if is_or t then concat (map tap_leaves (thr_data t)) else [p])
      | _ \<Rightarrow> [p])"
  by auto
termination
proof (relation "measure size")
  fix p :: "'pk concrete" and subs x
  assume "p = POr subs" "x \<in> set (map snd subs)"
  then show "(x, p) \<in> measure size" using size_conc_kids [of x p] by simp
next
  fix p :: "'pk concrete" and t x
  assume "p = PThresh t" "x \<in> set (thr_data t)"
  then show "(x, p) \<in> measure size" using size_conc_kids [of x p] by simp
qed simp

declare tap_leaves.simps [simp del]

lemma tap_leaves_simps:
  "tap_leaves (POr subs) = concat (map (tap_leaves \<circ> snd) subs)"
  "tap_leaves (PThresh t) = (if is_or t then concat (map tap_leaves (thr_data t)) else [PThresh t])"
  "(\<forall>subs. p \<noteq> POr subs) \<Longrightarrow> (\<forall>t. p \<noteq> PThresh t) \<Longrightarrow> tap_leaves p = [p]"
  by (simp_all add: tap_leaves.simps [of "POr _"] tap_leaves.simps [of "PThresh _"] tap_leaves.simps [of p]
      split: concrete.split)

text \<open>One call of the iterator: it opens the disjunctions on top of the stack until it finds a leaf.\<close>

lemma tapleaf_next_leaf:
  "(\<forall>subs. p \<noteq> POr subs) \<Longrightarrow> (\<forall>t. p = PThresh t \<longrightarrow> \<not> is_or t) \<Longrightarrow>
     tapleaf_next F ((pr, p) # rest) = Some ((pr, p), rest)"
  by (simp add: tapleaf_next.simps [of F "(pr, p) # rest"] split: concrete.split)

lemma drain_tapleaf:
  "\<exists>xs. drain (\<lambda>s. Some (tapleaf_next F s)) stack = Some xs \<and> map snd xs = concat (map (tap_leaves \<circ> snd) stack)"
proof (induction "sum_list (map (size \<circ> snd) stack)" arbitrary: stack rule: less_induct)
  case less
  let ?d = "drain (\<lambda>s. Some (tapleaf_next F s))"
  show ?case
  proof (cases stack)
    case Nil
    then show ?thesis by (simp add: drain.simps [of _ "[]"] tapleaf_next.simps [of F "[]"])
  next
    case (Cons x rest)
    obtain pr node where x: "x = (pr, node)" by (cases x)
    have again: "?d stack = ?d st'" if "tapleaf_next F stack = tapleaf_next F st'" for st'
      using that by (simp add: drain.simps [of _ stack] drain.simps [of _ st'])
    consider (Or) subs where "node = POr subs" | (Thresh) t where "node = PThresh t" "is_or t"
      | (Leaf) "\<forall>subs. node \<noteq> POr subs" "\<forall>t. node = PThresh t \<longrightarrow> \<not> is_or t"
      by (cases node) auto
    then show ?thesis
    proof cases
      case Or
      define st' where "st' = map (\<lambda>(q, s). (f_mul F pr (f_div F (f_of_usize F q) (f_of_usize F (sum_list (map fst subs)))), s)) subs @ rest"
      have "?d stack = ?d st'"
        by (rule again) (simp add: Cons x Or st'_def tapleaf_next.simps [of F "(pr, POr subs) # rest"] Let_def)
      moreover have "sum_list (map (size \<circ> snd) st') < sum_list (map (size \<circ> snd) stack)"
        using size_alternatives [of subs] by (simp add: st'_def Cons x Or comp_def case_prod_beta del: concrete.size)
      ultimately show ?thesis
        using less [of st'] by (auto simp: Cons x Or st'_def tap_leaves_simps comp_def case_prod_beta)
    next
      case Thresh
      define st' where "st' = map (Pair (f_div F pr (f_of_usize F (thr_n t)))) (thr_data t) @ rest"
      have "?d stack = ?d st'"
        by (rule again) (simp add: Cons x Thresh st'_def tapleaf_next.simps [of F "(pr, PThresh t) # rest"])
      moreover have "sum_list (map (size \<circ> snd) st') < sum_list (map (size \<circ> snd) stack)"
        using size_members [of t] by (simp add: st'_def Cons x Thresh comp_def del: concrete.size)
      ultimately show ?thesis
        using less [of st'] by (auto simp: Cons x Thresh st'_def tap_leaves_simps comp_def)
    next
      case Leaf
      have "tap_leaves node = [node]" using Leaf by (cases node) (simp_all add: tap_leaves_simps)
      moreover have "tapleaf_next F stack = Some ((pr, node), rest)" using tapleaf_next_leaf [OF Leaf] Cons x by simp
      moreover have "0 < size node" by (cases node) simp_all
      ultimately show ?thesis
        using less [of rest] by (auto simp: Cons x drain.simps [of _ "(pr, node) # rest"])
    qed
  qed
qed

lemma tapleaf_iter: "\<exists>xs. tapleaf_probability_iter F p = Some xs \<and> map snd xs = tap_leaves p"
  using drain_tapleaf [of F "[(f_one F, p)]"] by (simp add: tapleaf_probability_iter_def)

text \<open>A policy is the disjunction of these leaves.\<close>

lemma sem_tap_leaves: "conc_ok p \<Longrightarrow> conc_sem v p \<longleftrightarrow> (\<exists>l \<in> set (tap_leaves p). conc_sem v l)"
proof (induction p rule: conc.tree_induct)
  case (Node p)
  have IH: "conc_sem v c \<longleftrightarrow> (\<exists>l \<in> set (tap_leaves c). conc_sem v l)" if "c \<in> set (conc_kids p)" for c
    using Node.IH that conc_okD(2) [OF Node.prems] by simp
  show ?case
  proof (cases p)
    case (POr subs)
    then show ?thesis using IH by (auto simp: tap_leaves_simps)
  next
    case (PThresh t)
    show ?thesis
    proof (cases "is_or t")
      case True
      then show ?thesis using IH PThresh by (auto simp: tap_leaves_simps is_or_def filter_ex_iff)
    qed (simp add: PThresh tap_leaves_simps)
  qed (simp_all add: tap_leaves_simps)
qed

subsection \<open>Replacing leaves\<close>

function (sequential) map_conc :: "('pk concrete \<Rightarrow> 'q concrete) \<Rightarrow> 'pk concrete \<Rightarrow> 'q concrete" where
  "map_conc f (PInscribe i s) = PInscribe i (map_conc f s)"
| "map_conc f (PAnd ss) = PAnd (map (map_conc f) ss)"
| "map_conc f (POr ss) = POr (zip (map fst ss) (map (map_conc f) (map snd ss)))"
| "map_conc f (PThresh t) = PThresh (Threshold (thr_k t) (map (map_conc f) (thr_data t)))"
| "map_conc f p = f p"
  by pat_completeness auto
termination
proof (relation "measure (size \<circ> snd)")
  fix f :: "'pk concrete \<Rightarrow> 'q concrete" and ss :: "(nat \<times> 'pk concrete) list" and x
  assume "x \<in> set (map snd ss)"
  then show "((f, x), f, POr ss) \<in> measure (size \<circ> snd)" using size_conc_kids [of x "POr ss"] by simp
next
  fix f :: "'pk concrete \<Rightarrow> 'q concrete" and ss :: "'pk concrete list" and x
  assume "x \<in> set ss"
  then show "((f, x), f, PAnd ss) \<in> measure (size \<circ> snd)" using size_conc_kids [of x "PAnd ss"] by simp
next
  fix f :: "'pk concrete \<Rightarrow> 'q concrete" and t :: "'pk concrete threshold" and x
  assume "x \<in> set (thr_data t)"
  then show "((f, x), f, PThresh t) \<in> measure (size \<circ> snd)" using size_conc_kids [of x "PThresh t"] by simp
qed simp_all

lemma map_conc_leaf: "is_leaf p \<Longrightarrow> map_conc f p = f p"
  by (cases p) simp_all

lemma map_conc_node: "\<not> is_leaf p \<Longrightarrow>
    \<not> is_leaf (map_conc f p) \<and> conc_k (map_conc f p) = conc_k p \<and> conc_kids (map_conc f p) = map (map_conc f) (conc_kids p)"
  by (cases p) simp_all

lemma conc_rebuild_map:
  "\<not> is_leaf p \<Longrightarrow> conc_rebuild p (map (map_conc f) (conc_kids p) @ rest) = Some (map_conc f p # rest)"
  by (cases p) (simp_all add: conc_rebuild_def thr_n_def)

text \<open>The leaves of a policy.\<close>

function conc_leaves :: "'pk concrete \<Rightarrow> 'pk concrete list" where
  "conc_leaves p = (if is_leaf p then [p] else concat (map conc_leaves (conc_kids p)))"
  by auto
termination by (relation "measure size") (auto simp: size_conc_kids)

declare conc_leaves.simps [simp del]

lemma sem_map_conc:
  assumes "\<And>l. is_leaf l \<Longrightarrow> l \<in> set (conc_leaves p) \<Longrightarrow> conc_sem v (f l) = conc_sem w l"
  shows "conc_sem v (map_conc f p) = conc_sem w p"
  using assms
proof (induction p rule: conc.tree_induct)
  case (Node p)
  show ?case
  proof (cases "is_leaf p")
    case True
    then show ?thesis using Node.prems [of p] by (simp add: map_conc_leaf conc_leaves.simps)
  next
    case False
    have "conc_sem v (map_conc f c) = conc_sem w c" if "c \<in> set (conc_kids p)" for c
      using Node.IH [of c] Node.prems that False by (auto simp: conc_leaves.simps [of p])
    then have "map (conc_sem v) (map (map_conc f) (conc_kids p)) = map (conc_sem w) (conc_kids p)" by simp
    from count_cong [OF this] show ?thesis
      using map_conc_node [OF False, of f] False by (simp add: conc_sem.simps [of v "map_conc f p"] conc_sem.simps [of w p])
  qed
qed

lemma translate_unsatisfiable_value:
  "translate_unsatisfiable_pk key p = Some (map_conc (\<lambda>l. if l = PKey key then PUnsatisfiable else l) p)"
proof -
  let ?f = "\<lambda>l. if l = PKey key then PUnsatisfiable else l"
  let ?g = "\<lambda>p qs. if is_leaf p then ?f p else hd (the (conc_rebuild p qs))"
  have "rtl_loop conc_tree (unsatisfiable_pk_step key) p = Some (Inr (map_conc ?f p))"
  proof (rule conc.rtl_loop_values [where g = ?g])
    fix q :: "'a concrete" and rest and qs :: "'a concrete list"
    assume len: "length qs = length (tree_children conc_tree q)"
    show "unsatisfiable_pk_step key q (qs @ rest) = Some (Inr (?g q qs # rest))"
      using len by (cases q) (auto simp: unsatisfiable_pk_step_def conc_rebuild_def thr_n_def length_Suc_conv pop_n_def)
  next
    fix q
    show "?g q (map (map_conc ?f) (tree_children conc_tree q)) = map_conc ?f q"
      using conc_rebuild_map [of q ?f "[]"] by (simp add: map_conc_leaf)
  qed
  then show ?thesis by (simp add: translate_unsatisfiable_pk_def)
qed

text \<open>The translation makes the key unavailable and changes nothing else.\<close>

lemma sem_translate_unsatisfiable:
  assumes "translate_unsatisfiable_pk key p = Some q"
  shows "conc_sem v q = conc_sem (v(SKey key := False)) p"
proof -
  let ?f = "\<lambda>l. if l = PKey key then PUnsatisfiable else l"
  have "conc_sem v (map_conc ?f p) = conc_sem (v(SKey key := False)) p"
  proof (rule sem_map_conc)
    fix l :: "'a concrete"
    assume "is_leaf l"
    then show "conc_sem v (?f l) = conc_sem (v(SKey key := False)) l" by (cases l) (simp_all add: conc_sem_leaf)
  qed
  then show ?thesis using assms by (simp add: translate_unsatisfiable_value)
qed

subsection \<open>The internal key\<close>

lemma max_by_prob_in: "max_by_prob F x xs = Some y \<Longrightarrow> y = x \<or> y \<in> set xs"
proof (induction xs arbitrary: x)
  case (Cons z xs)
  then obtain g where "max_by_prob F (if g then x else z) xs = Some y" by (auto simp: bind_eq_Some_conv)
  from Cons.IH [OF this] show ?case by (cases g) auto
qed simp

text \<open>The probabilities of the leaves can be compared: none of them is \<open>NaN\<close>.\<close>

definition comparable :: "'f f64_ops \<Rightarrow> 'pk concrete \<Rightarrow> bool" where
  "comparable F p =
     (case tapleaf_probability_iter F p of
        None \<Rightarrow> True
      | Some items \<Rightarrow> list_all (\<lambda>x. list_all (\<lambda>y. f_greater F (fst x) (fst y) \<noteq> None) items) items)"

lemma max_by_prob_total:
  "(\<forall>a \<in> S. \<forall>b \<in> S. f_greater F (fst a) (fst b) \<noteq> None) \<Longrightarrow> x \<in> S \<Longrightarrow> set xs \<subseteq> S \<Longrightarrow>
     max_by_prob F x xs \<noteq> None"
proof (induction xs arbitrary: x)
  case (Cons z xs)
  then have "f_greater F (fst x) (fst z) \<noteq> None" by (metis insert_subset list.simps(15))
  then obtain g where g: "f_greater F (fst x) (fst z) = Some g" by blast
  have "max_by_prob F (if g then x else z) xs \<noteq> None"
    by (rule Cons.IH [OF Cons.prems(1)]) (use Cons.prems(2,3) in simp_all)
  then show ?case by (simp add: g)
qed simp

lemma extract_key_total:
  assumes "comparable F p"
  shows "\<exists>r. extract_key F unspendable_key p = Some r
    \<and> (r = Inl e \<longrightarrow> e = NoInternalKey \<and> unspendable_key = None \<and> (\<forall>k. PKey k \<notin> set (tap_leaves p)))"
proof -
  obtain items where items: "tapleaf_probability_iter F p = Some items" "map snd items = tap_leaves p"
    using tapleaf_iter by blast
  define keys where "keys = List.map_filter (\<lambda>(prob, pol). case pol of PKey pk \<Rightarrow> Some (prob, pk) | _ \<Rightarrow> None) items"
  have key_in: "\<exists>pol. (fst a, pol) \<in> set items" if "a \<in> set keys" for a
    using that unfolding keys_def by (auto simp: map_filter_def split: concrete.splits)
  have cmp: "f_greater F (fst a) (fst b) \<noteq> None" if ab: "a \<in> set keys" "b \<in> set keys" for a b
  proof -
    obtain pa pb where "(fst a, pa) \<in> set items" "(fst b, pb) \<in> set items"
      using key_in [OF ab(1)] key_in [OF ab(2)] by blast
    moreover have "\<forall>x \<in> set items. \<forall>y \<in> set items. f_greater F (fst x) (fst y) \<noteq> None"
      using assms items(1) by (simp add: comparable_def list_all_iff)
    ultimately show ?thesis by fastforce
  qed
  show ?thesis
  proof (cases keys)
    case Nil
    have none: "PKey k \<notin> set (tap_leaves p)" for k
    proof
      assume "PKey k \<in> set (tap_leaves p)"
      then obtain prob where "(prob, PKey k) \<in> set items" using items(2) by (metis imageE prod.collapse set_map)
      then have "(prob, k) \<in> set keys" by (force simp: keys_def map_filter_def)
      then show False using Nil by simp
    qed
    then show ?thesis
      by (cases unspendable_key) (auto simp: extract_key_def items(1) keys_def [symmetric] Nil)
  next
    case (Cons x xs)
    then obtain y where "max_by_prob F x xs = Some y" using max_by_prob_total [of "set keys" F x xs] cmp by fastforce
    then show ?thesis
      by (simp add: extract_key_def items(1) keys_def [symmetric] Cons translate_unsatisfiable_value case_prod_beta)
  qed
qed

lemma extract_key_splits:
  assumes "conc_ok p" "extract_key F unspendable_key p = Some (Inr (key, q))"
  shows "(PKey key \<in> set (tap_leaves p) \<and> (\<forall>v. conc_sem v p \<longleftrightarrow> v (SKey key) \<or> conc_sem v q))
    \<or> (unspendable_key = Some key \<and> q = p)"
proof -
  obtain items where items: "tapleaf_probability_iter F p = Some items" "map snd items = tap_leaves p"
    using tapleaf_iter by blast
  define keys where "keys = List.map_filter (\<lambda>(prob, pol). case pol of PKey pk \<Rightarrow> Some (prob, pk) | _ \<Rightarrow> None) items"
  have keys: "PKey pk \<in> set (tap_leaves p)" if "(pr, pk) \<in> set keys" for pr pk
    using that unfolding keys_def items(2) [symmetric]
    by (auto simp: map_filter_def split: concrete.splits) (metis image_eqI snd_conv)
  show ?thesis
  proof (cases keys)
    case Nil
    then show ?thesis using assms(2) items(1) by (auto simp: extract_key_def keys_def [symmetric] split: option.splits)
  next
    case (Cons x xs)
    then obtain y where y: "max_by_prob F x xs = Some y"
      using assms(2) items(1) by (cases "max_by_prob F x xs") (auto simp: extract_key_def keys_def [symmetric])
    have q: "translate_unsatisfiable_pk (snd y) p = Some q" "snd y = key"
      using assms(2) items(1) y Cons by (auto simp: extract_key_def keys_def [symmetric] bind_eq_Some_conv case_prod_beta)
    have "y \<in> set keys" using max_by_prob_in [OF y] Cons by auto
    then have "(fst y, key) \<in> set keys" using q(2) by (metis prod.collapse)
    then have leaf: "PKey key \<in> set (tap_leaves p)" by (rule keys)
    have "conc_sem v p \<longleftrightarrow> v (SKey key) \<or> conc_sem v q" for v
    proof (cases "v (SKey key)")
      case True
      then show ?thesis using sem_tap_leaves [OF assms(1), of v] leaf by force
    next
      case False
      then have "v(SKey key := False) = v" by (simp add: fun_upd_idem)
      then show ?thesis using sem_translate_unsatisfiable [of key p q v] q False by simp
    qed
    with leaf show ?thesis by blast
  qed
qed

subsection \<open>Enumeration\<close>

lemma leave_out_count:
  assumes "i < length xs"
  shows "length (filter P (leave_out i xs)) + (if P (xs ! i) then 1 else 0) = length (filter P xs)"
    and "length (leave_out i xs) + 1 = length xs"
proof -
  have "leave_out i xs = take i xs @ drop (Suc i) xs"
  proof -
    have "[0..<length xs] = [0..<i] @ i # [Suc i..<length xs]"
      using assms by (metis le_add1 less_imp_add_positive upt_add_eq_append upt_conv_Cons add_0)
    then have "filter (\<lambda>j. j \<noteq> i) [0..<length xs] = [0..<i] @ [Suc i..<length xs]" by simp
    moreover have "map ((!) xs) [0..<i] = take i xs" using assms by (auto intro: nth_equalityI)
    moreover have "map ((!) xs) [Suc i..<length xs] = drop (Suc i) xs" by (auto intro: nth_equalityI)
    ultimately show ?thesis by (simp add: leave_out_def)
  qed
  then have split: "leave_out i xs = take i xs @ drop (Suc i) xs" by simp
  have "length (filter P xs) = length (filter P (take i xs @ xs ! i # drop (Suc i) xs))"
    using id_take_nth_drop [OF assms] by simp
  then show "length (filter P (leave_out i xs)) + (if P (xs ! i) then 1 else 0) = length (filter P xs)"
    by (simp add: split)
  show "length (leave_out i xs) + 1 = length xs" using assms by (simp add: split)
qed

text \<open>More than \<open>k\<close> elements: \<open>k\<close> of them meet \<open>P\<close> exactly when that is so without some element.\<close>

lemma leave_out_exists:
  assumes "k < length xs"
  shows "(\<exists>i < length xs. k \<le> length (filter P (leave_out i xs))) \<longleftrightarrow> k \<le> length (filter P xs)"
proof
  assume "\<exists>i < length xs. k \<le> length (filter P (leave_out i xs))"
  then show "k \<le> length (filter P xs)"
    using leave_out_count(1) [of _ xs P] by (metis le_add1 le_trans)
next
  assume le: "k \<le> length (filter P xs)"
  show "\<exists>i < length xs. k \<le> length (filter P (leave_out i xs))"
  proof (cases "\<exists>i < length xs. \<not> P (xs ! i)")
    case True
    then obtain i where "i < length xs" "\<not> P (xs ! i)" by blast
    with le leave_out_count(1) [of i xs P] show ?thesis by auto
  next
    case False
    then have "filter P xs = xs" by (auto simp: filter_id_conv in_set_conv_nth)
    moreover have pos: "0 < length xs" using assms by linarith
    ultimately have "k \<le> length (filter P (leave_out 0 xs))"
      using leave_out_count(1) [OF pos, of P] assms by (simp split: if_splits)
    then show ?thesis using pos by blast
  qed
qed

lemma enumerate_pol_sem:
  assumes "conc_ok p"
  shows "\<exists>xs. enumerate_pol F prob p = Some xs \<and> (\<forall>v. conc_sem v p \<longleftrightarrow> (\<exists>q \<in> snd ` set xs. conc_sem v q))"
proof (cases p)
  case (POr subs)
  then show ?thesis by (force simp: enumerate_pol_def)
next
  case (PThresh t)
  have k: "0 < thr_k t" "thr_k t \<le> length (thr_data t)"
    using conc_okD(1) [OF assms] PThresh by (simp_all add: conc_node_ok_def)
  consider (Or) "is_or t" | (And) "\<not> is_or t" "is_and t" | (Mid) "\<not> is_or t" "\<not> is_and t" by blast
  then show ?thesis
  proof cases
    case Or
    then show ?thesis using PThresh by (force simp: enumerate_pol_def is_or_def filter_ex_iff)
  next
    case And
    then show ?thesis using PThresh by (auto simp: enumerate_pol_def)
  next
    case Mid
    then have lt: "thr_k t < length (thr_data t)" using k(2) by (simp add: is_and_def)
    let ?sub = "\<lambda>i. (f_div F prob (f_of_usize F (thr_n t)), PThresh (Threshold (thr_k t) (leave_out i (thr_data t))))"
    have new: "threshold_from_iter 0 0 (thr_k t) (leave_out i (thr_data t)) = Inr (Threshold (thr_k t) (leave_out i (thr_data t)))"
      if "i < length (thr_data t)" for i
      using leave_out_count(2) [OF that] lt k(1)
      by (simp add: threshold_from_iter_eq_new threshold_new_def validate_k_n_def)
    have "generate_combination F t prob = mapM (\<lambda>i. Some (?sub i)) [0..<thr_n t]"
      unfolding generate_combination_def by (rule mapM_cong) (simp_all add: new thr_n_def)
    then have result: "enumerate_pol F prob p = Some (map ?sub [0..<thr_n t])"
      using PThresh Mid by (simp add: enumerate_pol_def)
    have "(\<exists>q \<in> snd ` set (map ?sub [0..<thr_n t]). conc_sem v q) \<longleftrightarrow> conc_sem v p" for v
      using leave_out_exists [OF lt, of "conc_sem v"] by (force simp: thr_n_def PThresh)
    then show ?thesis using result by blast
  qed
qed (auto simp: enumerate_pol_def)

subsection \<open>Keys and translation\<close>

lemma check_duplicate_keys_iff: "check_duplicate_keys p = Inr () \<longleftrightarrow> distinct (conc_keys p)"
  using card_length [of "conc_keys p"] by (auto simp: check_duplicate_keys_def Let_def distinct_card card_distinct)

lemma conc_translate_value:
  fixes f :: "'pk concrete \<Rightarrow> 'q concrete"
  assumes "\<And>l. is_leaf l \<Longrightarrow> conc_translate_leaf T l = Inr (f l)"
  shows "conc_translate_pk T p = Some (Inr (map_conc f p))"
  unfolding conc_translate_pk_def
proof (rule conc.rtl_loop_values [where g = "\<lambda>p qs. if is_leaf p then f p else hd (the (conc_rebuild p qs))"])
  fix q :: "'pk concrete" and rest qs :: "'q concrete list"
  assume "length qs = length (tree_children conc_tree q)"
  then show "conc_translate_step T q (qs @ rest) = Some (Inr ((if is_leaf q then f q else hd (the (conc_rebuild q qs))) # rest))"
    using assms [of q]
    by (cases q) (auto simp: conc_translate_step_def conc_rebuild_def thr_n_def length_Suc_conv pop_n_def)
next
  fix q :: "'pk concrete"
  show "(if is_leaf q then f q else hd (the (conc_rebuild q (map (map_conc f) (tree_children conc_tree q))))) = map_conc f q"
    using conc_rebuild_map [of q f "[]"] by (simp add: map_conc_leaf)
qed

end
