(* ===== verification/InterpPolicy.thy ===== *)
theory InterpPolicy
  imports InterpSafe Lift SatShape
begin

section \<open>What an accepted run proves\<close>

text \<open>
  The converse of \<open>InterpRuns\<close>.  A run that the interpreter accepts, whatever the stack it started from,
  reports constraints that satisfy the policy of the script.  \<open>accepts I cs fin s\<close> says that from the
  state \<open>s\<close> the machine reaches the end without an error and reports nothing outside \<open>cs\<close>; one lemma
  per fragment cuts an accepting run after the fragment and says what its result means.
\<close>

subsection \<open>Constraints as evidence\<close>

text \<open>The constraint \<open>c\<close> is evidence for the leaf \<open>l\<close> of a policy.\<close>

fun claims :: "interp_env \<Rightarrow> bitcoin_key policy \<Rightarrow> satisfied_constraint \<Rightarrow> bool" where
  "claims I (SKey pk) (CPublicKey ks) = (key_of_pair ks = pk)"
| "claims I (SKey pk) (CPublicKeyHash h ks) = (h = to_pubkeyhash (ie_lib I) (ie_sig_type I) pk)"
| "claims I (SAfter t) (CAbsoluteTimelock n) = (n = abs_lock_of (ie_lib I) t)"
| "claims I (SOlder t) (CRelativeTimelock n) = (rel_lock_of (ie_lib I) t = Some n)"
| "claims I (SSha256 h) (CHashLock k p) = (k = LockSha256 h)"
| "claims I (SHash256 h) (CHashLock k p) = (k = LockHash256 h)"
| "claims I (SHash160 h) (CHashLock k p) = (k = LockHash160 h)"
| "claims I (SRipemd160 h) (CHashLock k p) = (k = LockRipemd160 h)"
| "claims I (STxTemplate h) (CTxTemplate h') = (h = h')"
| "claims I _ _ = False"

definition reported :: "interp_env \<Rightarrow> satisfied_constraint list \<Rightarrow> bitcoin_key policy \<Rightarrow> bool" where
  "reported I cs l = list_ex (claims I l) cs"

definition reported_hash :: "satisfied_constraint list \<Rightarrow> hash \<Rightarrow> bool" where
  "reported_hash cs h = list_ex (\<lambda>c. case c of CPublicKeyHash h' _ \<Rightarrow> h' = h | _ \<Rightarrow> False) cs"

lemma reportedI: "c \<in> set cs \<Longrightarrow> claims I l c \<Longrightarrow> reported I cs l"
  by (auto simp: reported_def list_ex_iff)

lemma reported_intros:
  "CPublicKey ks \<in> set cs \<Longrightarrow> key_of_pair ks = pk \<Longrightarrow> reported I cs (SKey pk)"
  "CPublicKeyHash (to_pubkeyhash (ie_lib I) (ie_sig_type I) pk) ks \<in> set cs \<Longrightarrow> reported I cs (SKey pk)"
  "CAbsoluteTimelock n \<in> set cs \<Longrightarrow> abs_lock_of (ie_lib I) t = n \<Longrightarrow> reported I cs (SAfter t)"
  "CRelativeTimelock r \<in> set cs \<Longrightarrow> rel_lock_of (ie_lib I) q = Some r \<Longrightarrow> reported I cs (SOlder q)"
  "CHashLock (LockSha256 h) p \<in> set cs \<Longrightarrow> reported I cs (SSha256 h)"
  "CHashLock (LockHash256 h) p \<in> set cs \<Longrightarrow> reported I cs (SHash256 h)"
  "CHashLock (LockHash160 h) p \<in> set cs \<Longrightarrow> reported I cs (SHash160 h)"
  "CHashLock (LockRipemd160 h) p \<in> set cs \<Longrightarrow> reported I cs (SRipemd160 h)"
  "CTxTemplate h \<in> set cs \<Longrightarrow> reported I cs (STxTemplate h)"
  by (rule reportedI, assumption, simp)+

lemma reported_hashI: "CPublicKeyHash h ks \<in> set cs \<Longrightarrow> reported_hash cs h"
  by (force simp: reported_hash_def list_ex_iff)

text \<open>The meaning of a miniscript with raw key hashes: \<open>vh\<close> says which of them are met.\<close>

fun ms_holds :: "('pk policy \<Rightarrow> bool) \<Rightarrow> (hash \<Rightarrow> bool) \<Rightarrow> 'pk miniscript \<Rightarrow> bool" where
  "ms_holds v vh (Miniscript n ty ext) =
     (case n of RawPkH h \<Rightarrow> vh h | _ \<Rightarrow> node_sem v n (map (ms_holds v vh) (children n)))"

lemma ms_holds_sem: "\<not> contains_raw_pkh ms \<Longrightarrow> ms_holds v vh ms = ms_sem v ms"
proof (induction ms rule: ms_induct)
  case (Node n ty ext)
  have kids: "map (ms_holds v vh) (children n) = map (ms_sem v) (children n)"
    using Node by (auto simp: contains_raw_pkh_iff)
  show ?case
  proof (cases n)
    case (RawPkH h)
    then show ?thesis using Node.prems by (auto simp: contains_raw_pkh_iff)
  qed (use kids in \<open>simp_all cong: map_cong\<close>)
qed

subsection \<open>Accepting runs\<close>

lemma iter_next_runs:
  assumes "iter_next I s = Some (r, s1)" "ist_public_key s = None"
  shows "(\<forall>c. r = Some (Inr c) \<longrightarrow> runs I s [c] s1)
    \<and> (r = None \<longrightarrow> (\<exists>s'. runs I s [] s' \<and> ist_state s' = [] \<and> ist_stack s' = [Satisfied]))"
  using assms
proof (induction I s arbitrary: r s1 rule: iter_next.induct)
  case (1 I s)
  show ?case
  proof (cases "step I s")
    case None
    then have "ist_state s = []" by (simp add: step_def split: list.splits)
    with None 1(2,3) show ?thesis
      by (auto simp: iter_next.simps [of I s] final_check_def split: if_splits intro: runs_refl)
  next
    case (Some out)
    note keeps = step_keeps [OF Some]
    show ?thesis
    proof (cases out)
      case (Cont s2)
      then have "iter_next I s2 = Some (r, s1)" "ist_public_key s2 = None"
        using Some 1(2,3) keeps by (simp_all add: iter_next.simps [of I s])
      from 1(1) [OF Some Cont this] show ?thesis
        using runs_cont [OF Some [unfolded Cont]] by blast
    next
      case (Yield c s2)
      then show ?thesis using Some 1(2) runs_yield [OF Some [unfolded Yield] runs_refl]
        by (auto simp: iter_next.simps [of I s])
    qed (use Some 1(2) in \<open>auto simp: iter_next.simps [of I s]\<close>)
  qed
qed

lemma runs_keeps: "runs I s cs s' \<Longrightarrow> ist_public_key s' = ist_public_key s \<and> ist_has_errored s' = ist_has_errored s"
  by (induction rule: runs.induct) (auto dest: step_keeps)

lemma collect_iter_runs:
  assumes "collect_iter I s = Some (cs, None)" "ist_public_key s = None" "\<not> ist_has_errored s"
  shows "\<exists>s'. runs I s cs s' \<and> ist_state s' = [] \<and> ist_stack s' = [Satisfied]"
  using assms
proof (induction I s arbitrary: cs rule: collect_iter.induct)
  case (1 I s)
  obtain r s1 where it: "iter_next I s = Some (r, s1)"
    using 1(2,4) by (cases "iter_next I s") (auto simp: collect_iter.simps [of I s] iter_method_next_def)
  note rs = iter_next_runs [OF it 1(3)]
  show ?case
  proof (cases r)
    case None
    then show ?thesis using it rs 1(2,4) by (simp add: collect_iter.simps [of I s] iter_method_next_def)
  next
    case (Some ec)
    then obtain c where c: "r = Some (Inr c)"
      using it 1(2,4) by (cases ec) (auto simp: collect_iter.simps [of I s] iter_method_next_def)
    have m: "iter_method_next I s = Some (Some (Inr c), s1)" using it c 1(4) by (simp add: iter_method_next_def)
    then obtain cs' where cs: "collect_iter I s1 = Some (cs', None)" "cs = c # cs'"
      using 1(2) by (auto simp: collect_iter.simps [of I s] split: option.splits)
    have run: "runs I s [c] s1" using rs c by blast
    then have "ist_public_key s1 = None" "\<not> ist_has_errored s1" using runs_keeps 1(3,4) by auto
    from 1(1) [OF m refl refl refl cs(1) this] show ?thesis using runs_trans [OF run] cs(2) by fastforce
  qed
qed

definition accepts :: "interp_env \<Rightarrow> satisfied_constraint list \<Rightarrow> istack \<Rightarrow> interp_state \<Rightarrow> bool" where
  "accepts I cs fin s \<longleftrightarrow> (\<exists>ds. set ds \<subseteq> set cs \<and> runs I s ds (mkst [] fin))"

lemma accepts_Cons:
  assumes "accepts I cs fin (mkst (mk_node ms i j # ns) st)"
  obtains s1 where "step_node I ms i j (mkst ns st) = Cont s1" "accepts I cs fin s1"
  | c s1 where "step_node I ms i j (mkst ns st) = Yield c s1" "c \<in> set cs" "accepts I cs fin s1"
proof -
  obtain ds where ds: "set ds \<subseteq> set cs" "runs I (mkst (mk_node ms i j # ns) st) ds (mkst [] fin)"
    using assms by (auto simp: accepts_def)
  from ds(2) show thesis
    by (cases rule: runs.cases) (use ds(1) that in \<open>auto simp: accepts_def step_mkst\<close>)
qed

text \<open>What a fragment leaves on the stack, and what it means.\<close>

definition leaves_result :: "bool \<Rightarrow> bool \<Rightarrow> istack \<Rightarrow> bool" where
  "leaves_result isV holds st =
     (if isV then holds
      else (case st of Satisfied # _ \<Rightarrow> holds | Dissatisfied # _ \<Rightarrow> True | _ \<Rightarrow> False))"

lemma leaves_result_simps [simp]:
  "leaves_result True P st = P" "leaves_result False P (Satisfied # st) = P" "leaves_result False P (Dissatisfied # st)"
  "\<not> leaves_result False P []" "\<not> leaves_result False P (Push x # st)"
  by (simp_all add: leaves_result_def)

lemma leaves_result_cases [consumes 1, case_names sat dis]:
  assumes "leaves_result False P st"
  obtains st' where "st = Satisfied # st'" "P" | st' where "st = Dissatisfied # st'"
  using assms by (auto simp: leaves_result_def split: list.splits element.splits)

definition judged :: "interp_env \<Rightarrow> satisfied_constraint list \<Rightarrow> interp_ms \<Rightarrow> istack \<Rightarrow> bool" where
  "judged I cs ms st =
     leaves_result (base (corr (ms_ty ms)) = BaseV) (ms_holds (reported I cs) (reported_hash cs) ms) st"

abbreviation cut :: "interp_env \<Rightarrow> satisfied_constraint list \<Rightarrow> istack \<Rightarrow> interp_ms \<Rightarrow> node_state list \<Rightarrow> bool" where
  "cut I cs fin ms rest \<equiv> \<exists>st'. accepts I cs fin (mkst rest st') \<and> judged I cs ms st'"

lemma accepts_leaf:
  assumes "accepts I cs fin (mkst (mk_node ms 0 0 # rest) st)"
    and "step_node I ms 0 0 (mkst rest st) = leaf_result (mkst rest st) r"
    and "snd r = None \<Longrightarrow> judged I cs ms (fst r)"
    and "\<And>c. snd r = Some (Inr c) \<Longrightarrow> c \<in> set cs \<Longrightarrow> judged I cs ms (fst r)"
  shows "cut I cs fin ms rest"
  using assms(1)
proof (rule accepts_Cons)
  fix s1 assume "step_node I ms 0 0 (mkst rest st) = Cont s1" "accepts I cs fin s1"
  then show ?thesis using assms(2,3)
    by (auto simp: leaf_result_def cont_def fail_def split: option.splits sum.splits)
next
  fix c s1 assume "step_node I ms 0 0 (mkst rest st) = Yield c s1" "c \<in> set cs" "accepts I cs fin s1"
  then show ?thesis using assms(2,4)
    by (auto simp: leaf_result_def cont_def fail_def split: option.splits sum.splits)
qed

lemma judged_evaluate_pk:
  assumes "evaluate_pk L vs pk st = (st', r)" "r = None \<or> (\<exists>c. r = Some (Inr c) \<and> c \<in> set cs)"
  shows "leaves_result False (reported I cs (SKey pk)) st'"
  using assms by (cases st; cases "hd st") (auto intro: reported_intros dest!: verify_sersig_Inr split: sum.splits)

lemma judged_evaluate_pkh:
  assumes "evaluate_pkh L vs h sty st = (st', r)" "r = None \<or> (\<exists>c. r = Some (Inr c) \<and> c \<in> set cs)"
  shows "leaves_result False (\<exists>ks. CPublicKeyHash h ks \<in> set cs) st'"
  using assms by (auto simp: evaluate_pkh_def split: list.splits element.splits if_splits option.splits sum.splits)

lemma judged_evaluate_hash:
  assumes "r = None \<or> (\<exists>c. r = Some (Inr c) \<and> c \<in> set cs)"
  shows "evaluate_sha256 L h st = (st', r) \<Longrightarrow> leaves_result False (reported I cs (SSha256 h)) st'"
    "evaluate_hash256 L h st = (st', r) \<Longrightarrow> leaves_result False (reported I cs (SHash256 h)) st'"
    "evaluate_hash160 L h st = (st', r) \<Longrightarrow> leaves_result False (reported I cs (SHash160 h)) st'"
    "evaluate_ripemd160 L h st = (st', r) \<Longrightarrow> leaves_result False (reported I cs (SRipemd160 h)) st'"
  using assms by (auto simp: evaluate_sha256_def evaluate_hash256_def evaluate_hash160_def evaluate_ripemd160_def
      intro: reported_intros split: list.splits element.splits if_splits)

lemma judged_evaluate_time:
  assumes "r = None \<or> (\<exists>c. r = Some (Inr c) \<and> c \<in> set cs)"
  shows "evaluate_after (abs_lock_of (ie_lib I) t) lt st = (st', r) \<Longrightarrow> leaves_result False (reported I cs (SAfter t)) st'"
    "rel_lock_of (ie_lib I) q = Some n \<Longrightarrow> evaluate_older L n sq st = (st', r) \<Longrightarrow>
       leaves_result False (reported I cs (SOlder q)) st'"
  using assms by (auto simp: evaluate_after_def evaluate_older_def intro: reported_intros
      split: if_splits option.splits abs_lock.splits)

subsection \<open>Multisignatures\<close>

lemma evaluate_pk_top:
  assumes "evaluate_pk L vs pk st = (st', r)" "r = None \<or> (\<exists>c. r = Some (Inr c) \<and> c \<in> set cs)"
  shows "\<exists>e st2. st' = e # st2 \<and> (r \<noteq> None \<longrightarrow> reported I cs (SKey pk))"
  using assms by (cases st; cases "hd st") (auto intro: reported_intros dest!: verify_sersig_Inr split: sum.splits)

lemma evaluate_multi_top:
  assumes "evaluate_multi L vs pk st = (st', Some (Inr c))" "c \<in> set cs"
  shows "reported I cs (SKey pk)"
  using assms by (cases st; cases "hd st") (auto intro: reported_intros dest!: verify_sersig_Inr split: sum.splits)

lemma count_true_take_Suc:
  "i < length xs \<Longrightarrow> count_true (map f (take (Suc i) xs)) = count_true (map f (take i xs)) + (if f (xs ! i) then 1 else 0)"
  by (simp add: take_Suc_conv_app_nth count_true_def)

lemma count_true_drop:
  "i < length xs \<Longrightarrow> count_true (map f (drop i xs)) = count_true (map f (drop (Suc i) xs)) + (if f (xs ! i) then 1 else 0)"
  by (simp add: Cons_nth_drop_Suc [symmetric] count_true_def)

lemma count_true_drop_le: "count_true (map f (drop i xs)) \<le> count_true (map f xs)"
proof -
  have "count_true (map f xs) = count_true (map f (take i xs @ drop i xs))" by simp
  also have "\<dots> = count_true (map f (take i xs)) + count_true (map f (drop i xs))"
    unfolding map_append by (simp add: count_true_def)
  finally show ?thesis by simp
qed

lemma multi_a_cut:
  assumes "accepts I cs fin (mkst (mk_node (Miniscript (MultiA t) ty ext) i j # rest) st)"
    and "j \<le> count_true (map (reported I cs \<circ> SKey) (take i (thr_data t)))"
  shows "\<exists>st'. accepts I cs fin (mkst rest st')
    \<and> leaves_result False (thr_k t \<le> count_true (map (reported I cs \<circ> SKey) (thr_data t))) st'"
  using assms
proof (induction "thr_n t - i" arbitrary: i j st)
  case 0
  from 0(2) show ?case
  proof (rule accepts_Cons)
    fix s1 assume s1: "step_node I (Miniscript (MultiA t) ty ext) i j (mkst rest st) = Cont s1" "accepts I cs fin s1"
    then have "i = thr_n t" "s1 = mkst rest ((if j = thr_k t then Satisfied else Dissatisfied) # st)"
      using 0(1) by (auto simp: step_node_def step_multi_a_def cont_def fail_def split: if_splits)
    then show ?thesis using s1(2) 0(3) by (auto simp: thr_n_def intro!: exI [of _ "(if j = thr_k t then Satisfied else Dissatisfied) # st"])
  next
    fix c s1 assume s1: "step_node I (Miniscript (MultiA t) ty ext) i j (mkst rest st) = Yield c s1"
    then show ?thesis using 0(1) by (auto simp: step_node_def step_multi_a_def cont_def fail_def split: if_splits)
  qed
next
  case (Suc m)
  have i: "i < thr_n t" "m = thr_n t - Suc i" using Suc(2) by simp_all
  obtain st1 r where ev: "evaluate_pk (ie_lib I) (ie_verify_sig I) (thr_data t ! i) st = (st1, r)" by fastforce
  note take = count_true_take_Suc [of i "thr_data t" "reported I cs \<circ> SKey"]
  from Suc(3) show ?case
  proof (rule accepts_Cons)
    fix s1 assume s1: "step_node I (Miniscript (MultiA t) ty ext) i j (mkst rest st) = Cont s1" "accepts I cs fin s1"
    then have "s1 = mkst (mk_node (Miniscript (MultiA t) ty ext) (Suc i) j # rest) (tl st1)"
      using i ev by (auto simp: step_node_def step_multi_a_def cont_def fail_def Let_def split: option.splits sum.splits list.splits)
    with Suc(1) [OF i(2)] s1(2) show ?thesis using Suc(4) i(1) take by (fastforce simp: thr_n_def)
  next
    fix c s1 assume s1: "step_node I (Miniscript (MultiA t) ty ext) i j (mkst rest st) = Yield c s1" "c \<in> set cs" "accepts I cs fin s1"
    then have "s1 = mkst (mk_node (Miniscript (MultiA t) ty ext) (Suc i) (Suc j) # rest) (tl st1)" "r = Some (Inr c)"
      using i ev by (auto simp: step_node_def step_multi_a_def cont_def fail_def Let_def split: option.splits sum.splits list.splits)
    with Suc(1) [OF i(2)] s1(2,3) show ?thesis using Suc(4) i(1) take evaluate_pk_top [OF ev, of cs I] by (fastforce simp: thr_n_def)
  qed
qed

lemma multi_check_cut:
  assumes "multi_check I node t i j (mkst rest st) = Cont s1 \<or> multi_check I node t i j (mkst rest st) = Yield c s1 \<and> c \<in> set cs"
    and "j \<le> count_true (map (reported I cs \<circ> SKey) (drop (thr_n t - i) (thr_data t)))" "i \<le> thr_n t"
  shows "\<exists>j' st'. s1 = mkst (mk_node node (Suc i) j' # rest) st' \<and> i < thr_n t
    \<and> j' \<le> count_true (map (reported I cs \<circ> SKey) (drop (thr_n t - Suc i) (thr_data t)))"
proof -
  obtain st1 r where ev: "evaluate_multi (ie_lib I) (ie_verify_sig I) (thr_data t ! (thr_n t - i - 1)) st = (st1, r)" by fastforce
  have i: "i < thr_n t" using assms(1) by (auto simp: multi_check_def split: if_splits)
  then have drop: "count_true (map (reported I cs \<circ> SKey) (drop (thr_n t - Suc i) (thr_data t)))
      = count_true (map (reported I cs \<circ> SKey) (drop (thr_n t - i) (thr_data t)))
        + (if reported I cs (SKey (thr_data t ! (thr_n t - Suc i))) then 1 else 0)"
    using count_true_drop [of "thr_n t - Suc i" "thr_data t" "reported I cs \<circ> SKey"] by (simp add: thr_n_def Suc_diff_Suc)
  have "s1 = mkst (mk_node node (Suc i) j # rest) st1 \<or>
      s1 = mkst (mk_node node (Suc i) (Suc j) # rest) st1 \<and> reported I cs (SKey (thr_data t ! (thr_n t - Suc i)))"
    using assms(1) i ev evaluate_multi_top [of "ie_lib I" "ie_verify_sig I" _ st st1 _ cs I]
    by (auto simp: multi_check_def cont_def fail_def split: option.splits sum.splits)
  then show ?thesis using drop assms(2) i by auto
qed

text \<open>The same for any outcome that goes on: a step that stops is no part of an accepting run.\<close>

lemma accepts_step:
  assumes "accepts I cs fin (mkst (mk_node ms i j # ns) st)"
  obtains c s1 where "step_node I ms i j (mkst ns st) = Cont s1 \<or> step_node I ms i j (mkst ns st) = Yield c s1 \<and> c \<in> set cs"
    "accepts I cs fin s1"
  using assms by (rule accepts_Cons) (use that in blast)+

lemma multi_cut_from:
  assumes "accepts I cs fin (mkst (mk_node (Miniscript (Multi t) ty ext) i j # rest) st)"
    and "j \<le> count_true (map (reported I cs \<circ> SKey) (drop (thr_n t - i) (thr_data t)))" "0 < i" "i \<le> thr_n t"
  shows "\<exists>st'. accepts I cs fin (mkst rest st')
    \<and> leaves_result False (thr_k t \<le> count_true (map (reported I cs \<circ> SKey) (thr_data t))) st'"
  using assms
proof (induction "thr_n t - i" arbitrary: i j st rule: less_induct)
  case less
  let ?ms = "Miniscript (Multi t) ty ext"
  from less(2) obtain c s1 where s1: "step_node I ?ms i j (mkst rest st) = Cont s1
      \<or> step_node I ?ms i j (mkst rest st) = Yield c s1 \<and> c \<in> set cs" "accepts I cs fin s1"
    by (rule accepts_step)
  show ?case
  proof (cases "j = thr_k t")
    case True
    then obtain st2 where "s1 = mkst rest (Satisfied # st2)"
      using s1(1) less(4) by (auto simp: step_node_def step_multi_def cont_def fail_def split: list.splits element.splits)
    then show ?thesis
      using s1(2) less(3) True count_true_drop_le [of "reported I cs \<circ> SKey" "thr_n t - i" "thr_data t"]
      by (intro exI [of _ "Satisfied # st2"]) simp
  next
    case False
    then have "multi_check I ?ms t i j (mkst rest st) = Cont s1
        \<or> multi_check I ?ms t i j (mkst rest st) = Yield c s1 \<and> c \<in> set cs"
      using s1(1) less(4) by (auto simp: step_node_def step_multi_def fail_def split: if_splits)
    from multi_check_cut [OF this less(3,5)] obtain j' st' where nxt: "s1 = mkst (mk_node ?ms (Suc i) j' # rest) st'"
        "i < thr_n t" "j' \<le> count_true (map (reported I cs \<circ> SKey) (drop (thr_n t - Suc i) (thr_data t)))"
      by blast
    show ?thesis by (rule less(1) [OF _ s1(2) [unfolded nxt(1)] nxt(3)]) (use nxt(2) in simp_all)
  qed
qed

lemma multi_cut:
  assumes "accepts I cs fin (mkst (mk_node (Miniscript (Multi t) ty ext) 0 0 # rest) st)"
  shows "\<exists>st'. accepts I cs fin (mkst rest st')
    \<and> leaves_result False (thr_k t \<le> count_true (map (reported I cs \<circ> SKey) (thr_data t))) st'"
proof -
  let ?ms = "Miniscript (Multi t) ty ext"
  from assms obtain c s1 where s1: "step_node I ?ms 0 0 (mkst rest st) = Cont s1
      \<or> step_node I ?ms 0 0 (mkst rest st) = Yield c s1 \<and> c \<in> set cs" "accepts I cs fin s1"
    by (rule accepts_step)
  show ?thesis
  proof (cases "\<exists>st2. st = Dissatisfied # st2")
    case True
    then obtain st2 where "s1 = mkst rest (Dissatisfied # st2)"
      using s1(1) by (auto simp: step_node_def step_multi_def Let_def cont_def fail_def split: if_splits)
    then show ?thesis using s1(2) by (intro exI [of _ "Dissatisfied # st2"]) simp
  next
    case False
    then have "multi_check I ?ms t 0 0 (mkst rest st) = Cont s1
        \<or> multi_check I ?ms t 0 0 (mkst rest st) = Yield c s1 \<and> c \<in> set cs"
      using s1(1) by (auto simp: step_node_def step_multi_def fail_def split: if_splits list.splits element.splits)
    from multi_check_cut [OF this] obtain j' st' where nxt: "s1 = mkst (mk_node ?ms (Suc 0) j' # rest) st'"
        "0 < thr_n t" "j' \<le> count_true (map (reported I cs \<circ> SKey) (drop (thr_n t - Suc 0) (thr_data t)))"
      by auto
    show ?thesis by (rule multi_cut_from [OF s1(2) [unfolded nxt(1)] nxt(3)]) (use nxt(2) in simp_all)
  qed
qed

subsection \<open>Thresholds\<close>

lemma thresh_cut_from:
  assumes "accepts I cs fin (mkst (mk_node (Miniscript (Thresh t) ty ext) i j # rest) st)"
    and "leaves_result False (h (thr_data t ! (i - 1))) st"
    and "j \<le> count_true (map h (take (i - 1) (thr_data t)))" "0 < i" "i \<le> thr_n t"
    and kid: "\<And>x rest st. x \<in> set (thr_data t) \<Longrightarrow> accepts I cs fin (mkst (mk_node x 0 0 # rest) st) \<Longrightarrow>
      \<exists>st'. accepts I cs fin (mkst rest st') \<and> leaves_result False (h x) st'"
  shows "\<exists>st'. accepts I cs fin (mkst rest st') \<and> leaves_result False (thr_k t \<le> count_true (map h (thr_data t))) st'"
  using assms(1-5)
proof (induction "thr_n t - i" arbitrary: i j st rule: less_induct)
  case less
  let ?ms = "Miniscript (Thresh t) ty ext"
  from less(2) obtain c s1 where s1: "step_node I ?ms i j (mkst rest st) = Cont s1
      \<or> step_node I ?ms i j (mkst rest st) = Yield c s1 \<and> c \<in> set cs" "accepts I cs fin s1"
    by (rule accepts_step)
  obtain e st2 where st: "st = bel e # st2" "e \<longrightarrow> h (thr_data t ! (i - 1))"
    using less(3) by (cases rule: leaves_result_cases) (metis bel_simps)+
  define j' where "j' = (if e then Suc j else j)"
  have "count_true (map h (take i (thr_data t)))
      = count_true (map h (take (i - 1) (thr_data t))) + (if h (thr_data t ! (i - 1)) then 1 else 0)"
    using count_true_take_Suc [of "i - 1" "thr_data t" h] less(5,6) by (simp add: thr_n_def)
  then have j': "j' \<le> count_true (map h (take i (thr_data t)))" using less(4) st(2) by (simp add: j'_def)
  show ?case
  proof (cases "i = thr_n t")
    case True
    then have "s1 = mkst rest (bel (j' = thr_k t) # st2)"
      using s1(1) st(1) less(5) by (cases e) (auto simp: step_node_def step_thresh_def interp_simps j'_def bel_def)
    then show ?thesis
      using s1(2) j' True by (intro exI [of _ "bel (j' = thr_k t) # st2"]) (auto simp: bel_def thr_n_def)
  next
    case False
    then have i: "i < thr_n t" using less(6) by simp
    then have "s1 = mkst (mk_node (thr_data t ! i) 0 0 # mk_node ?ms (Suc i) j' # rest) st2"
      using s1(1) st(1) less(5) by (cases e) (auto simp: step_node_def step_thresh_def interp_simps j'_def)
    then obtain st' where st': "accepts I cs fin (mkst (mk_node ?ms (Suc i) j' # rest) st')"
        "leaves_result False (h (thr_data t ! i)) st'"
      using kid [of "thr_data t ! i"] s1(2) i by (auto simp: thr_n_def)
    show ?thesis by (rule less(1) [OF _ st'(1)]) (use i st'(2) j' in simp_all)
  qed
qed

lemma thresh_cut:
  assumes "accepts I cs fin (mkst (mk_node (Miniscript (Thresh t) ty ext) 0 0 # rest) st)"
    and kid: "\<And>x rest st. x \<in> set (thr_data t) \<Longrightarrow> accepts I cs fin (mkst (mk_node x 0 0 # rest) st) \<Longrightarrow>
      \<exists>st'. accepts I cs fin (mkst rest st') \<and> leaves_result False (h x) st'"
  shows "\<exists>st'. accepts I cs fin (mkst rest st') \<and> leaves_result False (thr_k t \<le> count_true (map h (thr_data t))) st'"
proof -
  let ?ms = "Miniscript (Thresh t) ty ext"
  from assms(1) obtain c s1 where s1: "step_node I ?ms 0 0 (mkst rest st) = Cont s1
      \<or> step_node I ?ms 0 0 (mkst rest st) = Yield c s1 \<and> c \<in> set cs" "accepts I cs fin s1"
    by (rule accepts_step)
  then obtain x xs where x: "thr_data t = x # xs"
      "accepts I cs fin (mkst (mk_node x 0 0 # mk_node ?ms (Suc 0) 0 # rest) st)"
    by (cases "thr_data t") (auto simp: step_node_def step_thresh_def interp_simps)
  then obtain st' where st': "accepts I cs fin (mkst (mk_node ?ms (Suc 0) 0 # rest) st')" "leaves_result False (h x) st'"
    using kid [of x] by auto
  show ?thesis by (rule thresh_cut_from [OF st'(1) _ _ _ _ kid]) (use st'(2) x(1) in \<open>simp_all add: thr_n_def\<close>)
qed

subsection \<open>Every fragment\<close>

lemma judged_V: "base (corr (ms_ty ms)) = BaseV \<Longrightarrow> judged I cs ms st = ms_holds (reported I cs) (reported_hash cs) ms"
  by (simp add: judged_def)

lemma judged_not_V:
  "base (corr (ms_ty ms)) \<noteq> BaseV \<Longrightarrow>
     judged I cs ms st = leaves_result False (ms_holds (reported I cs) (reported_hash cs) ms) st"
  by (simp add: judged_def)

lemma judged_mono:
  assumes "judged I cs x st" "base (corr (ms_ty x)) = base (corr (ms_ty ms))"
    and "ms_holds (reported I cs) (reported_hash cs) x \<Longrightarrow> ms_holds (reported I cs) (reported_hash cs) ms"
  shows "judged I cs ms st"
  using assms by (auto simp: judged_def leaves_result_def split: list.splits element.splits if_splits)

text \<open>A first child that leaves a Boolean, and the continuation of its parent.\<close>

lemma accepts_after:
  assumes "accepts I cs fin (mkst (mk_node x 0 0 # mk_node ms i j # rest) st)"
    and IH: "\<And>rest st. accepts I cs fin (mkst (mk_node x 0 0 # rest) st) \<Longrightarrow> cut I cs fin x rest"
    and "base (corr (ms_ty x)) \<noteq> BaseV"
  obtains b st2 c s1 where "b \<Longrightarrow> ms_holds (reported I cs) (reported_hash cs) x" "accepts I cs fin s1"
    "step_node I ms i j (mkst rest (bel b # st2)) = Cont s1
      \<or> step_node I ms i j (mkst rest (bel b # st2)) = Yield c s1 \<and> c \<in> set cs"
proof -
  obtain st' where st': "accepts I cs fin (mkst (mk_node ms i j # rest) st')"
      "leaves_result False (ms_holds (reported I cs) (reported_hash cs) x) st'"
    using IH [OF assms(1)] assms(3) by (auto simp: judged_not_V)
  from st'(2) obtain b st2 where b: "st' = bel b # st2" "b \<longrightarrow> ms_holds (reported I cs) (reported_hash cs) x"
    by (cases rule: leaves_result_cases) (metis bel_simps)+
  from st'(1) [unfolded b(1)] show thesis by (rule accepts_step) (use b(2) that in blast)
qed

lemma cut_typed:
  "typed_ms ms \<Longrightarrow> accepts I cs fin (mkst (mk_node ms 0 0 # rest) st) \<Longrightarrow> cut I cs fin ms rest"
proof (induction ms arbitrary: rest st rule: ms_induct)
  case (Node n ty ext)
  have ok: "node_ok n" "ty_check n = Inr ty" using Node.prems(1) by simp_all
  let ?ms = "Miniscript n ty ext"
  let ?H = "ms_holds (reported I cs) (reported_hash cs)"
  have IH: "cut I cs fin c rest" if "c \<in> set (children n)" "accepts I cs fin (mkst (mk_node c 0 0 # rest) st)" for c rest st
    using Node.IH [OF that(1) _ that(2)] Node.prems(1) that(1) by simp
  obtain c s1 where s1: "step_node I ?ms 0 0 (mkst rest st) = Cont s1
      \<or> step_node I ?ms 0 0 (mkst rest st) = Yield c s1 \<and> c \<in> set cs" "accepts I cs fin s1"
    using Node.prems(2) by (rule accepts_step)
  note acc = Node.prems(2)
  note step = step_node_def interp_simps
  show ?case
  proof (cases n)
    case TrueT
    then have "s1 = mkst rest (Satisfied # st)" using s1(1) by (simp add: step)
    then show ?thesis using s1(2) TrueT ok(2) by (intro exI [of _ "Satisfied # st"]) (auto simp: judged_not_V ty_leaf_defs)
  next
    case FalseT
    then have "s1 = mkst rest (Dissatisfied # st)" using s1(1) by (simp add: step)
    then show ?thesis using s1(2) FalseT ok(2) by (intro exI [of _ "Dissatisfied # st"]) (auto simp: judged_not_V ty_leaf_defs)
  next
    case (TxTemplate h)
    then have "s1 = mkst rest st" "CTxTemplate h \<in> set cs" using s1(1) by (auto simp: step fail_def split: if_splits)
    then show ?thesis using s1(2) TxTemplate ok(2)
      by (intro exI [of _ st]) (auto simp: judged_V ty_leaf_defs intro: reported_intros)
  next
    case (PkK pk)
    then show ?thesis
      by (intro accepts_leaf [OF acc, of "evaluate_pk (ie_lib I) (ie_verify_sig I) pk st"])
        (use ok(2) judged_evaluate_pk [OF surjective_pairing, of "ie_lib I" "ie_verify_sig I" pk st cs I] in
          \<open>auto simp: step_node_def Let_def judged_not_V ty_leaf_defs  intro: reported_intros reported_hashI\<close>)
  next
    case (PkH pk)
    let ?r = "evaluate_pkh (ie_lib I) (ie_verify_sig I) (to_pubkeyhash (ie_lib I) (ie_sig_type I) pk) (ie_sig_type I) st"
    have "leaves_result False (?H ?ms) (fst ?r)" if "snd ?r = None \<or> (\<exists>c. snd ?r = Some (Inr c) \<and> c \<in> set cs)"
      using judged_evaluate_pkh [OF surjective_pairing that] PkH
      by (auto simp: leaves_result_def intro: reported_intros reported_hashI split: list.splits element.splits)
    then show ?thesis
      using PkH ok(2)
      by (intro accepts_leaf [OF acc, of ?r]) (auto simp: step_node_def Let_def judged_not_V ty_leaf_defs)
  next
    case (RawPkH h)
    let ?r = "evaluate_pkh (ie_lib I) (ie_verify_sig I) h (ie_sig_type I) st"
    have "leaves_result False (?H ?ms) (fst ?r)" if "snd ?r = None \<or> (\<exists>c. snd ?r = Some (Inr c) \<and> c \<in> set cs)"
      using judged_evaluate_pkh [OF surjective_pairing that] RawPkH
      by (auto simp: leaves_result_def intro: reported_intros reported_hashI split: list.splits element.splits)
    then show ?thesis
      using RawPkH ok(2)
      by (intro accepts_leaf [OF acc, of ?r]) (auto simp: step_node_def Let_def judged_not_V ty_leaf_defs)
  next
    case (After t)
    then show ?thesis
      using ok(2) judged_evaluate_time(1) [where I = I and t = t and lt = "ie_lock_time I" and st = st and cs = cs, OF _ surjective_pairing]
      by (intro accepts_leaf [OF acc, of "evaluate_after (abs_lock_of (ie_lib I) t) (ie_lock_time I) st"])
        (auto simp: step_node_def Let_def judged_not_V ty_leaf_defs)
  next
    case (Older t)
    then obtain q where q: "rel_lock_of (ie_lib I) t = Some q" using s1(1) by (auto simp: step Let_def split: option.splits)
    then show ?thesis
      using ok(2) Older judged_evaluate_time(2) [where L = "ie_lib I" and sq = "ie_sequence I" and st = st and cs = cs, OF _ q surjective_pairing]
      by (intro accepts_leaf [OF acc, of "evaluate_older (ie_lib I) q (ie_sequence I) st"])
        (auto simp: step_node_def Let_def judged_not_V ty_leaf_defs)
  next
    case (Sha256 h)
    then show ?thesis
      using ok(2) judged_evaluate_hash(1) [where L = "ie_lib I" and h = h and st = st and cs = cs and I = I, OF _ surjective_pairing]
      by (intro accepts_leaf [OF acc, of "evaluate_sha256 (ie_lib I) h st"])
        (auto simp: step_node_def Let_def judged_not_V ty_leaf_defs)
  next
    case (Hash256 h)
    then show ?thesis
      using ok(2) judged_evaluate_hash(2) [where L = "ie_lib I" and h = h and st = st and cs = cs and I = I, OF _ surjective_pairing]
      by (intro accepts_leaf [OF acc, of "evaluate_hash256 (ie_lib I) h st"])
        (auto simp: step_node_def Let_def judged_not_V ty_leaf_defs)
  next
    case (Hash160 h)
    then show ?thesis
      using ok(2) judged_evaluate_hash(3) [where L = "ie_lib I" and h = h and st = st and cs = cs and I = I, OF _ surjective_pairing]
      by (intro accepts_leaf [OF acc, of "evaluate_hash160 (ie_lib I) h st"])
        (auto simp: step_node_def Let_def judged_not_V ty_leaf_defs)
  next
    case (Ripemd160 h)
    then show ?thesis
      using ok(2) judged_evaluate_hash(4) [where L = "ie_lib I" and h = h and st = st and cs = cs and I = I, OF _ surjective_pairing]
      by (intro accepts_leaf [OF acc, of "evaluate_ripemd160 (ie_lib I) h st"])
        (auto simp: step_node_def Let_def judged_not_V ty_leaf_defs)
  next
    case (Alt x)
    then have "s1 = mkst (mk_node x 0 0 # rest) st" using s1(1) by (simp add: step)
    then show ?thesis using IH [of x] s1(2) Alt ok(2) by (auto simp: judged_def ty_Inr)
  next
    case (Swap x)
    then have "s1 = mkst (mk_node x 0 0 # rest) st" using s1(1) by (simp add: step)
    then show ?thesis using IH [of x] s1(2) Swap ok(2) by (auto simp: judged_def ty_Inr)
  next
    case (Check x)
    then have "s1 = mkst (mk_node x 0 0 # rest) st" using s1(1) by (simp add: step)
    then show ?thesis using IH [of x] s1(2) Check ok(2) by (auto simp: judged_def ty_Inr)
  next
    case (InscribePre ins x)
    then have "s1 = mkst (mk_node x 0 0 # rest) st" using s1(1) by (simp add: step)
    then show ?thesis using IH [of x] s1(2) InscribePre ok(2) by (auto simp: judged_def ty_Inr split: if_splits)
  next
    case (InscribePost ins x)
    then have "s1 = mkst (mk_node x 0 0 # rest) st" using s1(1) by (simp add: step)
    then show ?thesis using IH [of x] s1(2) InscribePost ok(2) by (auto simp: judged_def ty_Inr split: if_splits)
  next
    case (DupIf x)
    then consider st2 where "s1 = mkst (mk_node x 0 0 # mk_node ?ms 1 1 # rest) st2" | st2 where "s1 = mkst rest (Dissatisfied # st2)"
      using s1(1) by (auto simp: step pop_bool_def fail_def split: list.splits element.splits)
    then show ?thesis
    proof cases
      case 1
      then obtain st' where st': "accepts I cs fin (mkst (mk_node ?ms 1 1 # rest) st')" "?H x"
        using IH [of x] s1(2) DupIf ok(2) by (auto simp: judged_V ty_Inr)
      from st'(1) have "accepts I cs fin (mkst rest (Satisfied # st'))"
        by (rule accepts_step) (auto simp: step DupIf)
      then show ?thesis using st'(2) DupIf ok(2) by (intro exI [of _ "Satisfied # st'"]) (auto simp: judged_not_V ty_Inr)
    next
      case 2
      then show ?thesis using s1(2) DupIf ok(2) by (intro exI [of _ "Dissatisfied # st2"]) (auto simp: judged_not_V ty_Inr)
    qed
  next
    case (NonZero x)
    then consider "s1 = mkst (mk_node x 0 0 # rest) st" | st2 where "s1 = mkst rest (Dissatisfied # st2)"
      using s1(1) by (auto simp: step fail_def split: list.splits element.splits)
    then show ?thesis
    proof cases
      case 1
      then show ?thesis using IH [of x] s1(2) NonZero ok(2) by (auto simp: judged_def ty_Inr)
    next
      case 2
      then show ?thesis using s1(2) NonZero ok(2) by (intro exI [of _ "Dissatisfied # st2"]) (auto simp: judged_not_V ty_Inr)
    qed
  next
    case (Verify x)
    then have "s1 = mkst (mk_node x 0 0 # mk_node ?ms 1 0 # rest) st" using s1(1) by (simp add: step)
    with s1(2) have a: "accepts I cs fin (mkst (mk_node x 0 0 # mk_node ?ms 1 0 # rest) st)" by simp
    show ?thesis
      by (rule accepts_after [OF a IH]) (use Verify ok(2) in \<open>auto simp: step ty_Inr judged_V fail_def bel_def split: if_splits\<close>)
  next
    case (ZeroNotEqual x)
    then have "s1 = mkst (mk_node x 0 0 # mk_node ?ms 1 0 # rest) st" using s1(1) by (simp add: step)
    with s1(2) have a: "accepts I cs fin (mkst (mk_node x 0 0 # mk_node ?ms 1 0 # rest) st)" by simp
    show ?thesis
    proof (rule accepts_after [OF a IH])
      fix b st2 c s2
      assume *: "b \<Longrightarrow> ?H x" "accepts I cs fin s2" "step_node I ?ms 1 0 (mkst rest (bel b # st2)) = Cont s2
        \<or> step_node I ?ms 1 0 (mkst rest (bel b # st2)) = Yield c s2 \<and> c \<in> set cs"
      then have "s2 = mkst rest (bel b # st2)" using ZeroNotEqual by (cases b) (auto simp: step)
      then show ?thesis using *(1,2) ZeroNotEqual ok(2)
        by (intro exI [of _ "bel b # st2"]) (cases b; auto simp: judged_not_V ty_Inr)
    qed (use ZeroNotEqual ok(2) in \<open>auto simp: ty_Inr\<close>)
  next
    case (AndV l r)
    then have "s1 = mkst (mk_node l 0 0 # mk_node r 0 0 # rest) st" using s1(1) by (simp add: step)
    then obtain st' where "accepts I cs fin (mkst (mk_node r 0 0 # rest) st')" "?H l"
      using IH [of l] s1(2) AndV ok(2) by (auto simp: judged_V ty_Inr)
    then show ?thesis using IH [of r] AndV ok(2) by (auto simp: judged_def ty_Inr)
  next
    case (OrI l r)
    then consider st2 where "s1 = mkst (mk_node l 0 0 # rest) st2" | st2 where "s1 = mkst (mk_node r 0 0 # rest) st2"
      using s1(1) by (auto simp: step pop_bool_def fail_def split: list.splits element.splits)
    then show ?thesis
    proof cases
      case 1
      then obtain st' where "accepts I cs fin (mkst rest st')" "judged I cs l st'" using IH [of l] s1(2) OrI by auto
      then show ?thesis using OrI ok(2) by (intro exI [of _ st']) (auto simp: ty_Inr elim!: judged_mono)
    next
      case 2
      then obtain st' where "accepts I cs fin (mkst rest st')" "judged I cs r st'" using IH [of r] s1(2) OrI by auto
      then show ?thesis using OrI ok(2) by (intro exI [of _ st']) (auto simp: ty_Inr elim!: judged_mono)
    qed
  next
    case (Multi t)
    then show ?thesis using multi_cut [of I cs fin t ty ext rest st] acc ok(2) by (auto simp: judged_not_V ty_leaf_defs comp_def)
  next
    case (MultiA t)
    then show ?thesis using multi_a_cut [of I cs fin t ty ext 0 0 rest st] acc ok(2) by (auto simp: judged_not_V ty_leaf_defs comp_def)
  next
    case (Thresh t)
    have "base (corr (ms_ty x)) \<noteq> BaseV" if "x \<in> set (thr_data t)" for x
      using ok(2) Thresh that by (cases t) (auto simp: ty_threshold_Inr thresh_bases_ok_def in_set_conv_nth split: if_splits)
    then have "\<exists>st'. accepts I cs fin (mkst rest st') \<and> leaves_result False (thr_k t \<le> count_true (map ?H (thr_data t))) st'"
      using thresh_cut [of I cs fin t ty ext rest st ?H] acc IH Thresh by (auto simp: judged_not_V)
    then show ?thesis using Thresh ok(2) by (cases t) (auto simp: judged_not_V ty_threshold_Inr)
  next
    case (AndB l r)
    then have "s1 = mkst (mk_node l 0 0 # mk_node ?ms 1 0 # rest) st" using s1(1) by (simp add: step)
    with s1(2) have a: "accepts I cs fin (mkst (mk_node l 0 0 # mk_node ?ms 1 0 # rest) st)" by simp
    show ?thesis
    proof (rule accepts_after [OF a IH])
      fix b st2 c s2
      assume *: "b \<Longrightarrow> ?H l" "accepts I cs fin s2" "step_node I ?ms 1 0 (mkst rest (bel b # st2)) = Cont s2
        \<or> step_node I ?ms 1 0 (mkst rest (bel b # st2)) = Yield c s2 \<and> c \<in> set cs"
      then have a2: "accepts I cs fin (mkst (mk_node r 0 0 # mk_node ?ms 2 (if b then 1 else 0) # rest) st2)"
        using AndB by (cases b) (auto simp: step)
      show ?thesis
      proof (rule accepts_after [OF a2 IH])
        fix b' st3 c s3
        assume **: "b' \<Longrightarrow> ?H r" "accepts I cs fin s3"
          "step_node I ?ms 2 (if b then 1 else 0) (mkst rest (bel b' # st3)) = Cont s3
            \<or> step_node I ?ms 2 (if b then 1 else 0) (mkst rest (bel b' # st3)) = Yield c s3 \<and> c \<in> set cs"
        then have "s3 = mkst rest (bel (b \<and> b') # st3)" using AndB by (cases b; cases b') (auto simp: step)
        then show ?thesis using **(1,2) *(1) AndB ok(2)
          by (intro exI [of _ "bel (b \<and> b') # st3"]) (cases b; cases b'; auto simp: judged_not_V ty_Inr)
      qed (use AndB ok(2) in \<open>auto simp: ty_Inr\<close>)
    qed (use AndB ok(2) in \<open>auto simp: ty_Inr\<close>)
  next
    case (OrB l r)
    then have "s1 = mkst (mk_node l 0 0 # mk_node ?ms 1 0 # rest) st" using s1(1) by (simp add: step)
    with s1(2) have a: "accepts I cs fin (mkst (mk_node l 0 0 # mk_node ?ms 1 0 # rest) st)" by simp
    show ?thesis
    proof (rule accepts_after [OF a IH])
      fix b st2 c s2
      assume *: "b \<Longrightarrow> ?H l" "accepts I cs fin s2" "step_node I ?ms 1 0 (mkst rest (bel b # st2)) = Cont s2
        \<or> step_node I ?ms 1 0 (mkst rest (bel b # st2)) = Yield c s2 \<and> c \<in> set cs"
      then have a2: "accepts I cs fin (mkst (mk_node r 0 0 # mk_node ?ms 2 (if b then 1 else 0) # rest) st2)"
        using OrB by (cases b) (auto simp: step)
      show ?thesis
      proof (rule accepts_after [OF a2 IH])
        fix b' st3 c s3
        assume **: "b' \<Longrightarrow> ?H r" "accepts I cs fin s3"
          "step_node I ?ms 2 (if b then 1 else 0) (mkst rest (bel b' # st3)) = Cont s3
            \<or> step_node I ?ms 2 (if b then 1 else 0) (mkst rest (bel b' # st3)) = Yield c s3 \<and> c \<in> set cs"
        then have "s3 = mkst rest (bel (b \<or> b') # st3)" using OrB by (cases b; cases b') (auto simp: step)
        then show ?thesis using **(1,2) *(1) OrB ok(2)
          by (intro exI [of _ "bel (b \<or> b') # st3"]) (cases b; cases b'; auto simp: judged_not_V ty_Inr)
      qed (use OrB ok(2) in \<open>auto simp: ty_Inr\<close>)
    qed (use OrB ok(2) in \<open>auto simp: ty_Inr\<close>)
  next
    case (OrC l r)
    then have "s1 = mkst (mk_node l 0 0 # mk_node ?ms 1 0 # rest) st" using s1(1) by (simp add: step)
    with s1(2) have a: "accepts I cs fin (mkst (mk_node l 0 0 # mk_node ?ms 1 0 # rest) st)" by simp
    show ?thesis
    proof (rule accepts_after [OF a IH])
      fix b st2 c s2
      assume *: "b \<Longrightarrow> ?H l" "accepts I cs fin s2" "step_node I ?ms 1 0 (mkst rest (bel b # st2)) = Cont s2
        \<or> step_node I ?ms 1 0 (mkst rest (bel b # st2)) = Yield c s2 \<and> c \<in> set cs"
      show ?thesis
      proof (cases b)
        case True
        then have "s2 = mkst rest st2" using *(3) OrC by (auto simp: step)
        then show ?thesis using *(1,2) True OrC ok(2) by (intro exI [of _ st2]) (auto simp: judged_V ty_Inr)
      next
        case False
        then have "s2 = mkst (mk_node r 0 0 # rest) st2" using *(3) OrC by (auto simp: step)
        then show ?thesis using IH [of r] *(2) OrC ok(2) by (auto simp: judged_V ty_Inr)
      qed
    qed (use OrC ok(2) in \<open>auto simp: ty_Inr\<close>)
  next
    case (OrD l r)
    then have "s1 = mkst (mk_node l 0 0 # mk_node ?ms 1 0 # rest) st" using s1(1) by (simp add: step)
    with s1(2) have a: "accepts I cs fin (mkst (mk_node l 0 0 # mk_node ?ms 1 0 # rest) st)" by simp
    show ?thesis
    proof (rule accepts_after [OF a IH])
      fix b st2 c s2
      assume *: "b \<Longrightarrow> ?H l" "accepts I cs fin s2" "step_node I ?ms 1 0 (mkst rest (bel b # st2)) = Cont s2
        \<or> step_node I ?ms 1 0 (mkst rest (bel b # st2)) = Yield c s2 \<and> c \<in> set cs"
      show ?thesis
      proof (cases b)
        case True
        then have "s2 = mkst rest (Satisfied # st2)" using *(3) OrD by (auto simp: step)
        then show ?thesis using *(1,2) True OrD ok(2) by (intro exI [of _ "Satisfied # st2"]) (auto simp: judged_not_V ty_Inr)
      next
        case False
        then have "s2 = mkst (mk_node r 0 0 # rest) st2" using *(3) OrD by (auto simp: step)
        then obtain st' where "accepts I cs fin (mkst rest st')" "leaves_result False (?H r) st'"
          using IH [of r] *(2) OrD ok(2) by (auto simp: judged_not_V ty_Inr)
        then show ?thesis using OrD ok(2)
          by (intro exI [of _ st']) (auto simp: judged_not_V ty_Inr leaves_result_def split: list.splits element.splits)
      qed
    qed (use OrD ok(2) in \<open>auto simp: ty_Inr\<close>)
  next
    case (AndOr x y z)
    then have "s1 = mkst (mk_node x 0 0 # mk_node ?ms 1 0 # rest) st" using s1(1) by (simp add: step)
    with s1(2) have a: "accepts I cs fin (mkst (mk_node x 0 0 # mk_node ?ms 1 0 # rest) st)" by simp
    show ?thesis
    proof (rule accepts_after [OF a IH])
      fix b st2 c s2
      assume *: "b \<Longrightarrow> ?H x" "accepts I cs fin s2" "step_node I ?ms 1 0 (mkst rest (bel b # st2)) = Cont s2
        \<or> step_node I ?ms 1 0 (mkst rest (bel b # st2)) = Yield c s2 \<and> c \<in> set cs"
      then have "accepts I cs fin (mkst (mk_node (if b then y else z) 0 0 # rest) st2)"
        using AndOr by (cases b) (auto simp: step)
      then obtain st' where st': "accepts I cs fin (mkst rest st')" "judged I cs (if b then y else z) st'"
        using IH [of "if b then y else z" rest st2] AndOr by (cases b) auto
      then show ?thesis using *(1) AndOr ok(2)
        by (intro exI [of _ st'], cases b) (auto simp: ty_Inr elim!: judged_mono)
    qed (use AndOr ok(2) in \<open>auto simp: ty_Inr\<close>)
  qed
qed

text \<open>What a client that drains the iterator learns.\<close>

lemma accepted_holds:
  assumes "typed_ms ms" "base (corr (ms_ty ms)) = BaseB" "collect_iter I (iter_custom ms st) = Some (cs, None)"
  shows "ms_holds (reported I cs) (reported_hash cs) ms"
proof -
  obtain s' where s': "runs I (iter_custom ms st) cs s'" "ist_state s' = []" "ist_stack s' = [Satisfied]"
    using collect_iter_runs [OF assms(3)] by (auto simp: iter_custom_def)
  have "s' = mkst [] [Satisfied]" using runs_keeps [OF s'(1)] s'(2,3) by (simp add: iter_custom_def)
  then have "accepts I cs [Satisfied] (mkst (mk_node ms 0 0 # []) st)"
    using s'(1) by (auto simp: accepts_def iter_custom_def)
  from cut_typed [OF assms(1) this] obtain st' where st': "accepts I cs [Satisfied] (mkst [] st')" "judged I cs ms st'"
    by blast
  from st'(1) have "st' = [Satisfied]" by (auto simp: accepts_def step_def elim: runs.cases)
  with st'(2) assms(2) show ?thesis by (simp add: judged_not_V)
qed

end
