(* ===== verification/Spec2Isabelle.thy ===== *)
theory Spec2Isabelle
  imports ScriptProps RebuildProps PolicyProps SatProps ConcProps InterpPolicy TypeCheck
begin

text \<open>
  Miniscript is a structured subset of Bitcoin Script.  The library types miniscripts, encodes them to
  scripts, produces witnesses for them and interprets a witness against a script.  This development
  models that core and proves that its parts fit together: what the satisfier produces, the interpreter
  accepts.

  The parts, in the order of the theories (paths below \<open>src/src\<close>):

  \<^item> \<open>Primitives\<close>: the values the other parts share.  The \<open>btc\<close> record holds the functions of the
    bitcoin crate the code calls (hashes, parsing of keys, comparison of locks, the length of a
    builder); they are parameters.  \<open>Threshold\<close> (\<open>primitives/threshold.rs\<close>) and the two locktimes
    (\<open>primitives/absolute_locktime.rs\<close>, \<open>relative_locktime.rs\<close>).
  \<^item> \<open>MsTypes\<close>: correctness and malleability types (\<open>miniscript/types\<close>), the errors of each
    constructor, and that every constructor is monotone and keeps the sanity checks.
  \<^item> \<open>Inscription\<close>: the envelope a script may reveal (\<open>ord/mod.rs\<close>, \<open>ord/tag.rs\<close>) and the size of its
    pushes; \<open>Envelope\<close>: the scanner for envelopes and the strict parser (\<open>ord/envelope.rs\<close>), with the
    laws of the crate's script iterator (\<open>script_laws\<close>) and the round trip.
  \<^item> \<open>ExtData\<close>: sizes, op counts and timelock information (\<open>types/extra_props.rs\<close>).
  \<^item> \<open>Ast\<close>: \<open>Terminal\<close> and \<open>Miniscript\<close>, type checking, the checks of the five script contexts
    (\<open>miniscript/context.rs\<close>) and \<open>from_ast\<close>; \<open>TypeCheck\<close>: what the cached types then say;
    \<open>Build\<close>: the constructors of leaves (\<open>miniscript/mod.rs\<close>).
  \<^item> \<open>Encode\<close>: encoding to a builder (\<open>astelem.rs\<close>) and \<open>script_size\<close>.
  \<^item> \<open>Lex\<close>, \<open>Decode\<close>: the lexer (\<open>miniscript/lex.rs\<close>) and the shift-reduce decoder
    (\<open>miniscript/decode.rs\<close>), one definition per handler of its loop; \<open>DecodeExact\<close>: what is on the
    stacks, together with the tokens still to come, always spells the tokens of the script;
    \<open>DecodeScript\<close>: \<open>decode_with_ext\<close>, the composition with the checks.
  \<^item> \<open>Trees\<close>: \<open>TreeLike\<close> and its iterators (\<open>iter/tree.rs\<close>), with the interface \<open>tree_like\<close> that
    miniscripts and policies implement; \<open>MsTree\<close>: the instance for miniscripts and the iterators of
    \<open>miniscript/iter.rs\<close>; \<open>Translate\<close>: the loops that rebuild a miniscript (\<open>clone\<close>,
    \<open>translate_pk_ctx\<close>, \<open>substitute_raw_pkh\<close>); \<open>Analysis\<close>: \<open>miniscript/analyzable.rs\<close>.
  \<^item> \<open>Satisfy\<close>: placeholders, witnesses, and the satisfier with both of its strategies
    (\<open>miniscript/satisfy.rs\<close>); \<open>SatChoice\<close> holds the interface \<open>sat_strategy\<close> that both strategies
    meet, \<open>SatMulti\<close>, \<open>SatStacks\<close> and \<open>SatShape\<close> what the resulting stacks look like.
  \<^item> \<open>InterpStack\<close>, \<open>Interp\<close>: the interpreter (\<open>interpreter/stack.rs\<close>, \<open>interpreter/mod.rs\<close>), a
    machine with a stack of nodes under evaluation; its termination; \<open>InterpRuns\<close> the contract of
    each fragment, \<open>InterpSafe\<close> that reported constraints hold, \<open>InterpPolicy\<close> that the constraints of
    an accepted run satisfy the policy of the script.
  \<^item> \<open>SatSound\<close>: the composition of the satisfier and the interpreter; \<open>SatComplete\<close>: the malleable
    satisfier finds a witness whenever what the caller provides satisfies the policy; \<open>SatSigned\<close>: a
    satisfaction of a safe miniscript has a signature; \<open>SatProps\<close>: their properties, and the path from a
    lifted policy to an accepted spend.
  \<^item> \<open>SemPolicy\<close>, \<open>SemOps\<close>, \<open>Entail\<close>: semantic policies (\<open>policy/semantic.rs\<close>) with their meaning
    \<open>sem\<close>, normalisation, the operations on them and entailment; \<open>Lift\<close>: lifting a miniscript
    (\<open>policy/mod.rs\<close>).
  \<^item> \<open>Concrete\<close>: the policies a user writes and the passes over them (\<open>policy/concrete.rs\<close>): keys,
    the timelock and safety analyses, translation; \<open>ConcSem\<close>: their meaning, the sets of leaves that
    suffice for a policy, and what the analyses decide; \<open>ConcLift\<close>: lifting them (\<open>policy/mod.rs\<close>);
    \<open>ConcTap\<close>: the leaves of the root disjunctions, the extraction of the internal key and a step of
    the enumeration of thresholds; \<open>ConcProps\<close>: their properties.  The arithmetic of \<open>f64\<close> is the record
    \<open>f64_ops\<close>: no property depends on its rounding.
  \<^item> \<open>RefLib\<close>, \<open>RefScript\<close>, \<open>Examples\<close>: concrete instances of the parameters, for the witnesses.
  \<^item> \<open>ScriptProps\<close>, \<open>RebuildProps\<close>, \<open>PolicyProps\<close>: the properties of these parts; the properties of
    the satisfier, the interpreter, types and sizes are below.

  Conventions.  A stack of the interpreter and of the model is a list with the top first; a witness is
  a list with the bottom first, as in the code.  An operation that can fail returns a sum with the error
  on the left; the outer \<open>option\<close> of an operation is \<open>None\<close> when the code panics (an index out of
  range, an \<open>unwrap\<close> of nothing, an assertion).  Recursion on miniscripts is structural; the loops of
  the interpreter, the lexer, the decoder, the iterators and \<open>entails\<close> are functions with a termination
  proof (\<open>work\<close> bounds what a script can do, \<open>decode_measure\<close> weighs tokens and non-terminals), so
  there is no fuel.

  What is assumed.  The theorems about the composition assume that the caller is honest
  (\<open>honest\<close>): a signature that it hands out verifies, a preimage has the hash it was asked for, a lock
  it calls met is met by the transaction.  The theorems about sizes assume the laws of the script builder
  (\<open>builder_laws\<close>, \<open>key_laws\<close>), those about scripts the laws of the crate's scripts and keys
  (\<open>script_laws\<close>, \<open>instructions_fit\<close>, \<open>key_parse_laws\<close>).  \<open>RefLib\<close> and \<open>RefScript\<close> have instances
  of all of them.

  Not modelled.  Parsing and printing strings: they are lists of characters cut up by the expression parser,
  with the error strings of the crate.  The compiler: its search over partial compilations is driven by
  floating point costs, as are the Huffman tree and \<open>enumerate_policy_tree\<close>; of it only the passes over
  policies above are here.  Descriptors, plans and PSBTs, which are built over the data structures of the
  bitcoin crate, and signature hashes.  Assertions of debug builds on the counters of a node are left out.
\<close>

subsection \<open>Satisfier and interpreter together\<close>

text \<open>C1.  Soundness of the satisfier: whenever \<open>satisfy\<close> returns a witness for a well-typed \<open>B\<close>
  miniscript, and the caller is honest (the signatures it hands out verify, its preimages have the
  right hash, the locks it calls met are met), the interpreter runs on that witness to the end without
  an error, and every constraint it reports holds.\<close>

theorem satisfy_accepted:
  assumes "typed_ms ms" "base (corr (ms_ty ms)) = BaseB" "honest P ms" "leaf_hash_ok P ms"
    and "satisfy (sp_lib P) (sp_keys P) (sp_ctx P) (sp_sat P) ms = Some (Inr wit)"
  shows "\<exists>cs. run_witness P ms wit = Some (cs, None) \<and> list_all (constraint_holds (sp_interp P)) cs"
  using satisfy_run [OF assms] collect_iter_holds by (fastforce simp: run_witness_def)

theorem satisfy_accepted_witness:
  "\<exists>cs. run_witness (ref_spend Segwitv0 [2]) ex_or [[48, 2], 2 # ref_point 2, []] = Some (cs, None)
     \<and> list_all (constraint_holds (sp_interp (ref_spend Segwitv0 [2]))) cs"
  by (rule satisfy_accepted [OF ex_or_typed ex_or_base ex_or_honest ex_leaf_hash ex_or_satisfy])

text \<open>C2.  The same for \<open>satisfy_malleable\<close>: the malleable strategy may choose other children of a
  threshold and other branches, but what it returns is accepted all the same.\<close>

theorem satisfy_malleable_accepted:
  assumes "typed_ms ms" "base (corr (ms_ty ms)) = BaseB" "honest P ms" "leaf_hash_ok P ms"
    and "satisfy_malleable (sp_lib P) (sp_keys P) (sp_ctx P) (sp_sat P) ms = Some (Inr wit)"
  shows "\<exists>cs. run_witness P ms wit = Some (cs, None) \<and> list_all (constraint_holds (sp_interp P)) cs"
  using satisfy_malleable_run [OF assms] collect_iter_holds by (fastforce simp: run_witness_def)

theorem satisfy_malleable_accepted_witness:
  "\<exists>cs. run_witness (ref_spend Segwitv0 [1, 3]) ex_thresh [[48, 3], [], [48, 1]] = Some (cs, None)
     \<and> list_all (constraint_holds (sp_interp (ref_spend Segwitv0 [1, 3]))) cs"
  by (rule satisfy_malleable_accepted [OF ex_thresh_typed ex_thresh_base ex_thresh_honest ex_leaf_hash
        ex_thresh_satisfy])

text \<open>C7.  The interpreter never reports a constraint that the transaction does not meet, whatever the
  script and the stack, and also when the run ends in an error.\<close>

theorem interpreter_constraints_hold:
  assumes "collect_iter I s = Some (cs, e)"
  shows "list_all (constraint_holds I) cs"
  using assms by (rule collect_iter_holds)

definition ex_interp_script :: interp_ms where
  "ex_interp_script = to_no_checks_ms ref_keys Segwitv0 ex_pk"

lemma ex_interp_run:
  "collect_iter (ref_interp Ecdsa) (iter_custom ex_interp_script [Push [48, 1]])
     = Some ([CPublicKey (EcdsaPair (PublicKey True (ref_point 1)) [48, 1])], None)"
  by code_simp

theorem interpreter_constraints_hold_witness:
  "list_all (constraint_holds (ref_interp Ecdsa)) [CPublicKey (EcdsaPair (PublicKey True (ref_point 1)) [48, 1])]"
  by (rule interpreter_constraints_hold [OF ex_interp_run])



text \<open>C3.  An accepted run proves the policy of the script: when the iterator over a well-typed \<open>B\<close> script
  ends without an error, whatever the stack was, the constraints it reported satisfy the policy of the
  script (\<open>ms_holds\<close>, which agrees with the lifted policy when there is no raw key hash), and each of
  them holds of the transaction.\<close>

theorem accepted_run_proves_policy:
  assumes "typed_ms ms" "base (corr (ms_ty ms)) = BaseB" "collect_iter I (iter_custom ms st) = Some (cs, None)"
  shows "ms_holds (reported I cs) (reported_hash cs) ms \<and> list_all (constraint_holds I) cs"
  using accepted_holds [OF assms] collect_iter_holds [OF assms(3)] by blast

lemma ex_interp_typed: "typed_ms ex_interp_script" "base (corr (ms_ty ex_interp_script)) = BaseB"
  by code_simp+

theorem accepted_run_proves_policy_witness:
  "ms_holds (reported (ref_interp Ecdsa) [CPublicKey (EcdsaPair (PublicKey True (ref_point 1)) [48, 1])])
       (reported_hash [CPublicKey (EcdsaPair (PublicKey True (ref_point 1)) [48, 1])]) ex_interp_script
     \<and> list_all (constraint_holds (ref_interp Ecdsa)) [CPublicKey (EcdsaPair (PublicKey True (ref_point 1)) [48, 1])]"
  by (rule accepted_run_proves_policy [OF ex_interp_typed ex_interp_run])

text \<open>C9.  The satisfier keeps the promise of the \<open>Input\<close> part of the type: under both strategies a
  satisfaction has exactly the number of stack elements that \<open>z\<close>, \<open>o\<close> promise and, for an \<open>n\<close>
  fragment, a top element that is not the empty vector.\<close>

theorem satisfaction_has_typed_shape:
  assumes "typed_ms ms"
    and "E = sat_env_nonmall L K ctx A r lh \<or> E = sat_env_mall L K ctx A r lh"
    and "satisfy_helper E ms = Some t" and "sat_stack t = Stack ps"
  shows "sat_shape (input (corr (ms_ty ms))) ps"
proof -
  have "sat_shape_of E ms"
    using assms(2)
  proof
    assume "E = sat_env_nonmall L K ctx A r lh"
    then show ?thesis by (intro nonmall.sat_shape_typed [OF assms(1)]) (auto simp: sat_env_nonmall_def)
  next
    assume "E = sat_env_mall L K ctx A r lh"
    then show ?thesis by (intro malleable.sat_shape_typed [OF assms(1)]) (auto simp: sat_env_mall_def)
  qed
  then show ?thesis using givesI [OF assms(3,4)] by (simp add: sat_shape_of_def)
qed

definition ex_env :: "nat list \<Rightarrow> nat sat_env" where
  "ex_env ks = sat_env_nonmall ref_btc ref_keys Segwitv0 (provider_of (ref_satisfier ks)) True (replicate 32 7)"

lemma ex_pk_template:
  "satisfy_helper (ex_env [1]) ex_pk = Some (mk_satisfaction (Stack [EcdsaSigPk 1]) True None None)"
  by code_simp

theorem satisfaction_has_typed_shape_witness:
  "sat_shape OneNonZero [EcdsaSigPk (1 :: nat)]"
proof -
  have "typed_ms ex_pk" "input (corr (ms_ty ex_pk)) = OneNonZero" by code_simp+
  with satisfaction_has_typed_shape [OF this(1) disjI1 [OF ex_env_def] ex_pk_template] show ?thesis by simp
qed

text \<open>C10.  A threshold is satisfied by exactly \<open>k\<close> of its children: what either strategy returns is
  made of \<open>k\<close> satisfactions and \<open>n - k\<close> dissatisfactions, in the order of the children.\<close>

theorem threshold_satisfies_exactly_k:
  assumes "thresh_nonmall L k ss ds = Some t \<or> thresh_mall L k ss ds = Some t"
    and "sat_stack t = Stack ps" "length ds = length ss" "k \<le> length ss"
  shows "\<exists>bs ws. chosen ss ds bs ws \<and> count_true bs = k \<and> ps = concat (rev ws)"
  using assms thresh_nonmall_picks thresh_mall_picks by blast

definition ex_sat :: "nat \<Rightarrow> nat template" where
  "ex_sat k = mk_satisfaction (Stack [EcdsaSigPk k]) True None None"

definition ex_dissat :: "nat template" where
  "ex_dissat = no_template (Stack [PushZero])"

lemma ex_thresh_choice:
  "thresh_nonmall ref_btc 1 [ex_sat 1, no_template Impossible] [ex_dissat, ex_dissat]
     = Some (mk_satisfaction (Stack [PushZero, EcdsaSigPk 1]) True None None)"
  by code_simp

theorem threshold_satisfies_exactly_k_witness:
  "\<exists>bs ws. chosen [ex_sat 1, no_template Impossible] [ex_dissat, ex_dissat] bs ws \<and> count_true bs = 1
     \<and> [PushZero, EcdsaSigPk 1] = concat (rev ws)"
  by (rule threshold_satisfies_exactly_k [OF disjI1 [OF ex_thresh_choice]]) simp_all

text \<open>C11.  The non-malleable choice never leaves a signature-free way out: when it returns a stack, the
  alternative it did not take is impossible or needs a signature, so a third party cannot swap it in.\<close>

theorem minimum_protected:
  assumes "sat_stack (minimum L a b) = Stack w"
  shows "(sat_stack a = Stack w \<and> (sat_stack b = Impossible \<or> has_sig b))
       \<or> (sat_stack b = Stack w \<and> (sat_stack a = Impossible \<or> has_sig a))"
  using assms by (auto simp: minimum_def no_template_def split: if_splits bool.splits)

lemma ex_minimum:
  "sat_stack (minimum ref_btc (ex_sat 1) (no_template (Stack [PushOne]))) = Stack [PushOne]"
  by code_simp

theorem minimum_protected_witness:
  "(sat_stack (ex_sat 1) = Stack [PushOne] \<and>
      (sat_stack (no_template (Stack [PushOne :: nat placeholder])) = Impossible
       \<or> has_sig (no_template (Stack [PushOne :: nat placeholder]))))
   \<or> (sat_stack (no_template (Stack [PushOne])) = Stack [PushOne :: nat placeholder]
      \<and> (sat_stack (ex_sat 1) = Impossible \<or> has_sig (ex_sat 1)))"
  by (rule minimum_protected [OF ex_minimum])

subsection \<open>Types\<close>

text \<open>C12.  The assertions of \<open>sanity_checks\<close>, which the code only makes in debug builds, hold at
  every node of a well-typed miniscript.\<close>

theorem typed_nodes_sane:
  assumes "typed_ms ms"
  shows "list_all (\<lambda>x. ty_sanity_checks (ms_ty x) \<and> corr_sanity_checks (corr (ms_ty x))) (pre_order ms)"
  using typed_pre_order [OF assms] typed_ty_inv by (auto simp: ty_inv_def list_all_iff)

theorem typed_nodes_sane_witness:
  "list_all (\<lambda>x. ty_sanity_checks (ms_ty x) \<and> corr_sanity_checks (corr (ms_ty x))) (pre_order ex_or)"
  by (rule typed_nodes_sane [OF ex_or_typed])




text \<open>C14.  Type checking is monotone: replacing children by ones whose types are subtypes keeps a
  fragment well typed, and its type only becomes a subtype.\<close>

theorem type_check_monotone:
  assumes "rel_terminal (=) (\<lambda>a b. ty_is_subtype (ms_ty a) (ms_ty b)) n' n" and "ty_check n = Inr ty"
  shows "\<exists>ty'. ty_check n' = Inr ty' \<and> ty_is_subtype ty' ty"
  using assms by (rule ty_check_mono)

lemma ex_subtype: "ty_is_subtype (ms_ty ex_pk) (ms_ty ex_thresh)"
  by code_simp

lemma ex_verify_thresh: "ty_check (Verify ex_thresh) = Inr (mk_ty (mk_corr BaseV Any False False) (mk_mall DissatNone True True))"
  by code_simp

theorem type_check_monotone_witness:
  "\<exists>ty'. ty_check (Verify ex_pk) = Inr ty'
     \<and> ty_is_subtype ty' (mk_ty (mk_corr BaseV Any False False) (mk_mall DissatNone True True))"
  by (rule type_check_monotone [OF _ ex_verify_thresh]) (simp add: ex_subtype)

text \<open>The sugar wrappers have the types of what they abbreviate: \<open>t:X\<close> is \<open>and_v(X,1)\<close>,
  \<open>u:X\<close> is \<open>or_i(X,0)\<close> and \<open>l:X\<close> is \<open>or_i(0,X)\<close>.\<close>

theorem sugar_types:
  "(ty_cast_true s = Inr t \<longleftrightarrow> ty_and_v s ty_TRUE = Inr t)
   \<and> (ty_cast_unlikely s = Inr t \<longleftrightarrow> ty_or_i s ty_FALSE = Inr t)
   \<and> (ty_cast_likely s = Inr t \<longleftrightarrow> ty_or_i ty_FALSE s = Inr t)"
  using ty_cast_true_eq_and_v ty_cast_unlikely_eq_or_i ty_cast_likely_eq_or_i by blast

subsection \<open>Script sizes\<close>

text \<open>C15.  \<open>script_size\<close> is exact: for a miniscript built by \<open>from_ast\<close> it returns, without a panic,
  the length of the script that \<open>encode\<close> produces.\<close>

theorem script_size_exact:
  assumes "builder_laws L" "key_laws K" "ctx \<noteq> NoChecks" "built L K ctx ms"
  shows "\<exists>b n. encode L K ctx [] ms = Some b \<and> script_size L K ctx ms = Some n \<and> builder_len L b = n"
  using built_encodes [OF assms(1-3,4)] assms(1) by (fastforce simp: encodes_def builder_laws_def)

theorem script_size_exact_witness:
  "\<exists>b n. encode ref_btc ref_keys Segwitv0 [] ex_or = Some b \<and> script_size ref_btc ref_keys Segwitv0 ex_or = Some n
     \<and> builder_len ref_btc b = n"
  by (rule script_size_exact [OF ref_builder_laws ref_key_laws _ ex_or_built]) simp

text \<open>C16.  The limit the context checks enforce is a limit on the real script: with compressed keys, a
  miniscript that \<open>from_ast\<close> accepts encodes to at most 520 bytes in \<open>Legacy\<close>, 3600 bytes in
  \<open>Segwitv0\<close> and 10,000 bytes in \<open>BareCtx\<close>.\<close>

theorem accepted_scripts_within_limits:
  assumes "builder_laws L" "key_laws K" "built L K ctx ms" "ctx = Legacy \<or> ctx = Segwitv0 \<or> ctx = BareCtx"
    and "list_all (\<lambda>pk. \<not> is_uncompressed K pk) (all_keys ms)"
  shows "\<exists>b. encode L K ctx [] ms = Some b
    \<and> builder_len L b \<le> (case ctx of Legacy \<Rightarrow> 520 | Segwitv0 \<Rightarrow> 3600 | _ \<Rightarrow> 10000)"
proof -
  have ctx: "ctx \<noteq> NoChecks" using assms(4) by auto
  obtain n where n: "script_size L K ctx ms = Some n" "encodes L K ctx ms n"
    using built_encodes [OF assms(1,2) ctx assms(3)] by blast
  have le: "n \<le> pk_cost (ms_ext ms)"
    using built_size_le_cost [OF ctx assms(3) _ n(1)] assms(5) by (simp add: list_all_iff)
  have "check_global_validity ctx K ms = Inr ()"
    using assms(3) by (cases ms) (auto dest: from_ast_Inr)
  then have "size_limit_error ctx (pk_cost (ms_ext ms)) = Inr ()" "check_global_policy_validity ctx ms = Inr ()"
    using ctx by (auto simp: check_global_validity_def check_global_consensus_validity_def and_then_check_def
        split: sum.splits)
  then have "pk_cost (ms_ext ms) \<le> (case ctx of Legacy \<Rightarrow> 520 | Segwitv0 \<Rightarrow> 3600 | _ \<Rightarrow> 10000)"
    using assms(4) by (auto simp: size_limit_error_def check_global_policy_validity_def limit_defs
        MAX_SCRIPT_ELEMENT_SIZE_def split: if_splits)
  then show ?thesis using le n(2) assms(1) by (fastforce simp: encodes_def builder_laws_def)
qed

theorem accepted_scripts_within_limits_witness:
  "\<exists>b. encode ref_btc ref_keys Segwitv0 [] ex_or = Some b
    \<and> builder_len ref_btc b \<le> (case Segwitv0 of Legacy \<Rightarrow> 520 | Segwitv0 \<Rightarrow> 3600 | _ \<Rightarrow> 10000)"
  by (rule accepted_scripts_within_limits [OF ref_builder_laws ref_key_laws ex_or_built]) (simp_all add: ref_keys_def list_all_iff)

subsection \<open>Inscriptions, thresholds, locktimes\<close>

text \<open>C17.  A validated inscription reveals only pushes that consensus allows: every data push of its
  envelope is at most 520 bytes, whatever the length of the body and the metadata.\<close>

theorem inscription_pushes_within_limit:
  assumes "validate i = Inr ()" "list_all push_ok b"
  shows "list_all push_ok (append_reveal_script_to_builder i b)"
  using assms by (rule reveal_pushes_ok)

definition ex_inscription :: inscription where
  "ex_inscription = inscription_new (Some [116]) (Some (replicate 521 1))"

theorem inscription_pushes_within_limit_witness:
  "list_all push_ok (append_reveal_script_to_builder ex_inscription [])"
  by (rule inscription_pushes_within_limit) (simp_all add: ex_inscription_def inscription_new_def validate_def
      unchunked_fields_def MAX_SCRIPT_ELEMENT_SIZE_def)

text \<open>\<open>Threshold::new\<close> accepts exactly the thresholds with \<open>1 <= k <= n <= MAX\<close>, and the early
  return of \<open>from_iter\<close> changes no verdict as long as the hint of the iterator is a lower bound.\<close>

theorem threshold_constructors:
  assumes "hint \<le> length xs"
  shows "(threshold_new mx k xs = Inr t \<longleftrightarrow> t = Threshold k xs \<and> wf_threshold mx t)
    \<and> threshold_from_iter mx hint k xs = threshold_new mx k xs"
  using assms threshold_new_ok_iff threshold_from_iter_eq_new by blast

theorem threshold_constructors_witness:
  "(threshold_new 20 2 [7, 8, 9 :: nat] = Inr (Threshold 2 [7, 8, 9])
      \<longleftrightarrow> Threshold 2 [7, 8, 9] = Threshold 2 [7, 8, 9 :: nat] \<and> wf_threshold 20 (Threshold 2 [7, 8, 9 :: nat]))
    \<and> threshold_from_iter 20 3 2 [7, 8, 9 :: nat] = threshold_new 20 2 [7, 8, 9]"
  by (rule threshold_constructors) simp

text \<open>An \<open>AbsLockTime\<close> is a positive number below \<open>2^31\<close>, so it is pushed to the script as a
  number of at most four bytes.\<close>

theorem absolute_locktime_range:
  assumes "abs_lock_time_from_consensus n = Inr t"
  shows "abs_to_consensus_u32 t = n \<and> 1 \<le> unat n \<and> unat n < 2 ^ 31
    \<and> script_num_size (unat (abs_to_consensus_u32 t)) \<le> 5"
  using abs_lock_time_from_consensus_range [OF assms] by (auto simp: script_num_size_def)

theorem absolute_locktime_range_witness:
  "abs_to_consensus_u32 (AbsLockTime 500000000) = 500000000 \<and> 1 \<le> unat (500000000 :: u32)
    \<and> unat (500000000 :: u32) < 2 ^ 31 \<and> script_num_size (unat (abs_to_consensus_u32 (AbsLockTime 500000000))) \<le> 5"
  by (rule absolute_locktime_range)
    (simp add: abs_lock_time_from_consensus_def MIN_ABSOLUTE_LOCKTIME_def MAX_ABSOLUTE_LOCKTIME_def)

end
